(* ===== verification/Py_Prelude.thy ===== *)
theory Py_Prelude
  imports Complex_Main "HOL-Library.Word" "HOL-Library.AList" "HOL-Library.Sublist"
begin

text \<open>
  What the Python clients use of the language itself, shared by every component:
  byte strings as lists of 8-bit words, text as lists of Unicode code points,
  the built-in exceptions that a branch of the code can raise, insertion-ordered
  dictionaries and \<open>collections.Counter\<close> as association lists, and the text and
  byte operations the sources call (\<open>split\<close>, \<open>partition\<close>, \<open>strip\<close>, \<open>int\<close>,
  \<open>str\<close>, \<open>to_bytes\<close>, \<open>from_bytes\<close>, UTF-8 decoding with replacement).
\<close>

unbundle bit_operations_syntax

named_theorems py_dict \<open>facts about dictionaries and counters\<close>
named_theorems py_text \<open>facts about text and byte operations\<close>

section \<open>Types\<close>

type_synonym byte = "8 word"
type_synonym bytes = "byte list"
type_synonym pystr = "nat list"

text \<open>A text literal, and a byte-string literal.\<close>

definition ustr :: "string \<Rightarrow> pystr" where
  "ustr s = map of_char s"

definition bstr :: "string \<Rightarrow> bytes" where
  "bstr s = map of_char s"

datatype py_error =
    ValueError | OverflowError | ZeroDivisionError | AssertionError
  | IndexError | KeyError | TypeError | AttributeError

type_synonym 'a result = "py_error + 'a"

definition result_bind :: "'a result \<Rightarrow> ('a \<Rightarrow> 'b result) \<Rightarrow> 'b result" where
  "result_bind r f = (case r of Inl e \<Rightarrow> Inl e | Inr a \<Rightarrow> f a)"

lemma result_bind_simps [simp]:
  "result_bind (Inl e) f = Inl e"
  "result_bind (Inr a) f = f a"
  by (simp_all add: result_bind_def)

lemma result_bind_Inr_iff:
  "result_bind r f = Inr b \<longleftrightarrow> (\<exists>a. r = Inr a \<and> f a = Inr b)"
  by (cases r) auto

lemma inj_of_char_nat: "inj (of_char :: char \<Rightarrow> nat)"
  by (rule inj_of_char)

lemma ustr_eq_iff [simp]: "ustr s = ustr t \<longleftrightarrow> s = t"
  unfolding ustr_def using inj_of_char_nat by (metis list.inj_map_strong injD)

lemma ustr_append: "ustr (s @ t) = ustr s @ ustr t"
  by (simp add: ustr_def)

lemma ustr_Nil [simp]: "ustr [] = []"
  by (simp add: ustr_def)

lemma ustr_eq_Nil [simp]: "ustr s = [] \<longleftrightarrow> s = []" "[] = ustr s \<longleftrightarrow> s = []"
  by (auto simp: ustr_def)

lemma length_ustr [simp]: "length (ustr s) = length s"
  by (simp add: ustr_def)

lemma length_bstr [simp]: "length (bstr s) = length s"
  by (simp add: bstr_def)

section \<open>Dictionaries and counters\<close>

text \<open>
  A \<open>dict\<close> keeps its insertion order, so it is an association list with distinct
  keys: \<open>AList.update\<close> overwrites in place or appends. A \<open>Counter\<close> reads 0 for a
  missing key and does not insert it.
\<close>

type_synonym 'k counter = "('k \<times> int) list"

definition cget :: "'k counter \<Rightarrow> 'k \<Rightarrow> int" where
  "cget m k = (case map_of m k of None \<Rightarrow> 0 | Some n \<Rightarrow> n)"

definition cadd :: "'k \<Rightarrow> int \<Rightarrow> 'k counter \<Rightarrow> 'k counter" where
  "cadd k n m = AList.update k (cget m k + n) m"

lemma cget_Nil [simp]: "cget [] k = 0"
  by (simp add: cget_def)

lemma cget_cadd [simp, py_dict]: "cget (cadd k n m) j = cget m j + (if j = k then n else 0)"
  by (auto simp: cget_def cadd_def update_conv')

lemma distinct_cadd [py_dict]:
  "distinct (map fst m) \<Longrightarrow> distinct (map fst (cadd k n m))"
  by (simp add: cadd_def distinct_update)

lemma keys_cadd [py_dict]: "fst ` set (cadd k n m) = insert k (fst ` set m)"
  by (simp add: cadd_def dom_update flip: dom_map_of_conv_image_fst)
    (simp add: update_conv' dom_map_of_conv_image_fst)

lemma cget_in: "distinct (map fst m) \<Longrightarrow> (k, n) \<in> set m \<Longrightarrow> cget m k = n"
  by (simp add: cget_def map_of_is_SomeI)

lemma cget_sum_update:
  assumes "distinct (map fst m)"
  shows "sum_list (map snd (AList.update k v m)) = sum_list (map snd m) - cget m k + v"
  using assms
proof (induction m)
  case Nil
  then show ?case by simp
next
  case (Cons p m)
  obtain j n where p: "p = (j, n)" by fastforce
  show ?case
  proof (cases "j = k")
    case True
    then show ?thesis by (simp add: p cget_def)
  next
    case False
    with Cons show ?thesis by (simp add: p cget_def)
  qed
qed

lemma sum_cadd [py_dict]:
  "distinct (map fst m) \<Longrightarrow> sum_list (map snd (cadd k n m)) = sum_list (map snd m) + n"
  by (simp add: cadd_def cget_sum_update)

text \<open>The values of a counter restricted to the keys that satisfy \<open>P\<close>.\<close>

definition csum :: "('k \<Rightarrow> bool) \<Rightarrow> 'k counter \<Rightarrow> int" where
  "csum P m = sum_list (map snd (filter (\<lambda>(k, _). P k) m))"

lemma csum_Nil [simp]: "csum P [] = 0"
  by (simp add: csum_def)

lemma csum_Cons [simp]: "csum P ((k, n) # m) = (if P k then n else 0) + csum P m"
  by (simp add: csum_def)

lemma csum_update:
  "distinct (map fst m) \<Longrightarrow>
   csum P (AList.update k v m) = csum P m + (if P k then v - cget m k else 0)"
proof (induction m)
  case Nil
  then show ?case by simp
next
  case (Cons p m)
  obtain j n where p: "p = (j, n)" by fastforce
  show ?case
  proof (cases "j = k")
    case True
    then show ?thesis by (simp add: p cget_def)
  next
    case False
    with Cons show ?thesis by (simp add: p cget_def)
  qed
qed

lemma csum_cadd [py_dict]:
  "distinct (map fst m) \<Longrightarrow> csum P (cadd k n m) = csum P m + (if P k then n else 0)"
  by (simp add: cadd_def csum_update)

section \<open>Slices, splitting and stripping\<close>

text \<open>\<open>xs[i:j]\<close> for non-negative bounds.\<close>

definition py_slice :: "'a list \<Rightarrow> nat \<Rightarrow> nat \<Rightarrow> 'a list" where
  "py_slice xs i j = take (j - i) (drop i xs)"

lemma length_py_slice [simp]: "length (py_slice xs i j) = min (j - i) (length xs - i)"
  by (simp add: py_slice_def min.commute)

lemma py_slice_drop: "py_slice (drop p xs) i j = py_slice xs (p + i) (p + j)"
  by (simp add: py_slice_def add.commute)

lemma py_slice_append: "j \<le> length xs \<Longrightarrow> py_slice (xs @ ys) i j = py_slice xs i j"
  by (cases "i \<le> length xs") (auto simp: py_slice_def)

lemma py_slice_append_shift:
  "py_slice (xs @ ys) (length xs + i) (length xs + j) = py_slice ys i j"
  by (simp add: py_slice_def)

lemma drop_add_append: "k \<le> length xs \<Longrightarrow> drop (k + j) (xs @ ys) = drop j (drop k xs @ ys)"
proof -
  assume "k \<le> length xs"
  then have "drop j (drop k (xs @ ys)) = drop j (drop k xs @ ys)" by simp
  then show ?thesis by (simp only: drop_drop add.commute)
qed

text \<open>\<open>s.split(c)\<close> on a one-element separator: always at least one field.\<close>

fun split_on :: "'a \<Rightarrow> 'a list \<Rightarrow> 'a list list" where
  "split_on c [] = [[]]"
| "split_on c (x # xs) =
     (if x = c then [] # split_on c xs
      else (case split_on c xs of l # ls \<Rightarrow> (x # l) # ls | [] \<Rightarrow> [[x]]))"

lemma split_on_neq_Nil [simp]: "split_on c xs \<noteq> []"
  by (induction xs) (auto split: list.splits)

fun join_on :: "'a list \<Rightarrow> 'a list list \<Rightarrow> 'a list" where
  "join_on sep [] = []"
| "join_on sep [x] = x"
| "join_on sep (x # y # xs) = x @ sep @ join_on sep (y # xs)"

lemma join_on_Cons:
  "xs \<noteq> [] \<Longrightarrow> join_on sep (x # xs) = x @ sep @ join_on sep xs"
  by (cases xs) simp_all

lemma join_split_on [py_text]: "join_on [c] (split_on c xs) = xs"
proof (induction xs)
  case Nil
  then show ?case by simp
next
  case (Cons x xs)
  obtain l ls where s: "split_on c xs = l # ls"
    by (cases "split_on c xs") auto
  show ?case
  proof (cases "x = c")
    case True
    with Cons show ?thesis by (simp add: join_on_Cons)
  next
    case False
    with Cons s show ?thesis by (cases ls) simp_all
  qed
qed

lemma split_on_no_sep [py_text]: "l \<in> set (split_on c xs) \<Longrightarrow> c \<notin> set l"
proof (induction xs arbitrary: l)
  case Nil
  then show ?case by simp
next
  case (Cons x xs)
  obtain k ks where s: "split_on c xs = k # ks"
    by (cases "split_on c xs") auto
  from Cons s show ?case by (auto split: if_splits)
qed

lemma split_on_append_sep:
  "c \<notin> set xs \<Longrightarrow> split_on c (xs @ c # ys) = xs # split_on c ys"
  by (induction xs) auto

lemma split_on_single: "c \<notin> set xs \<Longrightarrow> split_on c xs = [xs]"
  by (induction xs) auto

text \<open>\<open>s.partition(c)\<close>: before, whether the separator occurs, after.\<close>

definition partition_on :: "'a \<Rightarrow> 'a list \<Rightarrow> 'a list \<times> bool \<times> 'a list" where
  "partition_on c xs =
     (takeWhile (\<lambda>x. x \<noteq> c) xs, c \<in> set xs, drop 1 (dropWhile (\<lambda>x. x \<noteq> c) xs))"

lemma partition_on_append:
  "c \<notin> set xs \<Longrightarrow> partition_on c (xs @ c # ys) = (xs, True, ys)"
  by (induction xs) (auto simp: partition_on_def)

lemma partition_on_shorter:
  assumes "partition_on c xs = (l, True, r)"
  shows "length r < length xs"
proof -
  from assms have "c \<in> set xs" and r: "r = drop 1 (dropWhile (\<lambda>x. x \<noteq> c) xs)"
    by (simp_all add: partition_on_def)
  then have "dropWhile (\<lambda>x. x \<noteq> c) xs \<noteq> []" by (auto simp: dropWhile_eq_Nil_conv)
  then show ?thesis unfolding r using length_dropWhile_le [of "\<lambda>x. x \<noteq> c" xs]
    by (cases "dropWhile (\<lambda>x. x \<noteq> c) xs") auto
qed

definition strip_on :: "('a \<Rightarrow> bool) \<Rightarrow> 'a list \<Rightarrow> 'a list" where
  "strip_on P xs = rev (dropWhile P (rev (dropWhile P xs)))"

definition rstrip_on :: "('a \<Rightarrow> bool) \<Rightarrow> 'a list \<Rightarrow> 'a list" where
  "rstrip_on P xs = rev (dropWhile P (rev xs))"

lemma strip_on_id:
  assumes "xs = [] \<or> \<not> P (hd xs) \<and> \<not> P (last xs)"
  shows "strip_on P xs = xs"
proof (cases xs)
  case Nil
  then show ?thesis by (simp add: strip_on_def)
next
  case (Cons y ys)
  then have "xs \<noteq> []" by simp
  with assms have "\<not> P (hd xs)" and "\<not> P (hd (rev xs))" by (simp_all add: hd_rev)
  then have "dropWhile P xs = xs" and "dropWhile P (rev xs) = rev xs"
    by (simp_all add: dropWhile_eq_self_iff)
  then show ?thesis by (simp add: strip_on_def)
qed

text \<open>\<open>b.split()\<close> on runs of separators that satisfy \<open>P\<close>: no empty field.\<close>

function split_runs :: "('a \<Rightarrow> bool) \<Rightarrow> 'a list \<Rightarrow> 'a list list" where
  "split_runs P xs =
     (let ys = dropWhile P xs
      in if ys = [] then []
         else takeWhile (\<lambda>x. \<not> P x) ys # split_runs P (dropWhile (\<lambda>x. \<not> P x) ys))"
  by pat_completeness auto
termination
proof (relation "measure (length \<circ> snd)", goal_cases)
  case 1
  show ?case by simp
next
  case (2 P xs ys)
  then have ne: "dropWhile P xs \<noteq> []" by simp
  then obtain z zs where z: "dropWhile P xs = z # zs" by (cases "dropWhile P xs") auto
  then have "\<not> P z" by (metis dropWhile_eq_Cons_conv)
  then have "length (dropWhile (\<lambda>x. \<not> P x) (z # zs)) \<le> length zs"
    by (simp add: length_dropWhile_le)
  moreover have "length (z # zs) \<le> length xs"
    using z by (metis length_dropWhile_le)
  ultimately show ?case using 2 z by simp
qed

declare split_runs.simps [simp del]

end
