(* ===== verification/Py_Text.thy ===== *)
theory Py_Text
  imports Py_Prelude
begin

text \<open>
  Text operations of the Python standard library that the clients rely on for
  their verdicts: whitespace stripping, \<open>int()\<close> on text and on bytes, \<open>str()\<close> of
  an integer, big-endian integer packing, and \<open>bytes.decode("utf-8", "replace")\<close>.
  The Unicode tables (decimal digits, whitespace) are those of Unicode 15.0, the
  version of the Python 3.12 image the clients run in.
\<close>

section \<open>Whitespace and digits\<close>

definition uspace :: "nat \<Rightarrow> bool" where
  "uspace c \<longleftrightarrow> (9 \<le> c \<and> c \<le> 13) \<or> (28 \<le> c \<and> c \<le> 32) \<or> (8192 \<le> c \<and> c \<le> 8202) \<or>
     c \<in> {133, 160, 5760, 8232, 8233, 8239, 8287, 12288}"

definition aspace :: "nat \<Rightarrow> bool" where
  "aspace c \<longleftrightarrow> (9 \<le> c \<and> c \<le> 13) \<or> c = 32"

text \<open>\<open>str.strip()\<close> and the separators of \<open>bytes.split()\<close>.\<close>

definition py_strip :: "pystr \<Rightarrow> pystr" where
  "py_strip = strip_on uspace"

definition py_bytes_split :: "bytes \<Rightarrow> bytes list" where
  "py_bytes_split = split_runs (\<lambda>w. aspace (unat w))"

definition is_adigit :: "nat \<Rightarrow> bool" where
  "is_adigit c \<longleftrightarrow> 48 \<le> c \<and> c \<le> 57"

text \<open>The first code point of every run of ten decimal digits (category Nd).\<close>

definition nd_zeros :: "nat list" where
  "nd_zeros =
    [48, 1632, 1776, 1984, 2406, 2534, 2662, 2790, 2918, 3046, 3174, 3302, 3430, 3558, 3664,
     3792, 3872, 4160, 4240, 6112, 6160, 6470, 6608, 6784, 6800, 6992, 7088, 7232, 7248,
     42528, 43216, 43264, 43472, 43504, 43600, 44016, 65296, 66720, 68912, 69734, 69872,
     69942, 70096, 70384, 70736, 70864, 71248, 71360, 71472, 71904, 72016, 72784, 73040,
     73120, 73552, 92768, 92864, 93008, 120782, 120792, 120802, 120812, 120822, 123200,
     123632, 124144, 125264, 130032]"

definition udecimal :: "nat \<Rightarrow> nat option" where
  "udecimal c = map_option (\<lambda>z. c - z) (find (\<lambda>z. z \<le> c \<and> c < z + 10) nd_zeros)"

section \<open>Integers as text\<close>

text \<open>
  The digit scan of \<open>int()\<close>: single underscores may stand between digits. The
  result is the value, the number of digits, and what is left.
\<close>

fun scan_digits :: "bool \<Rightarrow> nat \<Rightarrow> nat \<Rightarrow> nat list \<Rightarrow> (nat \<times> nat \<times> nat list) option" where
  "scan_digits pd v k [] = (if pd then Some (v, k, []) else None)"
| "scan_digits pd v k (c # cs) =
     (if is_adigit c then scan_digits True (10 * v + (c - 48)) (Suc k) cs
      else if c = 95 \<and> pd then scan_digits False v k cs
      else if pd then Some (v, k, c # cs) else None)"

definition split_sign :: "nat list \<Rightarrow> bool \<times> nat list" where
  "split_sign s = (case s of [] \<Rightarrow> (False, [])
     | c # r \<Rightarrow> if c = 45 then (True, r) else if c = 43 then (False, r) else (False, s))"

text \<open>The default of \<open>sys.set_int_max_str_digits\<close>: \<open>int()\<close> refuses longer decimal text.\<close>

definition int_max_str_digits :: nat where
  "int_max_str_digits = 4300"

definition int_of_ascii :: "nat list \<Rightarrow> int result" where
  "int_of_ascii cs =
     (let (neg, s) = split_sign (dropWhile aspace cs)
      in case scan_digits False 0 0 s of
           None \<Rightarrow> Inl ValueError
         | Some (v, k, r) \<Rightarrow>
             if dropWhile aspace r \<noteq> [] \<or> int_max_str_digits < k then Inl ValueError
             else Inr (if neg then - int v else int v))"

definition to_ascii :: "nat \<Rightarrow> nat" where
  "to_ascii c = (if c < 127 then c else if uspace c then 32
     else (case udecimal c of Some d \<Rightarrow> 48 + d | None \<Rightarrow> 63))"

text \<open>\<open>int(s)\<close> for text, and for bytes.\<close>

definition py_int :: "pystr \<Rightarrow> int result" where
  "py_int s = int_of_ascii (if list_all (\<lambda>c. c < 128) s then s else map to_ascii s)"

definition py_int_bytes :: "bytes \<Rightarrow> int result" where
  "py_int_bytes bs = int_of_ascii (map unat bs)"

text \<open>\<open>str(n)\<close>.\<close>

fun dec :: "nat \<Rightarrow> pystr" where
  "dec n = (if n < 10 then [48 + n] else dec (n div 10) @ [48 + n mod 10])"

declare dec.simps [simp del]

definition py_str :: "int \<Rightarrow> pystr" where
  "py_str i = (if i < 0 then 45 # dec (nat (- i)) else dec (nat i))"

lemma dec_neq_Nil [simp]: "dec n \<noteq> []"
  by (subst dec.simps) simp

lemma dec_adigit: "c \<in> set (dec n) \<Longrightarrow> is_adigit c"
proof (induction n rule: dec.induct)
  case (1 n)
  show ?case
  proof (cases "n < 10")
    case True
    with "1.prems" show ?thesis by (subst (asm) dec.simps) (simp add: is_adigit_def)
  next
    case False
    then have "dec n = dec (n div 10) @ [48 + n mod 10]" by (subst dec.simps) simp
    with "1.prems" "1.IH" False show ?thesis by (auto simp: is_adigit_def)
  qed
qed

lemma scan_digits_dec:
  "scan_digits pd v k (dec n @ r)
   = scan_digits True (v * 10 ^ length (dec n) + n) (k + length (dec n)) r"
proof (induction n arbitrary: pd v k r rule: dec.induct)
  case (1 n)
  show ?case
  proof (cases "n < 10")
    case True
    then have "dec n = [48 + n]" by (subst dec.simps) simp
    with True show ?thesis by (simp add: is_adigit_def mult.commute)
  next
    case False
    then have d: "dec n = dec (n div 10) @ [48 + n mod 10]" by (subst dec.simps) simp
    have m: "is_adigit (48 + n mod 10)" by (simp add: is_adigit_def)
    have "scan_digits pd v k (dec n @ r)
        = scan_digits True (v * 10 ^ length (dec (n div 10)) + n div 10)
            (k + length (dec (n div 10))) ((48 + n mod 10) # r)"
      using "1.IH" [OF False] by (simp add: d)
    also have "\<dots> = scan_digits True
        (10 * (v * 10 ^ length (dec (n div 10)) + n div 10) + n mod 10)
        (Suc (k + length (dec (n div 10)))) r"
      using m by simp
    also have "10 * (v * 10 ^ length (dec (n div 10)) + n div 10) + n mod 10
        = v * 10 ^ length (dec n) + n"
      by (simp add: d algebra_simps)
    finally show ?thesis by (simp add: d)
  qed
qed

lemma length_dec_le: "0 < d \<Longrightarrow> n < 10 ^ d \<Longrightarrow> length (dec n) \<le> d"
proof (induction n arbitrary: d rule: dec.induct)
  case (1 n)
  show ?case
  proof (cases "n < 10")
    case True
    then have "length (dec n) = 1" by (subst dec.simps) simp
    with "1.prems"(1) show ?thesis by simp
  next
    case False
    with "1.prems" have "d \<noteq> 1" by auto
    with "1.prems"(1) have d: "0 < d - 1" "d = Suc (d - 1)" by auto
    have "n < 10 * 10 ^ (d - 1)"
      using "1.prems"(2) d(2) by (metis power_Suc)
    then have "n div 10 < 10 ^ (d - 1)" by (simp add: less_mult_imp_div_less mult.commute)
    from "1.IH" [OF False d(1) this] have "length (dec (n div 10)) \<le> d - 1" .
    moreover have "length (dec n) = Suc (length (dec (n div 10)))"
      using False by (subst dec.simps) simp
    ultimately show ?thesis using d(1) by simp
  qed
qed

lemma hd_dec_digit: "is_adigit (hd (dec n))"
  by (rule dec_adigit [of _ n]) simp

lemma dropWhile_aspace_dec [simp]: "dropWhile aspace (dec n @ r) = dec n @ r"
proof -
  obtain c cs where c: "dec n = c # cs" by (cases "dec n") auto
  with hd_dec_digit [of n] have "\<not> aspace c" by (auto simp: is_adigit_def aspace_def)
  with c show ?thesis by simp
qed

lemma split_sign_dec [simp]: "split_sign (dec n @ r) = (False, dec n @ r)"
proof -
  obtain c cs where c: "dec n = c # cs" by (cases "dec n") auto
  with hd_dec_digit [of n] have "c \<noteq> 45" "c \<noteq> 43" by (auto simp: is_adigit_def)
  with c show ?thesis by (simp add: split_sign_def)
qed

lemma py_str_ascii: "c \<in> set (py_str i) \<Longrightarrow> is_adigit c \<or> c = 45"
  by (auto simp: py_str_def split: if_splits dest: dec_adigit)

text \<open>Printing an integer and reading it back: a round trip up to the digit limit of \<open>int()\<close>.\<close>

lemma int_of_ascii_py_str:
  assumes "\<bar>i\<bar> < 10 ^ int_max_str_digits"
  shows "int_of_ascii (py_str i) = Inr i"
proof -
  have scan: "scan_digits False 0 0 (dec n) = Some (n, length (dec n), [])" for n
    using scan_digits_dec [of False 0 0 n "[]"] by simp
  have len: "length (dec n) \<le> int_max_str_digits" if "int n < 10 ^ int_max_str_digits" for n
  proof (rule length_dec_le)
    from that show "n < 10 ^ int_max_str_digits" by (metis of_nat_less_imp_less of_nat_numeral of_nat_power)
  qed (simp add: int_max_str_digits_def)
  show ?thesis
  proof (cases "i < 0")
    case True
    have "length (dec (nat (- i))) \<le> int_max_str_digits" by (rule len) (use assms True in simp)
    with True scan [of "nat (- i)"] show ?thesis
      by (simp add: int_of_ascii_def py_str_def split_sign_def aspace_def)
  next
    case False
    have "length (dec (nat i)) \<le> int_max_str_digits" by (rule len) (use assms False in simp)
    with False scan [of "nat i"] show ?thesis
      using dropWhile_aspace_dec [of "nat i" "[]"] split_sign_dec [of "nat i" "[]"]
      by (simp add: int_of_ascii_def py_str_def)
  qed
qed

lemma py_int_py_str [py_text]:
  assumes "\<bar>i\<bar> < 10 ^ int_max_str_digits"
  shows "py_int (py_str i) = Inr i"
proof -
  have "list_all (\<lambda>c. c < 128) (py_str i)"
    using py_str_ascii [of _ i] by (fastforce simp: list_all_iff is_adigit_def)
  with int_of_ascii_py_str [OF assms] show ?thesis by (simp add: py_int_def)
qed

lemma py_strip_py_str [py_text]: "py_strip (py_str i) = py_str i"
proof -
  have "\<not> uspace c" if "c \<in> set (py_str i)" for c
    using py_str_ascii [OF that] by (auto simp: is_adigit_def uspace_def)
  moreover have "py_str i \<noteq> []" by (simp add: py_str_def)
  ultimately show ?thesis unfolding py_strip_def by (intro strip_on_id) simp
qed

section \<open>Big-endian integers\<close>

text \<open>\<open>n.to_bytes(k, "big")\<close> and \<open>int.from_bytes(b, "big")\<close>.\<close>

fun be_bytes :: "nat \<Rightarrow> nat \<Rightarrow> bytes" where
  "be_bytes 0 n = []"
| "be_bytes (Suc k) n = be_bytes k (n div 256) @ [of_nat (n mod 256)]"

definition to_bytes :: "nat \<Rightarrow> nat \<Rightarrow> bytes result" where
  "to_bytes k n = (if n < 256 ^ k then Inr (be_bytes k n) else Inl OverflowError)"

definition from_bytes :: "bytes \<Rightarrow> nat" where
  "from_bytes bs = foldl (\<lambda>a w. a * 256 + unat w) 0 bs"

lemma length_be_bytes [simp]: "length (be_bytes k n) = k"
  by (induction k arbitrary: n) auto

lemma unat_of_nat_byte: "unat (of_nat n :: byte) = n mod 256"
  by (simp add: unat_of_nat)

lemma from_bytes_snoc: "from_bytes (bs @ [w]) = from_bytes bs * 256 + unat w"
  by (simp add: from_bytes_def)

lemma from_be_bytes [py_text]: "n < 256 ^ k \<Longrightarrow> from_bytes (be_bytes k n) = n"
proof (induction k arbitrary: n)
  case 0
  then show ?case by (simp add: from_bytes_def)
next
  case (Suc k)
  have "n div 256 < 256 ^ k" using Suc.prems by (simp add: less_mult_imp_div_less mult.commute)
  with Suc.IH show ?case by (simp add: from_bytes_snoc unat_of_nat_byte)
qed

lemma unat_byte_less: "unat (w :: byte) < 256"
  using unsigned_less [where w = w and 'a = nat] by simp

lemma from_bytes_less: "from_bytes bs < 256 ^ length bs"
proof (induction bs rule: rev_induct)
  case Nil
  then show ?case by (simp add: from_bytes_def)
next
  case (snoc w bs)
  have "from_bytes bs * 256 + unat w < Suc (from_bytes bs) * 256"
    using unat_byte_less [of w] by simp
  also have "\<dots> \<le> 256 ^ length bs * 256"
    using snoc by (intro mult_right_mono) auto
  finally show ?case by (simp add: from_bytes_snoc mult.commute)
qed

section \<open>UTF-8 decoding with replacement\<close>

definition utf8_cont :: "nat \<Rightarrow> bool" where
  "utf8_cont c \<longleftrightarrow> 128 \<le> c \<and> c < 192"

text \<open>The second bytes a lead byte allows (no overlong form, surrogate or out-of-range value).\<close>

definition utf8_second :: "nat \<Rightarrow> nat \<Rightarrow> bool" where
  "utf8_second lead c \<longleftrightarrow>
     (if lead = 224 then 160 \<le> c \<and> c < 192
      else if lead = 237 then 128 \<le> c \<and> c < 160
      else if lead = 240 then 144 \<le> c \<and> c < 192
      else if lead = 244 then 128 \<le> c \<and> c < 144
      else utf8_cont c)"

text \<open>
  Each maximal ill-formed subsequence becomes one U+FFFD (65533), as CPython's
  decoder does under \<open>errors="replace"\<close>.
\<close>

fun utf8_replace :: "nat list \<Rightarrow> pystr" where
  "utf8_replace [] = []"
| "utf8_replace (b0 # r) =
     (if b0 < 128 then b0 # utf8_replace r
      else if b0 < 194 \<or> 244 < b0 then 65533 # utf8_replace r
      else (case r of
          [] \<Rightarrow> [65533]
        | c1 # r1 \<Rightarrow>
            if \<not> utf8_second b0 c1 then 65533 # utf8_replace r
            else if b0 < 224 then ((b0 - 192) * 64 + (c1 - 128)) # utf8_replace r1
            else (case r1 of
                [] \<Rightarrow> [65533]
              | c2 # r2 \<Rightarrow>
                  if \<not> utf8_cont c2 then 65533 # utf8_replace r1
                  else if b0 < 240 then
                    ((b0 - 224) * 4096 + (c1 - 128) * 64 + (c2 - 128)) # utf8_replace r2
                  else (case r2 of
                      [] \<Rightarrow> [65533]
                    | c3 # r3 \<Rightarrow>
                        if \<not> utf8_cont c3 then 65533 # utf8_replace r2
                        else ((b0 - 240) * 262144 + (c1 - 128) * 4096 + (c2 - 128) * 64
                              + (c3 - 128)) # utf8_replace r3))))"

definition decode_utf8 :: "bytes \<Rightarrow> pystr" where
  "decode_utf8 bs = utf8_replace (map unat bs)"

lemma utf8_replace_ascii: "\<forall>c \<in> set cs. c < 128 \<Longrightarrow> utf8_replace cs = cs"
  by (induction cs) auto

lemma decode_utf8_ascii [py_text]: "\<forall>w \<in> set bs. unat w < 128 \<Longrightarrow> decode_utf8 bs = map unat bs"
  by (simp add: decode_utf8_def utf8_replace_ascii)

text \<open>\<open>str.encode()\<close> (UTF-8), one scalar value at a time.\<close>

definition utf8_char :: "nat \<Rightarrow> nat list" where
  "utf8_char c =
     (if c < 128 then [c]
      else if c < 2048 then [192 + c div 64, 128 + c mod 64]
      else if c < 65536 then [224 + c div 4096, 128 + c div 64 mod 64, 128 + c mod 64]
      else [240 + c div 262144, 128 + c div 4096 mod 64, 128 + c div 64 mod 64, 128 + c mod 64])"

definition py_encode :: "pystr \<Rightarrow> bytes" where
  "py_encode s = map of_nat (concat (map utf8_char s))"

text \<open>A Unicode scalar value: in range and not a surrogate.\<close>

definition is_scalar :: "nat \<Rightarrow> bool" where
  "is_scalar c \<longleftrightarrow> c < 1114112 \<and> \<not> (55296 \<le> c \<and> c < 57344)"

lemma utf8_replace_2:
  assumes "128 \<le> c" and "c < 2048"
  shows "utf8_replace (utf8_char c @ r) = c # utf8_replace r"
proof -
  define h l where "h = c div 64" and "l = c mod 64"
  have c: "c = h * 64 + l" and l: "l < 64" by (simp_all add: h_def l_def)
  have h: "2 \<le> h" "h < 32"
    using assms unfolding h_def by (auto simp: less_mult_imp_div_less div_le_mono dest: div_le_mono [of _ _ 64])
  have "utf8_char c = [192 + h, 128 + l]" using assms by (simp add: utf8_char_def h_def l_def)
  with h l show ?thesis by (simp add: utf8_second_def utf8_cont_def c)
qed

lemma utf8_replace_3:
  assumes "2048 \<le> c" and "c < 65536" and "is_scalar c"
  shows "utf8_replace (utf8_char c @ r) = c # utf8_replace r"
proof -
  define h m l where "h = c div 4096" and "m = c div 64 mod 64" and "l = c mod 64"
  have hm: "c div 64 = h * 64 + m"
    unfolding h_def m_def by (simp add: div_mult2_eq [of c 64 64, simplified])
  have c: "c = (h * 64 + m) * 64 + l" unfolding hm [symmetric] l_def by simp
  have m: "m < 64" and l: "l < 64" by (simp_all add: m_def l_def)
  have h: "h < 16" using assms(2) unfolding h_def by (simp add: less_mult_imp_div_less)
  have m0: "h = 0 \<Longrightarrow> 32 \<le> m" using c assms(1) l by simp
  have m13: "h = 13 \<Longrightarrow> m < 32" using c assms(3) l m by (auto simp: is_scalar_def)
  have "utf8_char c = [224 + h, 128 + m, 128 + l]"
    using assms by (simp add: utf8_char_def h_def m_def l_def)
  with h m l m0 m13 show ?thesis
    by (auto simp: utf8_second_def utf8_cont_def c)
qed

lemma utf8_replace_4:
  assumes "65536 \<le> c" and "c < 1114112"
  shows "utf8_replace (utf8_char c @ r) = c # utf8_replace r"
proof -
  define h k m l where "h = c div 262144" and "k = c div 4096 mod 64"
    and "m = c div 64 mod 64" and "l = c mod 64"
  have hk: "c div 4096 = h * 64 + k"
    unfolding h_def k_def by (simp add: div_mult2_eq [of c 4096 64, simplified])
  have km: "c div 64 = (h * 64 + k) * 64 + m"
    unfolding hk [symmetric] m_def by (simp add: div_mult2_eq [of c 64 64, simplified])
  have c: "c = ((h * 64 + k) * 64 + m) * 64 + l" unfolding km [symmetric] l_def by simp
  have b: "k < 64" "m < 64" "l < 64" by (simp_all add: k_def m_def l_def)
  have h: "h < 5" using assms(2) c b by simp
  have k0: "h = 0 \<Longrightarrow> 16 \<le> k" using c assms(1) b by simp
  have k4: "h = 4 \<Longrightarrow> k < 16" using c assms(2) b by simp
  have "utf8_char c = [240 + h, 128 + k, 128 + m, 128 + l]"
    using assms by (simp add: utf8_char_def h_def k_def m_def l_def)
  with h b k0 k4 show ?thesis
    by (auto simp: utf8_second_def utf8_cont_def c)
qed

lemma utf8_replace_char: "is_scalar c \<Longrightarrow> utf8_replace (utf8_char c @ r) = c # utf8_replace r"
proof -
  assume s: "is_scalar c"
  consider "c < 128" | "128 \<le> c" "c < 2048" | "2048 \<le> c" "c < 65536" | "65536 \<le> c" by linarith
  then show ?thesis
  proof cases
    case 1
    then show ?thesis by (simp add: utf8_char_def)
  next
    case 4
    with s show ?thesis by (intro utf8_replace_4) (simp_all add: is_scalar_def)
  qed (auto intro: utf8_replace_2 utf8_replace_3 s)
qed

lemma utf8_char_byte: "x \<in> set (utf8_char c) \<Longrightarrow> is_scalar c \<Longrightarrow> x < 256"
  by (auto simp: utf8_char_def is_scalar_def less_mult_imp_div_less split: if_splits)

lemma decode_encode_utf8 [py_text]:
  assumes "\<forall>c \<in> set s. is_scalar c"
  shows "decode_utf8 (py_encode s) = s"
proof -
  have "map unat (py_encode s) = concat (map utf8_char s)"
    unfolding py_encode_def using assms utf8_char_byte
    by (auto intro!: map_idI simp: unat_of_nat_byte)
  moreover have "utf8_replace (concat (map utf8_char s)) = s"
    using assms by (induction s) (auto simp: utf8_replace_char)
  ultimately show ?thesis by (simp add: decode_utf8_def)
qed

text \<open>\<open>bytes.decode("ascii", "replace")\<close>.\<close>

definition decode_ascii :: "bytes \<Rightarrow> pystr" where
  "decode_ascii bs = map (\<lambda>w. if unat w < 128 then unat w else 65533) bs"

lemma py_encode_ascii: "\<forall>c \<in> set s. c < 128 \<Longrightarrow> py_encode s = map of_nat s"
  by (induction s) (auto simp: py_encode_def utf8_char_def)

lemma decode_encode_ascii [py_text]:
  "\<forall>c \<in> set s. c < 128 \<Longrightarrow> decode_ascii (py_encode s) = s"
  unfolding py_encode_ascii decode_ascii_def
  by (induction s) (auto simp: unat_of_nat_byte)

text \<open>\<open>s.lower()\<close> on code points up to U+00FF, and on U+FFFD (unchanged).\<close>

definition lower_char :: "nat \<Rightarrow> nat" where
  "lower_char c = (if (65 \<le> c \<and> c \<le> 90) \<or> (192 \<le> c \<and> c \<le> 222 \<and> c \<noteq> 215) then c + 32 else c)"

definition lower :: "pystr \<Rightarrow> pystr" where
  "lower = map lower_char"

lemma lower_char_idem [simp]: "lower_char (lower_char c) = lower_char c"
  by (auto simp: lower_char_def)

lemma lower_idem [simp, py_text]: "lower (lower s) = lower s"
  by (simp add: lower_def)

end
