(* ===== verification/Ws_Framing.thy ===== *)
theory Ws_Framing
  imports Py_Text
begin

text \<open>
  WebSocket framing of the clients: \<open>ws_frame\<close> and \<open>parse_ws\<close> of
  \<open>conformance/stress/client/h3.py\<close> (all three length forms) and of
  \<open>conformance/h3websocket/client.py\<close> (the short and 16-bit forms only). The two
  parsers are loops over a byte buffer; what holds of both is proved once, in the
  locale \<open>frame_parser\<close>, whose laws are about the loop body, and each parser is an
  interpretation of it.
\<close>

section \<open>Constants and masking\<close>

definition OP_TEXT :: nat where "OP_TEXT = 1"
definition OP_BINARY :: nat where "OP_BINARY = 2"
definition OP_CLOSE :: nat where "OP_CLOSE = 8"
definition OP_PING :: nat where "OP_PING = 9"
definition OP_PONG :: nat where "OP_PONG = 10"

definition ws_mask_key :: bytes where
  "ws_mask_key = [0x21, 0x43, 0x65, 0x87]"

text \<open>\<open>bytes(payload[i] ^ MASK[i % 4] for i in range(len(payload)))\<close>\<close>

definition ws_mask :: "bytes \<Rightarrow> bytes" where
  "ws_mask payload =
     map (\<lambda>i. payload ! i XOR ws_mask_key ! (i mod 4)) [0..<length payload]"

section \<open>Serializing client frames\<close>

text \<open>The first byte: \<open>(0x80 if fin else 0) | opcode\<close>, refused when it is not a byte.\<close>

definition ws_byte0 :: "nat \<Rightarrow> bool \<Rightarrow> byte result" where
  "ws_byte0 opcode fin =
     (let v = (if fin then 0x80 else 0) OR opcode
      in if v < 256 then Inr (of_nat v) else Inl ValueError)"

text \<open>\<open>ws_frame\<close> of h3.py.\<close>

definition h3_ws_frame :: "nat \<Rightarrow> bytes \<Rightarrow> bool \<Rightarrow> bytes result" where
  "h3_ws_frame opcode payload fin =
     result_bind (ws_byte0 opcode fin) (\<lambda>b0.
       let n = length payload in
       result_bind
         (if n < 126 then Inr [of_nat (0x80 OR n)]
          else if n < 65536 then
            Inr [of_nat (0x80 OR 126), of_nat (drop_bit 8 n AND 0xff), of_nat (n AND 0xff)]
          else result_bind (to_bytes 8 n) (\<lambda>ext. Inr (of_nat (0x80 OR 127) # ext)))
         (\<lambda>len. Inr ([b0] @ len @ ws_mask_key @ ws_mask payload)))"

text \<open>\<open>ws_frame\<close> of h3websocket/client.py: short payloads only, asserted.\<close>

definition conf_ws_frame :: "nat \<Rightarrow> bytes \<Rightarrow> bool \<Rightarrow> bytes result" where
  "conf_ws_frame opcode payload fin =
     (if \<not> length payload < 126 then Inl AssertionError
      else result_bind (ws_byte0 opcode fin) (\<lambda>b0.
        Inr ([b0, of_nat (0x80 OR length payload)] @ ws_mask_key @ ws_mask payload)))"

section \<open>Parsing server frames\<close>

type_synonym ws_msg = "nat \<times> bytes"

text \<open>
  One turn of the \<open>while\<close> loop at \<open>pos\<close>: leave the loop (the guard fails or a
  \<open>break\<close>), raise (the \<open>assert\<close>), or append a frame and advance by so many bytes.
\<close>

datatype 'f parse_turn = Break | Refuse | Take 'f nat

text \<open>The two-byte extended length \<open>(buf[pos + 2] << 8) | buf[pos + 3]\<close>.\<close>

definition len16 :: "bytes \<Rightarrow> nat \<Rightarrow> nat" where
  "len16 buf pos = push_bit 8 (unat (buf ! (pos + 2))) OR unat (buf ! (pos + 3))"

definition take_frame :: "bytes \<Rightarrow> nat \<Rightarrow> nat \<Rightarrow> nat \<Rightarrow> ws_msg parse_turn" where
  "take_frame buf pos hdr plen =
     (if length buf < pos + hdr + plen then Break
      else Take (unat (buf ! pos AND 0x0f), py_slice buf (pos + hdr) (pos + hdr + plen)) (hdr + plen))"

definition h3_parse_turn :: "bytes \<Rightarrow> nat \<Rightarrow> ws_msg parse_turn" where
  "h3_parse_turn buf pos =
     (if \<not> pos + 2 \<le> length buf then Break
      else let b1 = buf ! (pos + 1); plen = unat (b1 AND 0x7f) in
        if b1 AND 0x80 \<noteq> 0 then Refuse
        else if plen = 126 then
          (if length buf < pos + 4 then Break else take_frame buf pos 4 (len16 buf pos))
        else if plen = 127 then
          (if length buf < pos + 10 then Break
           else take_frame buf pos 10 (from_bytes (py_slice buf (pos + 2) (pos + 10))))
        else take_frame buf pos 2 plen)"

definition conf_parse_turn :: "bytes \<Rightarrow> nat \<Rightarrow> ws_msg parse_turn" where
  "conf_parse_turn buf pos =
     (if \<not> pos + 2 \<le> length buf then Break
      else let b1 = buf ! (pos + 1); plen = unat (b1 AND 0x7f) in
        if b1 AND 0x80 \<noteq> 0 then Refuse
        else if plen = 126 then
          (if length buf < pos + 4 then Break else take_frame buf pos 4 (len16 buf pos))
        else take_frame buf pos 2 plen)"

lemma take_frame_consumes:
  "take_frame buf pos hdr plen = Take f n \<Longrightarrow> n = hdr + plen \<and> pos + n \<le> length buf"
  by (auto simp: take_frame_def split: if_splits)

lemma h3_turn_consumes: "h3_parse_turn buf pos = Take f n \<Longrightarrow> 0 < n \<and> pos + n \<le> length buf"
  by (auto simp: h3_parse_turn_def Let_def split: if_splits dest: take_frame_consumes)

lemma conf_turn_consumes: "conf_parse_turn buf pos = Take f n \<Longrightarrow> 0 < n \<and> pos + n \<le> length buf"
  by (auto simp: conf_parse_turn_def Let_def split: if_splits dest: take_frame_consumes)

text \<open>The loops: \<open>frames\<close> and \<open>pos\<close> are the variables the Python loop carries.\<close>

function h3_parse_loop :: "bytes \<Rightarrow> ws_msg list \<Rightarrow> nat \<Rightarrow> (ws_msg list \<times> nat) result" where
  "h3_parse_loop buf frames pos =
     (case h3_parse_turn buf pos of
        Break \<Rightarrow> Inr (frames, pos)
      | Refuse \<Rightarrow> Inl AssertionError
      | Take f n \<Rightarrow> h3_parse_loop buf (frames @ [f]) (pos + n))"
  by pat_completeness auto
termination
  by (relation "measure (\<lambda>(buf, _, pos). length buf - pos)")
    (auto dest!: h3_turn_consumes)

function conf_parse_loop :: "bytes \<Rightarrow> ws_msg list \<Rightarrow> nat \<Rightarrow> (ws_msg list \<times> nat) result" where
  "conf_parse_loop buf frames pos =
     (case conf_parse_turn buf pos of
        Break \<Rightarrow> Inr (frames, pos)
      | Refuse \<Rightarrow> Inl AssertionError
      | Take f n \<Rightarrow> conf_parse_loop buf (frames @ [f]) (pos + n))"
  by pat_completeness auto
termination
  by (relation "measure (\<lambda>(buf, _, pos). length buf - pos)")
    (auto dest!: conf_turn_consumes)

declare h3_parse_loop.simps [simp del] conf_parse_loop.simps [simp del]

definition h3_parse_ws :: "bytes \<Rightarrow> (ws_msg list \<times> nat) result" where
  "h3_parse_ws buf = h3_parse_loop buf [] 0"

definition conf_parse_ws :: "bytes \<Rightarrow> (ws_msg list \<times> nat) result" where
  "conf_parse_ws buf = conf_parse_loop buf [] 0"

text \<open>
  The receive side around a parser: bytes arrive in chunks, each is appended to the
  buffer, the complete frames are taken and the consumed prefix is deleted.
\<close>

fun ws_deliver ::
  "(bytes \<Rightarrow> ('f list \<times> nat) result) \<Rightarrow> bytes \<Rightarrow> bytes list \<Rightarrow> ('f list \<times> bytes) result" where
  "ws_deliver parse buf [] = Inr ([], buf)"
| "ws_deliver parse buf (c # cs) =
     result_bind (parse (buf @ c)) (\<lambda>(fs, k).
       result_bind (ws_deliver parse (drop k (buf @ c)) cs) (\<lambda>(gs, r). Inr (fs @ gs, r)))"

section \<open>What every such parser satisfies\<close>

locale frame_parser =
  fixes turn :: "bytes \<Rightarrow> nat \<Rightarrow> 'f parse_turn"
    and loop :: "bytes \<Rightarrow> 'f list \<Rightarrow> nat \<Rightarrow> ('f list \<times> nat) result"
    and parse :: "bytes \<Rightarrow> ('f list \<times> nat) result"
  assumes turn_consumes: "turn buf pos = Take f n \<Longrightarrow> 0 < n \<and> pos + n \<le> length buf"
    and turn_shift: "pos \<le> length buf \<Longrightarrow> turn (drop pos buf) 0 = turn buf pos"
    and turn_stable: "turn buf pos \<noteq> Break \<Longrightarrow> turn (buf @ more) pos = turn buf pos"
    and loop_eq: "loop buf fs pos = (case turn buf pos of
        Break \<Rightarrow> Inr (fs, pos) | Refuse \<Rightarrow> Inl AssertionError
      | Take f n \<Rightarrow> loop buf (fs @ [f]) (pos + n))"
    and parse_eq: "parse buf = loop buf [] 0"
begin

lemma loop_Break: "turn buf pos = Break \<Longrightarrow> loop buf fs pos = Inr (fs, pos)"
  by (subst loop_eq) simp

lemma loop_Refuse: "turn buf pos = Refuse \<Longrightarrow> loop buf fs pos = Inl AssertionError"
  by (subst loop_eq) simp

lemma loop_Take: "turn buf pos = Take f n \<Longrightarrow> loop buf fs pos = loop buf (fs @ [f]) (pos + n)"
  by (subst loop_eq) simp

text \<open>Induction over the turns of the loop.\<close>

lemma turns_induct [case_names step]:
  assumes "\<And>pos. (\<And>f n. turn buf pos = Take f n \<Longrightarrow> P (pos + n)) \<Longrightarrow> P pos"
  shows "P pos"
proof (induction "length buf - pos" arbitrary: pos rule: less_induct)
  case less
  show ?case
  proof (rule assms)
    fix f n assume "turn buf pos = Take f n"
    with turn_consumes have "length buf - (pos + n) < length buf - pos" by fastforce
    then show "P (pos + n)" by (rule less)
  qed
qed

lemma loop_result:
  "loop buf fs pos = Inr (gs, k) \<Longrightarrow> pos \<le> length buf \<Longrightarrow>
   pos \<le> k \<and> k \<le> length buf \<and> turn buf k = Break"
proof (induction pos arbitrary: fs rule: turns_induct [where buf = buf])
  case (step pos)
  show ?case
  proof (cases "turn buf pos")
    case Break
    with step.prems show ?thesis by (auto simp: loop_Break)
  next
    case Refuse
    with step.prems show ?thesis by (simp add: loop_Refuse)
  next
    case (Take f n)
    with turn_consumes have "0 < n" "pos + n \<le> length buf" by auto
    with step Take show ?thesis by (fastforce simp: loop_Take)
  qed
qed

lemma loop_frames:
  "loop buf fs pos = map_sum id (\<lambda>(gs, k). (fs @ gs, k)) (loop buf [] pos)"
proof (induction pos arbitrary: fs rule: turns_induct [where buf = buf])
  case (step pos)
  show ?case
  proof (cases "turn buf pos")
    case (Take f n)
    have a: "loop buf (fs @ [f]) (pos + n)
        = map_sum id (\<lambda>(gs, k). ((fs @ [f]) @ gs, k)) (loop buf [] (pos + n))"
      by (rule step [OF Take])
    have b: "loop buf [f] (pos + n) = map_sum id (\<lambda>(gs, k). ([f] @ gs, k)) (loop buf [] (pos + n))"
      by (rule step [OF Take])
    show ?thesis
      by (simp add: loop_Take [OF Take] a b)
        (cases "loop buf [] (pos + n)"; auto)
  qed (simp_all add: loop_Break loop_Refuse)
qed

text \<open>Bytes that arrive later do not change what was parsed.\<close>

lemma loop_append:
  "loop buf fs pos = Inr (gs, k) \<Longrightarrow> loop (buf @ more) fs pos = loop (buf @ more) gs k"
proof (induction pos arbitrary: fs rule: turns_induct [where buf = buf])
  case (step pos)
  show ?case
  proof (cases "turn buf pos")
    case (Take f n)
    then have "turn (buf @ more) pos = Take f n" using turn_stable by force
    with step Take show ?thesis by (simp add: loop_Take)
  qed (use step.prems in \<open>simp_all add: loop_Break loop_Refuse\<close>)
qed

lemma loop_append_refuse:
  "loop buf fs pos = Inl e \<Longrightarrow> loop (buf @ more) fs pos = Inl e"
proof (induction pos arbitrary: fs rule: turns_induct [where buf = buf])
  case (step pos)
  show ?case
  proof (cases "turn buf pos")
    case Refuse
    then have "turn (buf @ more) pos = Refuse" using turn_stable by force
    with step.prems Refuse show ?thesis by (simp add: loop_Refuse)
  next
    case (Take f n)
    then have "turn (buf @ more) pos = Take f n" using turn_stable by force
    with step Take show ?thesis by (simp add: loop_Take)
  qed (use step.prems in \<open>simp add: loop_Break\<close>)
qed

text \<open>Deleting a consumed prefix shifts the rest.\<close>

lemma loop_shift:
  "p \<le> length buf \<Longrightarrow> pos \<le> length buf - p \<Longrightarrow>
   loop buf fs (p + pos) = map_sum id (\<lambda>(gs, k). (gs, p + k)) (loop (drop p buf) fs pos)"
proof (induction pos arbitrary: fs rule: turns_induct [where buf = "drop p buf"])
  case (step pos)
  have "turn buf (p + pos) = turn (drop (p + pos) buf) 0"
    using step.prems by (intro turn_shift [symmetric]) simp
  also have "\<dots> = turn (drop p buf) pos"
    using step.prems turn_shift [of pos "drop p buf"] by (simp add: add.commute)
  finally have t: "turn buf (p + pos) = turn (drop p buf) pos" .
  show ?case
  proof (cases "turn (drop p buf) pos")
    case (Take f n)
    with turn_consumes have "pos + n \<le> length buf - p" by fastforce
    with step Take t show ?thesis by (simp add: loop_Take add.assoc)
  qed (use t in \<open>simp_all add: loop_Break loop_Refuse\<close>)
qed

lemma parse_consumed: "parse buf = Inr (fs, k) \<Longrightarrow> k \<le> length buf"
  using loop_result [of buf "[]" 0] by (simp add: parse_eq)

lemma parse_total: "\<exists>r. parse buf = r \<and> (r = Inl AssertionError \<or> (\<exists>fs k. r = Inr (fs, k)))"
proof -
  have "loop buf fs pos = Inl AssertionError \<or> (\<exists>gs k. loop buf fs pos = Inr (gs, k))" for fs pos
    by (induction pos arbitrary: fs rule: turns_induct [where buf = buf])
      (subst (1 2) loop_eq, auto split: parse_turn.split)
  then show ?thesis by (auto simp: parse_eq)
qed

lemma parse_Inl: "parse buf = Inl e \<Longrightarrow> e = AssertionError"
  using parse_total [of buf] by auto

lemma parse_extend:
  assumes "parse buf = Inr (fs, k)"
  shows "parse (buf @ more)
    = map_sum id (\<lambda>(gs, j). (fs @ gs, k + j)) (parse (drop k buf @ more))"
proof -
  have k: "k \<le> length buf" using assms by (rule parse_consumed)
  have "parse (buf @ more) = loop (buf @ more) fs k"
    using assms by (simp add: parse_eq loop_append)
  also have "\<dots> = map_sum id (\<lambda>(gs, j). (fs @ gs, j)) (loop (buf @ more) [] (k + 0))"
    using loop_frames [of "buf @ more" fs k] by simp
  also have "\<dots> = map_sum id (\<lambda>(gs, j). (fs @ gs, k + j)) (parse (drop k buf @ more))"
    using k by (subst loop_shift)
      (auto simp: parse_eq sum.map_comp comp_def case_prod_unfold id_def)
  finally show ?thesis .
qed

text \<open>A buffer that starts with a complete frame.\<close>

lemma parse_frame_first:
  assumes "turn (fr @ rest) 0 = Take f (length fr)"
  shows "parse (fr @ rest) = map_sum id (\<lambda>(gs, k). (f # gs, length fr + k)) (parse rest)"
proof -
  have "parse (fr @ rest) = loop (fr @ rest) [f] (length fr + 0)"
    using loop_Take [OF assms, of "[]"] by (simp add: parse_eq)
  also have "\<dots> = map_sum id (\<lambda>(gs, k). (gs, length fr + k)) (loop rest [f] 0)"
    by (subst loop_shift) auto
  also have "loop rest [f] 0 = map_sum id (\<lambda>(gs, k). (f # gs, k)) (parse rest)"
    using loop_frames [of rest "[f]" 0] by (simp add: parse_eq)
  finally show ?thesis
    by (simp add: sum.map_comp comp_def case_prod_unfold id_def)
qed

text \<open>A proper prefix of one frame gives nothing, the whole frame gives it.\<close>

lemma parse_incomplete:
  assumes "turn (buf @ c) 0 = Take f (length (buf @ c))" and "c \<noteq> []"
  shows "parse buf = Inr ([], 0)"
proof -
  have "turn buf 0 = Break"
  proof (rule ccontr)
    assume "turn buf 0 \<noteq> Break"
    from turn_stable [OF this, of c] assms(1) have "turn buf 0 = Take f (length (buf @ c))" by simp
    from turn_consumes [OF this] assms(2) show False by simp
  qed
  then show ?thesis by (simp add: parse_eq loop_Break)
qed

lemma parse_one_frame:
  "turn fr 0 = Take f (length fr) \<Longrightarrow> parse [] = Inr ([], 0) \<Longrightarrow> parse fr = Inr ([f], length fr)"
  using parse_frame_first [of fr "[]" f] by simp

lemma parse_frames:
  assumes "\<And>m rest. m \<in> set ms \<Longrightarrow> turn (enc m @ rest) 0 = Take (msg m) (length (enc m))"
    and "parse [] = Inr ([], 0)"
  shows "parse (concat (map enc ms)) = Inr (map msg ms, length (concat (map enc ms)))"
  using assms(1)
proof (induction ms)
  case Nil
  then show ?case using assms(2) by simp
next
  case (Cons m ms)
  have "turn (enc m @ concat (map enc ms)) 0 = Take (msg m) (length (enc m))"
    using Cons.prems by simp
  with Cons show ?case by (simp add: parse_frame_first)
qed

text \<open>
  Chunk invariance: however the bytes are cut into chunks, delivering them one by
  one gives the frames, the error and the unconsumed rest of parsing them at once.
\<close>

lemma deliver_concat:
  assumes "parse buf = Inr ([], 0)"
  shows "ws_deliver parse buf cs
    = map_sum id (\<lambda>(fs, k). (fs, drop k (buf @ concat cs))) (parse (buf @ concat cs))"
  using assms
proof (induction cs arbitrary: buf)
  case Nil
  then show ?case by simp
next
  case (Cons c cs)
  show ?case
  proof (cases "parse (buf @ c)")
    case (Inl e)
    then have "parse ((buf @ c) @ concat cs) = Inl e"
      by (simp add: parse_eq loop_append_refuse del: append_assoc)
    with Inl show ?thesis by simp
  next
    case (Inr r)
    obtain fs k where r: "parse (buf @ c) = Inr (fs, k)" using Inr by (cases r) auto
    have k: "k \<le> length (buf @ c)" using r by (rule parse_consumed)
    let ?rest = "drop k (buf @ c)"
    have "turn (buf @ c) k = Break"
      using r loop_result [of "buf @ c" "[]" 0] by (simp add: parse_eq)
    then have "turn ?rest 0 = Break" using turn_shift [OF k] by simp
    then have rest: "parse ?rest = Inr ([], 0)" by (simp add: parse_eq loop_Break)
    have ext: "parse (buf @ concat (c # cs))
        = map_sum id (\<lambda>(gs, j). (fs @ gs, k + j)) (parse (?rest @ concat cs))"
      using parse_extend [OF r, of "concat cs"] by simp
    have "drop (k + j) (buf @ concat (c # cs)) = drop j (?rest @ concat cs)" for j
      using drop_add_append [OF k, of j "concat cs"] by simp
    with Cons.IH [OF rest] r ext show ?thesis
      by (cases "parse (?rest @ concat cs)") (auto simp: case_prod_unfold)
  qed
qed

end

end
