(* ===== verification/Ws_Server.thy ===== *)
theory Ws_Server
  imports Ws_Framing
begin

text \<open>
  The server's side of the wire: \<open>parseFrame\<close>, \<open>appendFrame\<close> and \<open>appendClose\<close> of
  \<open>src/vortex/websocket/frames.nim\<close>. It is the peer the Python clients talk to, so
  the two codecs must agree; the theory \<open>Ws_Interop\<close> shows that they do.
\<close>

datatype ws_opcode = opContinuation | opText | opBinary | opClose | opPing | opPong

fun opcode_val :: "ws_opcode \<Rightarrow> nat" where
  "opcode_val opContinuation = 0"
| "opcode_val opText = 1"
| "opcode_val opBinary = 2"
| "opcode_val opClose = 8"
| "opcode_val opPing = 9"
| "opcode_val opPong = 10"

definition opcode_of :: "nat \<Rightarrow> ws_opcode option" where
  "opcode_of v = (if v = 0 then Some opContinuation else if v = 1 then Some opText
     else if v = 2 then Some opBinary else if v = 8 then Some opClose
     else if v = 9 then Some opPing else if v = 10 then Some opPong else None)"

definition isControl :: "ws_opcode \<Rightarrow> bool" where
  "isControl op \<longleftrightarrow> op = opClose \<or> op = opPing \<or> op = opPong"

record ws_frame =
  fr_fin :: bool
  fr_rsv1 :: bool
  fr_opcode :: ws_opcode
  fr_payload :: bytes

datatype ws_parse = wpNeedMore | wpFrame ws_frame nat | wpError

text \<open>
  Unmasking, eight bytes per step and then byte by byte. A \<open>uint64\<close> is the list of
  its eight bytes in memory order (\<open>copyMem\<close> moves it in and out unchanged), so the
  word XOR is the XOR of the bytes at the same place.
\<close>

definition xor8 :: "bytes \<Rightarrow> bytes \<Rightarrow> bytes" where
  "xor8 blk key8 = map2 (XOR) blk key8"

function unmask_blocks :: "bytes \<Rightarrow> bytes \<Rightarrow> nat \<Rightarrow> bytes \<Rightarrow> nat \<times> bytes" where
  "unmask_blocks src mkey i dst =
     (if i + 8 \<le> length src
      then unmask_blocks src mkey (i + 8) (dst @ xor8 (py_slice src i (i + 8)) (mkey @ mkey))
      else (i, dst))"
  by pat_completeness auto
termination
  by (relation "measure (\<lambda>(src, _, i, _). length src - i)") auto

function unmask_tail :: "bytes \<Rightarrow> bytes \<Rightarrow> nat \<Rightarrow> bytes \<Rightarrow> bytes" where
  "unmask_tail src mkey i dst =
     (if i < length src then unmask_tail src mkey (Suc i) (dst @ [src ! i XOR mkey ! (i AND 3)])
      else dst)"
  by pat_completeness auto
termination
  by (relation "measure (\<lambda>(src, _, i, _). length src - i)") auto

declare unmask_blocks.simps [simp del] unmask_tail.simps [simp del]

definition unmask :: "bytes \<Rightarrow> bytes \<Rightarrow> bytes" where
  "unmask src mkey = (let (i, dst) = unmask_blocks src mkey 0 [] in unmask_tail src mkey i dst)"

text \<open>The 64-bit extended length, accumulated in a \<open>uint64\<close>.\<close>

definition ext64 :: "bytes \<Rightarrow> 64 word" where
  "ext64 bs = foldl (\<lambda>a w. push_bit 8 a OR ucast w) 0 bs"

text \<open>
  \<open>parseFrame\<close> on \<open>buf[pos ..< avail]\<close>; \<open>wpFrame f pos'\<close> carries the frame and the new
  position. The two parts are the length decoding and the payload.
\<close>

definition parse_payload ::
  "bytes \<Rightarrow> nat \<Rightarrow> nat \<Rightarrow> nat \<Rightarrow> bool \<Rightarrow> bool \<Rightarrow> ws_opcode \<Rightarrow> nat \<Rightarrow> nat \<Rightarrow> ws_parse" where
  "parse_payload buf avail start maxPayload f r1 op header payloadLen =
     (if maxPayload < payloadLen then wpError
      else let maskOff = start + header; dataOff = maskOff + 4 in
        if avail - start < header + 4 + payloadLen then wpNeedMore
        else wpFrame \<lparr>fr_fin = f, fr_rsv1 = r1, fr_opcode = op,
                      fr_payload = unmask (py_slice buf dataOff (dataOff + payloadLen))
                                       (py_slice buf maskOff (maskOff + 4))\<rparr>
               (dataOff + payloadLen))"

definition parseFrame :: "bytes \<Rightarrow> nat \<Rightarrow> nat \<Rightarrow> nat \<Rightarrow> ws_parse" where
  "parseFrame buf avail start maxPayload =
     (if avail - start < 2 then wpNeedMore
      else let b0 = buf ! start; b1 = buf ! (start + 1) in
        if b0 AND 0x30 \<noteq> 0 then wpError
        else (case opcode_of (unat (b0 AND 0x0f)) of
            None \<Rightarrow> wpError
          | Some op \<Rightarrow>
              let f = (b0 AND 0x80 \<noteq> 0); masked = (b1 AND 0x80 \<noteq> 0);
                  len7 = unat (b1 AND 0x7f); r1 = (b0 AND 0x40 \<noteq> 0) in
              if \<not> masked then wpError
              else if isControl op \<and> (\<not> f \<or> 125 < len7) then wpError
              else if len7 = 126 then
                (if avail - start < 4 then wpNeedMore
                 else parse_payload buf avail start maxPayload f r1 op 4 (len16 buf start))
              else if len7 = 127 then
                (if avail - start < 10 then wpNeedMore
                 else if 0x80 \<le> buf ! (start + 2) then wpError
                 else let ext = ext64 (py_slice buf (start + 2) (start + 10)) in
                   if maxPayload < unat ext then wpError
                   else parse_payload buf avail start maxPayload f r1 op 10 (unat ext))
              else parse_payload buf avail start maxPayload f r1 op 2 len7))"

definition appendFrame :: "bytes \<Rightarrow> ws_opcode \<Rightarrow> bytes \<Rightarrow> bool \<Rightarrow> bool \<Rightarrow> bytes" where
  "appendFrame dst op pl f r1 =
     (let n = length pl in
      dst @ [(if f then 0x80 else 0) OR (if r1 then 0x40 else 0) OR of_nat (opcode_val op)] @
      (if n \<le> 125 then [of_nat n]
       else if n \<le> 0xffff then [126, of_nat (drop_bit 8 n AND 0xff), of_nat (n AND 0xff)]
       else 127 # map (\<lambda>i. of_nat (drop_bit (i * 8) n AND 0xff)) (rev [0..<8])) @ pl)"

definition appendClose :: "bytes \<Rightarrow> 16 word \<Rightarrow> bytes \<Rightarrow> bytes" where
  "appendClose dst code reason =
     appendFrame dst opClose
       ([ucast (drop_bit 8 code AND 0xff), ucast (code AND 0xff)] @ take (min (length reason) 123) reason)
       True False"

section \<open>The block unmasking is the byte-wise one\<close>

lemma and3_mod4: "(i AND 3 :: nat) = i mod 4"
  using take_bit_eq_mask [of 2 i] by (simp add: take_bit_eq_mod mask_eq_exp_minus_1)

definition mask_at :: "bytes \<Rightarrow> bytes \<Rightarrow> nat \<Rightarrow> bytes" where
  "mask_at src mkey n = map (\<lambda>i. src ! i XOR mkey ! (i mod 4)) [0..<n]"

lemma nth_mask_twice: "length mkey = 4 \<Longrightarrow> j < 8 \<Longrightarrow> (mkey @ mkey) ! j = mkey ! (j mod 4)"
  by (auto simp: nth_append mod_if)

lemma xor8_block:
  assumes "length mkey = 4" and "i + 8 \<le> length src" and "i mod 4 = 0"
  shows "xor8 (py_slice src i (i + 8)) (mkey @ mkey)
    = map (\<lambda>j. src ! j XOR mkey ! (j mod 4)) [i..<i + 8]"
proof (rule nth_equalityI)
  show "length (xor8 (py_slice src i (i + 8)) (mkey @ mkey))
      = length (map (\<lambda>j. src ! j XOR mkey ! (j mod 4)) [i..<i + 8])"
    using assms by (simp add: xor8_def)
next
  fix k assume "k < length (xor8 (py_slice src i (i + 8)) (mkey @ mkey))"
  then have k: "k < 8" using assms by (simp add: xor8_def)
  have "(i + k) mod 4 = k mod 4" using assms(3) by presburger
  then show "xor8 (py_slice src i (i + 8)) (mkey @ mkey) ! k
      = map (\<lambda>j. src ! j XOR mkey ! (j mod 4)) [i..<i + 8] ! k"
    using assms k by (simp add: xor8_def py_slice_def nth_mask_twice)
qed

lemma unmask_blocks_spec:
  "length mkey = 4 \<Longrightarrow> i \<le> length src \<Longrightarrow> i mod 4 = 0 \<Longrightarrow> dst = mask_at src mkey i \<Longrightarrow>
    unmask_blocks src mkey i dst = (i', dst') \<Longrightarrow> i' \<le> length src \<and> dst' = mask_at src mkey i'"
proof (induction src mkey i dst rule: unmask_blocks.induct)
  case (1 src mkey i dst)
  show ?case
  proof (cases "i + 8 \<le> length src")
    case True
    have "dst @ xor8 (py_slice src i (i + 8)) (mkey @ mkey) = mask_at src mkey (i + 8)"
      using xor8_block [OF "1.prems"(1) True "1.prems"(3)] "1.prems"(4)
      by (simp add: mask_at_def upt_add_eq_append [of 0 i 8])
    moreover have "(i + 8) mod 4 = 0" using "1.prems"(3) by presburger
    ultimately show ?thesis
      using "1.IH" [OF True] "1.prems"(1,5) True by (simp add: unmask_blocks.simps [of src mkey i])
  next
    case False
    with "1.prems" show ?thesis by (auto simp: unmask_blocks.simps [of src mkey i])
  qed
qed

lemma unmask_tail_spec:
  "i \<le> length src \<Longrightarrow> dst = mask_at src mkey i \<Longrightarrow>
   unmask_tail src mkey i dst = mask_at src mkey (length src)"
proof (induction src mkey i dst rule: unmask_tail.induct)
  case (1 src mkey i dst)
  show ?case
  proof (cases "i < length src")
    case True
    have "dst @ [src ! i XOR mkey ! (i AND 3)] = mask_at src mkey (Suc i)"
      using "1.prems" by (simp add: mask_at_def and3_mod4)
    with "1.IH" [OF True] True show ?thesis by (simp add: unmask_tail.simps [of src mkey i])
  next
    case False
    with "1.prems" show ?thesis by (subst unmask_tail.simps) simp
  qed
qed

lemma unmask_eq:
  assumes "length mkey = 4"
  shows "unmask src mkey = mask_at src mkey (length src)"
proof -
  obtain i dst where b: "unmask_blocks src mkey 0 [] = (i, dst)" by fastforce
  have "i \<le> length src \<and> dst = mask_at src mkey i"
    by (rule unmask_blocks_spec [OF assms _ _ _ b]) (simp_all add: mask_at_def)
  with b show ?thesis by (simp add: unmask_def unmask_tail_spec)
qed

section \<open>Lengths\<close>

lemma shift_or_add_nat:
  assumes "b < (256 :: nat)"
  shows "push_bit 8 a OR b = a * 256 + b"
proof -
  have "\<not> (bit (push_bit 8 a) n \<and> bit b n)" for n
  proof (cases "n < 8")
    case False
    then have "(256 :: nat) \<le> 2 ^ n" using power_increasing [of 8 n "2 :: nat"] by simp
    with assms have "b < 2 ^ n" by simp
    then show ?thesis by (simp add: bit_iff_odd)
  qed (simp add: bit_push_bit_iff)
  then have "push_bit 8 a + b = push_bit 8 a OR b" 
    by (intro disjunctive_add_eq_or) (auto simp: bit_eq_iff bit_and_iff)
  then show ?thesis by (simp add: push_bit_eq_mult)
qed

lemma len16_eq: "len16 buf pos = unat (buf ! (pos + 2)) * 256 + unat (buf ! (pos + 3))"
  by (simp add: len16_def shift_or_add_nat unat_byte_less)

lemma ext64_step:
  fixes a :: "64 word"
  assumes "unat a < 256 ^ 7"
  shows "unat (push_bit 8 a OR ucast (w :: byte)) = unat a * 256 + unat w"
proof -
  have "\<not> (bit (push_bit 8 a) n \<and> bit (ucast w :: 64 word) n)" for n
    by (auto simp: bit_push_bit_iff bit_ucast_iff dest: bit_imp_le_length)
  then have "push_bit 8 a OR ucast w = push_bit 8 a + ucast w"
    by (intro disjunctive_add_eq_or [symmetric]) (auto simp: bit_eq_iff bit_and_iff)
  then have e: "push_bit 8 a OR ucast w = a * 256 + ucast w"
    by (simp add: push_bit_eq_mult)
  have "unat a * 256 + unat w < 2 ^ 64" using assms unat_byte_less [of w] by simp
  then show ?thesis
    by (simp add: e unat_word_ariths unsigned_ucast_eq take_bit_eq_mod unat_byte_less
        order.strict_trans [OF unat_byte_less])
qed

lemma ext64_eq: "length bs \<le> 8 \<Longrightarrow> unat (ext64 bs) = from_bytes bs"
proof (induction bs rule: rev_induct)
  case Nil
  then show ?case by (simp add: ext64_def from_bytes_def)
next
  case (snoc w bs)
  then have l: "length bs \<le> 7" by simp
  have "from_bytes bs < 256 ^ length bs" by (rule from_bytes_less)
  also have "\<dots> \<le> 256 ^ 7" using l by (intro power_increasing) auto
  finally have "from_bytes bs < 256 ^ 7" .
  moreover have "unat (ext64 bs) = from_bytes bs" using snoc by simp
  moreover have "ext64 (bs @ [w]) = push_bit 8 (ext64 bs) OR ucast w" by (simp add: ext64_def)
  ultimately show ?case by (simp add: ext64_step from_bytes_snoc)
qed

end
