(* ===== verification/Ws_Interop.thy ===== *)
theory Ws_Interop
  imports Ws_Server
begin

text \<open>
  The two client parsers are interpretations of \<open>frame_parser\<close>, and the client and
  the server codecs agree on the wire: what the server serializes the client parses
  back, and what the client serializes (masked) the server parses back.
\<close>

section \<open>The client parsers are frame parsers\<close>

lemma take_frame_shift:
  "pos \<le> length buf \<Longrightarrow> take_frame (drop pos buf) 0 hdr n = take_frame buf pos hdr n"
  by (auto simp: take_frame_def py_slice_drop add.assoc)

lemma take_frame_stable:
  assumes "take_frame buf pos hdr n \<noteq> Break" and "0 < hdr"
  shows "take_frame (buf @ later) pos hdr n = take_frame buf pos hdr n"
proof -
  from assms(1) have "pos + hdr + n \<le> length buf" by (auto simp: take_frame_def split: if_splits)
  with assms(2) show ?thesis by (auto simp: take_frame_def py_slice_append nth_append)
qed

lemma len16_shift: "pos \<le> length buf \<Longrightarrow> len16 (drop pos buf) 0 = len16 buf pos"
  by (simp add: len16_def)

lemma len16_stable: "pos + 4 \<le> length buf \<Longrightarrow> len16 (buf @ later) pos = len16 buf pos"
  by (simp add: len16_def nth_append)

lemma length_drop_shift:
  assumes "pos \<le> length buf"
  shows "length (drop pos buf) < k \<longleftrightarrow> length buf < pos + k"
    and "k \<le> length (drop pos buf) \<longleftrightarrow> pos + k \<le> length buf"
  using assms by auto

lemma h3_turn_shift:
  assumes "pos \<le> length buf"
  shows "h3_parse_turn (drop pos buf) 0 = h3_parse_turn buf pos"
  unfolding h3_parse_turn_def add_0 length_drop_shift [OF assms] take_frame_shift [OF assms]
    len16_shift [OF assms] py_slice_drop nth_drop [OF assms] by (rule refl)

lemma conf_turn_shift:
  assumes "pos \<le> length buf"
  shows "conf_parse_turn (drop pos buf) 0 = conf_parse_turn buf pos"
  unfolding conf_parse_turn_def add_0 length_drop_shift [OF assms] take_frame_shift [OF assms]
    len16_shift [OF assms] nth_drop [OF assms] by (rule refl)

lemma h3_turn_stable:
  assumes "h3_parse_turn buf pos \<noteq> Break"
  shows "h3_parse_turn (buf @ later) pos = h3_parse_turn buf pos"
proof -
  have p: "pos + 2 \<le> length buf"
    using assms by (rule contrapos_np) (simp add: h3_parse_turn_def)
  then have "(buf @ later) ! (pos + 1) = buf ! (pos + 1)" by (simp add: nth_append_left)
  with p assms show ?thesis
    by (simp add: h3_parse_turn_def Let_def take_frame_stable len16_stable py_slice_append
        split: if_splits)
qed

lemma conf_turn_stable:
  assumes "conf_parse_turn buf pos \<noteq> Break"
  shows "conf_parse_turn (buf @ later) pos = conf_parse_turn buf pos"
proof -
  have p: "pos + 2 \<le> length buf"
    using assms by (rule contrapos_np) (simp add: conf_parse_turn_def)
  then have "(buf @ later) ! (pos + 1) = buf ! (pos + 1)" by (simp add: nth_append_left)
  with p assms show ?thesis
    by (simp add: conf_parse_turn_def Let_def take_frame_stable len16_stable split: if_splits)
qed

interpretation h3ws: frame_parser h3_parse_turn h3_parse_loop h3_parse_ws
  by unfold_locales
    (simp_all add: h3_turn_consumes h3_turn_shift h3_turn_stable h3_parse_ws_def
      h3_parse_loop.simps [symmetric])

interpretation confws: frame_parser conf_parse_turn conf_parse_loop conf_parse_ws
  by unfold_locales
    (simp_all add: conf_turn_consumes conf_turn_shift conf_turn_stable conf_parse_ws_def
      conf_parse_loop.simps [symmetric])

section \<open>Bytes of the frame header\<close>

lemma byte_and_80: "(w AND 0x80 = 0) \<longleftrightarrow> unat (w :: byte) < 128"
proof -
  have "w AND 0x80 = 0 \<longleftrightarrow> \<not> bit w 7"
    using and_exp_eq_0_iff_not_bit [of w 7] by simp
  also have "bit w 7 \<longleftrightarrow> bit (unat w) 7"
    by (simp add: Word.bit_unsigned_iff)
  also have "\<not> bit (unat w) 7 \<longleftrightarrow> even (unat w div 128)"
    by (simp add: bit_iff_odd)
  also have "\<dots> \<longleftrightarrow> unat w < 128"
  proof -
    have "unat w div 128 < 2"
      using unat_byte_less [of w] by (intro less_mult_imp_div_less) simp
    then have "unat w div 128 = 0 \<or> unat w div 128 = 1" by linarith
    then show ?thesis by (auto simp: div_eq_0_iff)
  qed
  finally show ?thesis .
qed

lemma byte_and_7f: "unat (w AND 0x7f :: byte) = unat w mod 128"
proof -
  have "w AND 0x7f = take_bit 7 w" using take_bit_eq_mask [of 7 w] by (simp add: mask_eq_exp_minus_1)
  then have "unat (w AND 0x7f) = take_bit 7 (unat w)" by (simp only: unsigned_take_bit_eq)
  then show ?thesis by (simp add: take_bit_eq_mod)
qed

lemma nat_and_ff: "(n AND 0xff :: nat) = n mod 256"
  using take_bit_eq_mask [of 8 n] by (simp add: take_bit_eq_mod mask_eq_exp_minus_1)

lemma or_80: "n < 128 \<Longrightarrow> (0x80 OR n :: nat) = 128 + n"
proof -
  assume n: "n < 128"
  have "\<not> (bit (128 :: nat) k \<and> bit n k)" for k
  proof
    assume b: "bit (128 :: nat) k \<and> bit n k"
    then have "k = 7" using bit_exp_iff [where 'a = nat, of 7 k] by simp
    with b n show False by (simp add: bit_iff_odd)
  qed
  then have "128 + n = 0x80 OR n"
    by (intro disjunctive_add_eq_or) (auto simp: bit_eq_iff bit_and_iff)
  then show ?thesis by simp
qed

lemma unat_of_nat_small: "n < 256 \<Longrightarrow> unat (of_nat n :: byte) = n"
  by (simp add: unat_of_nat_byte)

lemma opcode_of_val [simp]: "opcode_of (opcode_val op) = Some op"
  by (cases op) (simp_all add: opcode_of_def)

lemma opcode_val_small: "opcode_val op \<le> 10"
  by (cases op) simp_all

lemma be_bytes_map: "be_bytes k n = map (\<lambda>i. of_nat (drop_bit (i * 8) n AND 0xff)) (rev [0..<k])"
proof (induction k arbitrary: n)
  case 0
  then show ?case by simp
next
  case (Suc k)
  have "[0..<Suc k] = 0 # map Suc [0..<k]"
    by (simp only: upt_conv_Cons [OF zero_less_Suc] map_Suc_upt)
  then have "rev [0..<Suc k] = map Suc (rev [0..<k]) @ [0]"
    by (simp only: rev.simps rev_map)
  then show ?case
    by (simp add: Suc drop_bit_eq_div nat_and_ff div_mult2_eq [symmetric] power_add mult.commute)
qed

section \<open>Server to client\<close>

definition server_byte0 :: "ws_opcode \<Rightarrow> bool \<Rightarrow> bool \<Rightarrow> byte" where
  "server_byte0 op f r1 =
     ((if f then 0x80 else 0) OR (if r1 then 0x40 else 0) OR of_nat (opcode_val op))"

lemma appendFrame_Nil:
  "appendFrame [] op pl f r1 = server_byte0 op f r1 #
     (if length pl \<le> 125 then [of_nat (length pl)]
      else if length pl \<le> 0xffff then
        [126, of_nat (length pl div 256 mod 256), of_nat (length pl mod 256)]
      else 127 # be_bytes 8 (length pl)) @ pl"
  by (simp add: appendFrame_def server_byte0_def Let_def nat_and_ff be_bytes_map drop_bit_eq_div)

lemma server_byte0_opcode: "unat (server_byte0 op f r1 AND 0x0f) = opcode_val op"
  by (cases op; cases f; cases r1; simp add: server_byte0_def)

lemma h3_turn_short:
  assumes "unat b1 < 126" and "length pl = unat b1"
  shows "h3_parse_turn (b0 # b1 # pl @ rest) 0 = Take (unat (b0 AND 0x0f), pl) (2 + length pl)"
proof -
  have "b1 AND 0x80 = 0" and "unat (b1 AND 0x7f) = length pl"
    using assms by (simp_all add: byte_and_80 byte_and_7f)
  with assms show ?thesis
    by (simp add: h3_parse_turn_def take_frame_def py_slice_def)
qed

lemma h3_turn_16:
  assumes "length pl < 65536"
  shows "h3_parse_turn (b0 # 126 # of_nat (length pl div 256 mod 256) # of_nat (length pl mod 256)
      # pl @ rest) 0 = Take (unat (b0 AND 0x0f), pl) (4 + length pl)"
proof -
  have "length pl div 256 < 256" using assms by (simp add: less_mult_imp_div_less)
  then have "len16 (b0 # 126 # of_nat (length pl div 256 mod 256) # of_nat (length pl mod 256)
      # pl @ rest) 0 = length pl"
    by (simp add: len16_eq unat_of_nat_byte)
  then show ?thesis
    by (simp add: h3_parse_turn_def take_frame_def py_slice_def)
qed

lemma h3_turn_64:
  assumes "length pl < 256 ^ 8"
  shows "h3_parse_turn (b0 # 127 # be_bytes 8 (length pl) @ pl @ rest) 0
    = Take (unat (b0 AND 0x0f), pl) (10 + length pl)"
proof -
  have "py_slice (b0 # 127 # be_bytes 8 (length pl) @ pl @ rest) 2 10 = be_bytes 8 (length pl)"
    by (simp add: py_slice_def)
  with assms show ?thesis
    by (simp add: h3_parse_turn_def take_frame_def py_slice_def from_be_bytes)
qed

lemma h3_turn_appendFrame:
  assumes "length pl < 2 ^ 63"
  shows "h3_parse_turn (appendFrame [] op pl f r1 @ rest) 0
    = Take (opcode_val op, pl) (length (appendFrame [] op pl f r1))"
proof -
  have "length pl < 256 ^ 8" using assms by simp
  then show ?thesis
    using h3_turn_short [of "of_nat (length pl)" pl _ rest] h3_turn_16 [of pl _ rest]
      h3_turn_64 [of pl _ rest]
    by (auto simp: appendFrame_Nil unat_of_nat_byte server_byte0_opcode)
qed

lemma h3_parse_Nil: "h3_parse_ws [] = Inr ([], 0)"
  by (simp add: h3_parse_ws_def h3ws.loop_Break h3_parse_turn_def)

lemma conf_parse_Nil: "conf_parse_ws [] = Inr ([], 0)"
  by (simp add: conf_parse_ws_def confws.loop_Break conf_parse_turn_def)

type_synonym server_msg = "ws_opcode \<times> bytes \<times> bool \<times> bool"

definition server_wire :: "server_msg list \<Rightarrow> bytes" where
  "server_wire ms = concat (map (\<lambda>(op, pl, f, r1). appendFrame [] op pl f r1) ms)"

lemma h3_parse_server_wire:
  assumes "\<forall>(op, pl, f, r1) \<in> set ms. length pl < 2 ^ 63"
  shows "h3_parse_ws (server_wire ms)
    = Inr (map (\<lambda>(op, pl, f, r1). (opcode_val op, pl)) ms, length (server_wire ms))"
  unfolding server_wire_def
proof (rule h3ws.parse_frames)
  show "h3_parse_ws [] = Inr ([], 0)" by (rule h3_parse_Nil)
next
  fix m :: server_msg and rest
  assume "m \<in> set ms"
  moreover obtain op pl f r1 where "m = (op, pl, f, r1)" by (cases m) auto
  ultimately show "h3_parse_turn ((case m of (op, pl, f, r1) \<Rightarrow> appendFrame [] op pl f r1) @ rest) 0
      = Take (case m of (op, pl, f, r1) \<Rightarrow> (opcode_val op, pl))
          (length (case m of (op, pl, f, r1) \<Rightarrow> appendFrame [] op pl f r1))"
    using assms h3_turn_appendFrame by auto
qed

section \<open>Client to server\<close>

lemma ws_byte0_opcode: "ws_byte0 (opcode_val op) f = Inr (server_byte0 op f False)"
  by (cases op; cases f; simp add: ws_byte0_def server_byte0_def)

lemma length_ws_mask [simp]: "length (ws_mask pl) = length pl"
  by (simp add: ws_mask_def)

lemma length_ws_mask_key [simp]: "length ws_mask_key = 4"
  by (simp add: ws_mask_key_def)

lemma unmask_ws_mask: "unmask (ws_mask pl) ws_mask_key = pl"
  by (rule nth_equalityI) (simp_all add: unmask_eq mask_at_def ws_mask_def xor.assoc)

lemma h3_ws_frame_cases:
  assumes "h3_ws_frame (opcode_val op) pl f = Inr fr"
  obtains (short) "length pl < 126"
      "fr = server_byte0 op f False # of_nat (128 + length pl) # ws_mask_key @ ws_mask pl"
  | (mid) "126 \<le> length pl" "length pl < 65536"
      "fr = server_byte0 op f False # 254 # of_nat (length pl div 256) # of_nat (length pl mod 256)
            # ws_mask_key @ ws_mask pl"
  | (long) "65536 \<le> length pl" "length pl < 256 ^ 8"
      "fr = server_byte0 op f False # 255 # be_bytes 8 (length pl) @ ws_mask_key @ ws_mask pl"
proof -
  consider "length pl < 126" | "126 \<le> length pl" "length pl < 65536" | "65536 \<le> length pl"
    by linarith
  then show thesis
  proof cases
    case 1
    with assms show thesis by (intro short) (simp_all add: h3_ws_frame_def ws_byte0_opcode or_80)
  next
    case 2
    have "length pl div 256 < 256" using 2(2) by (simp add: less_mult_imp_div_less)
    with assms 2 show thesis
      by (intro mid) (simp_all add: h3_ws_frame_def ws_byte0_opcode nat_and_ff drop_bit_eq_div Let_def)
  next
    case 3
    with assms show thesis
      by (intro long)
        (simp_all add: h3_ws_frame_def ws_byte0_opcode to_bytes_def Let_def split: if_splits)
  qed
qed

lemma server_byte0_bits:
  "server_byte0 op f False AND 0x30 = 0"
  "server_byte0 op f False AND 0x80 \<noteq> 0 \<longleftrightarrow> f"
  "server_byte0 op f False AND 0x40 = 0"
  by (cases op; cases f; simp add: server_byte0_def)+

lemma parse_payload_masked:
  assumes "length pl \<le> maxPayload" and "length hb = header"
  shows "parse_payload (pre @ hb @ ws_mask_key @ ws_mask pl @ rest)
      (length (pre @ hb @ ws_mask_key @ ws_mask pl @ rest)) (length pre) maxPayload f r1 op header
      (length pl)
    = wpFrame \<lparr>fr_fin = f, fr_rsv1 = r1, fr_opcode = op, fr_payload = pl\<rparr>
        (length pre + header + 4 + length pl)"
proof -
  let ?buf = "pre @ hb @ ws_mask_key @ ws_mask pl @ rest"
  have "py_slice ?buf (length pre + header) (length pre + header + 4) = ws_mask_key"
    using py_slice_append_shift [of "pre @ hb" "ws_mask_key @ ws_mask pl @ rest" 0 4] assms(2)
    by (simp add: py_slice_def)
  moreover have "py_slice ?buf (length pre + header + 4) (length pre + header + 4 + length pl)
      = ws_mask pl"
    using py_slice_append_shift [of "pre @ hb @ ws_mask_key" "ws_mask pl @ rest" 0 "length pl"]
      assms(2) by (simp add: py_slice_def add.assoc)
  ultimately show ?thesis
    using assms by (simp add: parse_payload_def unmask_ws_mask)
qed

lemma parseFrame_short:
  assumes "length pl < 126" and "length pl \<le> maxPayload" and "isControl op \<longrightarrow> f"
  shows "parseFrame (pre @ [server_byte0 op f False, of_nat (128 + length pl)] @ ws_mask_key
        @ ws_mask pl @ rest)
      (length (pre @ [server_byte0 op f False, of_nat (128 + length pl)] @ ws_mask_key
        @ ws_mask pl @ rest)) (length pre) maxPayload
    = wpFrame \<lparr>fr_fin = f, fr_rsv1 = False, fr_opcode = op, fr_payload = pl\<rparr>
        (length pre + 6 + length pl)"
proof -
  have u: "unat (of_nat (128 + length pl) :: byte) = 128 + length pl"
    using assms(1) by (intro unat_of_nat_small) simp
  then have "(of_nat (128 + length pl) :: byte) AND 0x80 \<noteq> 0"
    and "unat ((of_nat (128 + length pl) :: byte) AND 0x7f) = length pl"
    using assms(1) by (simp_all add: byte_and_80 byte_and_7f)
  then show ?thesis
    using assms parse_payload_masked
      [of pl maxPayload "[server_byte0 op f False, of_nat (128 + length pl)]" 2 pre rest f False op]
    by (simp add: parseFrame_def Let_def server_byte0_opcode server_byte0_bits nth_append)
qed

lemma parseFrame_mid:
  assumes "126 \<le> length pl" and "length pl < 65536" and "length pl \<le> maxPayload"
    and "\<not> isControl op"
  shows "parseFrame (pre @ [server_byte0 op f False, 254, of_nat (length pl div 256),
        of_nat (length pl mod 256)] @ ws_mask_key @ ws_mask pl @ rest)
      (length (pre @ [server_byte0 op f False, 254, of_nat (length pl div 256),
        of_nat (length pl mod 256)] @ ws_mask_key @ ws_mask pl @ rest)) (length pre) maxPayload
    = wpFrame \<lparr>fr_fin = f, fr_rsv1 = False, fr_opcode = op, fr_payload = pl\<rparr>
        (length pre + 8 + length pl)"
proof -
  let ?h = "[server_byte0 op f False, 254, of_nat (length pl div 256), of_nat (length pl mod 256)]"
  have "length pl div 256 < 256" using assms(2) by (simp add: less_mult_imp_div_less)
  then have "len16 (pre @ ?h @ ws_mask_key @ ws_mask pl @ rest) (length pre) = length pl"
    by (simp add: len16_eq nth_append unat_of_nat_byte)
  then show ?thesis
    using assms parse_payload_masked [of pl maxPayload ?h 4 pre rest f False op]
    by (simp add: parseFrame_def Let_def server_byte0_opcode server_byte0_bits nth_append)
qed

lemma parseFrame_long:
  assumes "65536 \<le> length pl" and "length pl \<le> maxPayload" and "maxPayload < 2 ^ 63"
    and "\<not> isControl op"
  shows "parseFrame (pre @ (server_byte0 op f False # 255 # be_bytes 8 (length pl)) @ ws_mask_key
        @ ws_mask pl @ rest)
      (length (pre @ (server_byte0 op f False # 255 # be_bytes 8 (length pl)) @ ws_mask_key
        @ ws_mask pl @ rest)) (length pre) maxPayload
    = wpFrame \<lparr>fr_fin = f, fr_rsv1 = False, fr_opcode = op, fr_payload = pl\<rparr>
        (length pre + 14 + length pl)"
proof -
  let ?h = "server_byte0 op f False # 255 # be_bytes 8 (length pl)"
  let ?buf = "pre @ ?h @ ws_mask_key @ ws_mask pl @ rest"
  have n: "length pl < 2 ^ 63" using assms(2,3) by simp
  have "py_slice ?buf (length pre + 2) (length pre + 10) = be_bytes 8 (length pl)"
    using py_slice_append_shift [of pre "?h @ ws_mask_key @ ws_mask pl @ rest" 2 10]
    by (simp add: py_slice_def)
  moreover have "unat (ext64 (be_bytes 8 (length pl))) = length pl"
    using n by (simp add: ext64_eq from_be_bytes)
  moreover have "\<not> 0x80 \<le> ?buf ! (length pre + 2)"
  proof -
    have "?buf ! (length pre + 2) = be_bytes 8 (length pl) ! 0"
      by (simp add: nth_append)
    also have "\<dots> = of_nat (length pl div 256 ^ 7 mod 256)"
      by (simp add: be_bytes_map nat_and_ff drop_bit_eq_div upt_rec)
    finally show ?thesis
      using n by (simp add: word_le_nat_alt unat_of_nat_byte less_mult_imp_div_less)
  qed
  ultimately show ?thesis
    using assms parse_payload_masked [of pl maxPayload ?h 10 pre rest f False op]
    by (simp add: parseFrame_def Let_def server_byte0_opcode server_byte0_bits nth_append)
qed

section \<open>The conformance client's parser\<close>

lemma conf_turn_eq_h3:
  "unat (buf ! (pos + 1) AND 0x7f) \<noteq> 127 \<Longrightarrow> conf_parse_turn buf pos = h3_parse_turn buf pos"
  by (simp add: conf_parse_turn_def h3_parse_turn_def Let_def)

lemma conf_turn_appendFrame:
  assumes "length pl \<le> 65535"
  shows "conf_parse_turn (appendFrame [] op pl f r1 @ rest) 0
    = Take (opcode_val op, pl) (length (appendFrame [] op pl f r1))"
proof -
  have "unat ((appendFrame [] op pl f r1 @ rest) ! (0 + 1) AND 0x7f) \<noteq> 127"
    using assms by (auto simp: appendFrame_Nil byte_and_7f unat_of_nat_byte)
  then show ?thesis using assms by (simp add: conf_turn_eq_h3 h3_turn_appendFrame)
qed

lemma conf_turn_64:
  assumes "65536 \<le> length pl"
  shows "conf_parse_turn (appendFrame [] op pl f r1) 0
    = Take (opcode_val op, py_slice (appendFrame [] op pl f r1) 2 129) 129"
  using assms
  by (simp add: appendFrame_Nil conf_parse_turn_def take_frame_def server_byte0_opcode
      py_slice_def)

section \<open>Properties\<close>

text \<open>Receiving is independent of how the transport cuts the byte stream: delivering the
  chunks one by one to the h3 client's \<open>parse_ws\<close>, deleting what was consumed each time, gives
  exactly the frames, the error and the left-over bytes of parsing the whole stream at once.\<close>

theorem ws_deliver_any_chunking:
  "ws_deliver h3_parse_ws [] chunks
   = map_sum id (\<lambda>(fs, k). (fs, drop k (concat chunks))) (h3_parse_ws (concat chunks))"
  using h3ws.deliver_concat [OF h3_parse_Nil, of chunks] by simp



text \<open>C29: client to server. A frame built by the h3 client's \<open>ws_frame\<close> (masked; short, 16-bit or
  64-bit length) is parsed back by the server's \<open>parseFrame\<close> to the same opcode, FIN bit and
  payload, consuming exactly the frame, at any position of the receive buffer, whenever the payload is
  within the server's limit and a control frame is final and short.\<close>

theorem client_to_server_roundtrip:
  assumes "h3_ws_frame (opcode_val op) pl f = Inr fr"
    and "length pl \<le> maxPayload" and "maxPayload < 2 ^ 63"
    and "isControl op \<longrightarrow> f \<and> length pl \<le> 125"
  shows "parseFrame (pre @ fr @ rest) (length (pre @ fr @ rest)) (length pre) maxPayload
    = wpFrame \<lparr>fr_fin = f, fr_rsv1 = False, fr_opcode = op, fr_payload = pl\<rparr>
        (length pre + length fr)"
  using assms(1)
proof (cases rule: h3_ws_frame_cases)
  case short
  then show ?thesis using parseFrame_short [of pl maxPayload op f pre rest] assms by simp
next
  case mid
  then show ?thesis using parseFrame_mid [of pl maxPayload op pre f rest] assms by auto
next
  case long
  then show ?thesis using parseFrame_long [of pl maxPayload op pre f rest] assms by auto
qed

theorem client_to_server_roundtrip_witness:
  "parseFrame [0x81, 0x82, 0x21, 0x43, 0x65, 0x87, 0x49, 0x2a]
     (length [0x81, 0x82, 0x21, 0x43, 0x65, 0x87, 0x49, 0x2a :: byte]) 0 16
   = wpFrame \<lparr>fr_fin = True, fr_rsv1 = False, fr_opcode = opText, fr_payload = [0x68, 0x69]\<rparr>
       (length [0x81, 0x82, 0x21, 0x43, 0x65, 0x87, 0x49, 0x2a :: byte])"
proof -
  have "h3_ws_frame (opcode_val opText) [0x68, 0x69] True
      = Inr [0x81, 0x82, 0x21, 0x43, 0x65, 0x87, 0x49, 0x2a]"
    by code_simp
  from client_to_server_roundtrip [OF this, of 16 "[]" "[]"] show ?thesis
    by (simp add: isControl_def)
qed

text \<open>the conformance client's own \<open>parse_ws\<close> has no 64-bit length form. On server messages of
  at most 65535 bytes it is correct for every chunking, like the h3 client's.\<close>

theorem conformance_parser_short_messages:
  assumes "\<forall>(op, pl, f, r1) \<in> set ms. length pl \<le> 65535"
    and "concat chunks = server_wire ms"
  shows "ws_deliver conf_parse_ws [] chunks
    = Inr (map (\<lambda>(op, pl, f, r1). (opcode_val op, pl)) ms, [])"
proof -
  have "conf_parse_ws (server_wire ms)
      = Inr (map (\<lambda>(op, pl, f, r1). (opcode_val op, pl)) ms, length (server_wire ms))"
    unfolding server_wire_def
  proof (rule confws.parse_frames)
    fix m :: server_msg and rest
    assume "m \<in> set ms"
    moreover obtain op pl f r1 where "m = (op, pl, f, r1)" by (cases m) auto
    ultimately show "conf_parse_turn ((case m of (op, pl, f, r1) \<Rightarrow> appendFrame [] op pl f r1) @ rest) 0
        = Take (case m of (op, pl, f, r1) \<Rightarrow> (opcode_val op, pl))
            (length (case m of (op, pl, f, r1) \<Rightarrow> appendFrame [] op pl f r1))"
      using assms(1) conf_turn_appendFrame by auto
  qed (rule conf_parse_Nil)
  with confws.deliver_concat [OF conf_parse_Nil, of chunks] assms(2) show ?thesis by simp
qed

theorem conformance_parser_short_messages_witness:
  "ws_deliver conf_parse_ws [] [[0x82, 0x03, 1], [2, 3]] = Inr ([(2, [1, 2, 3])], [])"
  using conformance_parser_short_messages
    [of "[(opBinary, [1, 2, 3], True, False)]" "[[0x82, 0x03, 1], [2, 3]]"]
  by (simp add: server_wire_def appendFrame_def)



end
