(* ===== verification/Py_Exn.thy ===== *)
theory Py_Exn
  imports Py_Text
begin

text \<open>
  The exceptions that cross component boundaries, and the outcome of awaiting.
  Every \<open>raise Fail(...)\<close> of the stress client is a constructor of \<open>fail\<close> that
  carries the values its message interpolates; the other exceptions carry their
  message. \<open>Waiting\<close> is an \<open>await\<close> that has not completed: nothing that happened so
  far lets the coroutine go on.
\<close>

datatype fail =
    FGetStatus pystr int                \<comment> \<open>\<open>GET path -> st\<close>\<close>
  | FGetType pystr pystr pystr          \<comment> \<open>\<open>GET path content-type: want got\<close>\<close>
  | FGetBody pystr nat nat              \<comment> \<open>\<open>GET path body len (want len)\<close>\<close>
  | FEcho pystr int nat nat             \<comment> \<open>\<open>meth /echo -> st, len (want len)\<close>\<close>
  | FEchoType pystr pystr pystr         \<comment> \<open>\<open>meth /echo content-type: want got\<close>\<close>
  | FPlaintext int                      \<comment> \<open>\<open>GET /plaintext -> st\<close>\<close>
  | FHead int nat                       \<comment> \<open>\<open>HEAD /echo -> st, len (want 0)\<close>\<close>
  | FOptions int                        \<comment> \<open>\<open>OPTIONS /echo -> st\<close>\<close>
  | FWsHandshake int                    \<comment> \<open>\<open>ws-h3 handshake status\<close>\<close>
  | FWsEchoH3 nat bytes                 \<comment> \<open>\<open>ws-h3 echo mismatch: op payload\<close>\<close>
  | FWsEcho                             \<comment> \<open>\<open>ws echo mismatch\<close>\<close>
  | FSseStatus int                      \<comment> \<open>\<open>sse status st\<close>\<close>
  | FStatusBytes bytes                  \<comment> \<open>a status check that got body bytes instead of a status\<close>
  | FSseOrder int int                   \<comment> \<open>\<open>sse out of order: cur_id != got\<close>\<close>
  | FSseNoProgress                      \<comment> \<open>\<open>sse made no progress\<close>\<close>
  | FSseShortBatch int int              \<comment> \<open>\<open>sse short batch: this_batch, got\<close>\<close>
  | FUploadProbe int                    \<comment> \<open>\<open>upload negative probe: wrong x-sha1 accepted -> st\<close>\<close>
  | FUploadRejected                     \<comment> \<open>\<open>server rejected the SHA-1 (400)\<close>\<close>
  | FUpload int                         \<comment> \<open>\<open>upload -> st\<close>\<close>
  | FDownloadStatus int                 \<comment> \<open>\<open>download status st\<close>\<close>
  | FDownloadMismatch nat pystr pystr   \<comment> \<open>\<open>download mismatch: got bytes, sha != want\<close>\<close>
  | FPin pystr                          \<comment> \<open>\<open>protocol pin: e\<close>\<close>
  | FTransport pystr pystr              \<comment> \<open>\<open>transport error (type): e\<close>\<close>

datatype exn =
    Fail fail
  | ProtocolPinError pystr
  | HttpxTransportError pystr pystr     \<comment> \<open>class name and message\<close>
  | WebSocketException pystr pystr      \<comment> \<open>class name and message\<close>
  | ConnectionErr pystr                 \<comment> \<open>\<open>ConnectionError\<close>, a subclass of \<open>OSError\<close>\<close>
  | TimeoutErr                          \<comment> \<open>\<open>asyncio.TimeoutError\<close>, since 3.11 the built-in, a subclass of \<open>OSError\<close>\<close>
  | OSErr pystr pystr                   \<comment> \<open>any other \<open>OSError\<close>: class name and message\<close>
  | AttributeErr pystr
  | RuntimeErr pystr
  | StopAsyncIteration                  \<comment> \<open>\<open>__anext__\<close> of a generator that ended\<close>
  | PyErr py_error                      \<comment> \<open>the remaining built-ins the models raise\<close>
  | CancelledErr                        \<comment> \<open>a \<open>BaseException\<close>\<close>
  | KeyboardInterrupt                   \<comment> \<open>a \<open>BaseException\<close>\<close>
  | SystemExit int                      \<comment> \<open>a \<open>BaseException\<close>\<close>
  | ExceptionGroup "exn list"           \<comment> \<open>\<open>BaseExceptionGroup\<close> or \<open>ExceptionGroup\<close>\<close>

text \<open>\<open>isinstance(e, OSError)\<close>.\<close>

fun is_OSError :: "exn \<Rightarrow> bool" where
  "is_OSError (ConnectionErr m) = True"
| "is_OSError TimeoutErr = True"
| "is_OSError (OSErr c m) = True"
| "is_OSError e = False"

text \<open>\<open>isinstance(e, Exception)\<close>: a group is an \<open>Exception\<close> when all its members are.\<close>

fun is_Exception :: "exn \<Rightarrow> bool" where
  "is_Exception CancelledErr = False"
| "is_Exception KeyboardInterrupt = False"
| "is_Exception (SystemExit n) = False"
| "is_Exception (ExceptionGroup es) = (\<forall>e \<in> set es. is_Exception e)"
| "is_Exception e = True"

datatype 'a await = Done 'a | Raised exn | Waiting

definition of_result :: "'a result \<Rightarrow> 'a await" where
  "of_result r = (case r of Inl e \<Rightarrow> Raised (PyErr e) | Inr a \<Rightarrow> Done a)"

lemma of_result_simps [simp]:
  "of_result (Inl e) = Raised (PyErr e)"
  "of_result (Inr a) = Done a"
  by (simp_all add: of_result_def)

definition abind :: "'a await \<Rightarrow> ('a \<Rightarrow> 'b await) \<Rightarrow> 'b await" where
  "abind r f = (case r of Done a \<Rightarrow> f a | Raised e \<Rightarrow> Raised e | Waiting \<Rightarrow> Waiting)"

lemma abind_simps [simp]:
  "abind (Done a) f = f a"
  "abind (Raised e) f = Raised e"
  "abind Waiting f = Waiting"
  by (simp_all add: abind_def)

end
