(* ===== verification/H3_Client.thy ===== *)
theory H3_Client
  imports Ws_Interop Py_Exn
begin

text \<open>
  The HTTP/3 client of the stress soaks, \<open>conformance/stress/client/h3.py\<close>:
  \<open>H3Client\<close> turns QUIC and HTTP/3 events into items on one queue per stream,
  \<open>H3Session\<close> opens streams and drains their queues, \<open>H3Ws\<close> is a WebSocket tunnel
  over one stream. aioquic itself is outside the repository: the stream id it
  hands out, the HTTP/3 events it decodes from a QUIC event and what it reports
  about a stream are arguments, and the calls made into it are recorded in order
  in \<open>cmds\<close>. An \<open>asyncio.Queue\<close> with one reader is FIFO, so reading it item by item as
  they arrive is reading the list of what was put.
\<close>

section \<open>State\<close>

type_synonym header = "bytes \<times> bytes"

datatype qitem = QH int "pystr option" pystr | QD bytes | QErr pystr | QEnd

datatype h3_event =
    HeadersReceived nat "header list" bool
  | DataReceived nat bytes bool
  | OtherH3Event nat

fun stream_id :: "h3_event \<Rightarrow> nat" where
  "stream_id (HeadersReceived sid _ _) = sid"
| "stream_id (DataReceived sid _ _) = sid"
| "stream_id (OtherH3Event sid) = sid"

datatype quic_event =
    ProtocolNegotiated "pystr option"
  | StreamReset nat int
  | ConnectionTerminated int pystr "int option"
  | OtherQuicEvent

datatype quic_cmd =
    SendHeaders nat "header list" bool
  | SendData nat bytes bool
  | StopStream nat int
  | ResetStream nat int
  | Transmit

record h3_client =
  http :: bool                             \<comment> \<open>\<open>self._http is not None\<close>\<close>
  queues :: "(nat \<times> qitem list) list"      \<comment> \<open>\<open>self._queues\<close>\<close>
  authority :: pystr
  cmds :: "quic_cmd list"

definition init_client :: h3_client where
  "init_client = \<lparr>http = False, queues = [], authority = [], cmds = []\<rparr>"

definition cmd :: "quic_cmd \<Rightarrow> h3_client \<Rightarrow> h3_client" where
  "cmd c cl = cl\<lparr>cmds := cmds cl @ [c]\<rparr>"

definition put_nowait :: "nat \<Rightarrow> qitem \<Rightarrow> h3_client \<Rightarrow> h3_client" where
  "put_nowait sid it cl = cl\<lparr>queues := AList.map_entry sid (\<lambda>q. q @ [it]) (queues cl)\<rparr>"

definition put_all :: "qitem \<Rightarrow> h3_client \<Rightarrow> h3_client" where
  "put_all it cl = cl\<lparr>queues := map (\<lambda>(s, q). (s, q @ [it])) (queues cl)\<rparr>"

definition pop_queue :: "nat \<Rightarrow> h3_client \<Rightarrow> h3_client" where
  "pop_queue sid cl = cl\<lparr>queues := AList.delete sid (queues cl)\<rparr>"

section \<open>Events\<close>

fun scan_headers ::
  "header list \<Rightarrow> int \<times> pystr option \<times> pystr \<Rightarrow> (int \<times> pystr option \<times> pystr) result" where
  "scan_headers [] acc = Inr acc"
| "scan_headers ((k, v) # hs) (status, enc, ct) =
     (if k = bstr '':status'' then
        result_bind (py_int_bytes v) (\<lambda>n. scan_headers hs (n, enc, ct))
      else if k = bstr ''content-encoding'' then
        (let e = lower (py_strip (decode_ascii v))
         in scan_headers hs (status, if e = [] then None else Some e, ct))
      else if k = bstr ''content-type'' then scan_headers hs (status, enc, decode_ascii v)
      else scan_headers hs (status, enc, ct))"

text \<open>\<open>H3Client._on_h3\<close>\<close>

definition on_h3 :: "h3_client \<Rightarrow> h3_event \<Rightarrow> h3_client result" where
  "on_h3 cl e =
     (case map_of (queues cl) (stream_id e) of
        None \<Rightarrow> Inr cl
      | Some _ \<Rightarrow>
          (case e of
             HeadersReceived sid hs ended \<Rightarrow>
               result_bind (scan_headers hs (0, None, [])) (\<lambda>(status, enc, ct).
                 let cl1 = put_nowait sid (QH status enc ct) cl
                 in Inr (if ended then put_nowait sid QEnd cl1 else cl1))
           | DataReceived sid d ended \<Rightarrow>
               let cl1 = (if d \<noteq> [] then put_nowait sid (QD d) cl else cl)
               in Inr (if ended then put_nowait sid QEnd cl1 else cl1)
           | OtherH3Event sid \<Rightarrow> Inr cl))"

fun on_h3_all :: "h3_client \<Rightarrow> h3_event list \<Rightarrow> h3_client result" where
  "on_h3_all cl [] = Inr cl"
| "on_h3_all cl (e # es) = result_bind (on_h3 cl e) (\<lambda>cl'. on_h3_all cl' es)"

definition reset_text :: "int \<Rightarrow> pystr" where
  "reset_text code = ustr ''stream reset (code '' @ py_str code @ ustr '')''"

definition closed_text :: "int \<Rightarrow> pystr \<Rightarrow> int option \<Rightarrow> pystr" where
  "closed_text code rp ft =
     ustr ''connection closed (code '' @ py_str code @
     (if rp \<noteq> [] then ustr '' '' @ [34] @ rp @ [34] else []) @
     (case ft of None \<Rightarrow> [] | Some t \<Rightarrow> ustr '' frame_type='' @ py_str t) @ ustr '')''"

text \<open>\<open>H3Client.quic_event_received\<close>; the last argument is what aioquic decoded from the event.\<close>

definition quic_event_received :: "h3_client \<Rightarrow> quic_event \<Rightarrow> h3_event list \<Rightarrow> h3_client result" where
  "quic_event_received cl ev decoded =
     (case ev of
        StreamReset sid code \<Rightarrow> Inr (put_nowait sid (QErr (reset_text code)) cl)
      | ConnectionTerminated code rp ft \<Rightarrow> Inr (put_all (QErr (closed_text code rp ft)) cl)
      | ProtocolNegotiated None \<Rightarrow> Inl AttributeError
      | ProtocolNegotiated (Some alpn) \<Rightarrow>
          (let cl1 = (if take 2 alpn = ustr ''h3'' then cl\<lparr>http := True\<rparr> else cl)
           in if http cl1 then on_h3_all cl1 decoded else Inr cl1)
      | OtherQuicEvent \<Rightarrow> if http cl then on_h3_all cl decoded else Inr cl)"

fun run_events :: "h3_client \<Rightarrow> (quic_event \<times> h3_event list) list \<Rightarrow> h3_client result" where
  "run_events cl [] = Inr cl"
| "run_events cl ((ev, decoded) # evs) =
     result_bind (quic_event_received cl ev decoded) (\<lambda>cl'. run_events cl' evs)"

section \<open>Opening streams\<close>

type_synonym hdict = "(pystr \<times> pystr) list"

definition pseudo_headers :: "pystr \<Rightarrow> pystr \<Rightarrow> pystr \<Rightarrow> header list" where
  "pseudo_headers method auth path =
     [(bstr '':method'', py_encode method), (bstr '':scheme'', bstr ''https''),
      (bstr '':authority'', py_encode auth), (bstr '':path'', py_encode path)]"

text \<open>\<open>H3Client._open\<close>: register the queue, send the request headers.\<close>

definition h3_open ::
  "h3_client \<Rightarrow> nat \<Rightarrow> pystr \<Rightarrow> pystr \<Rightarrow> hdict \<Rightarrow> bool \<Rightarrow> h3_client result" where
  "h3_open cl sid method path headers fin =
     (let cl1 = cl\<lparr>queues := AList.update sid [] (queues cl)\<rparr>;
          h = pseudo_headers method (authority cl) path @
              map (\<lambda>(k, v). (py_encode (lower k), py_encode v)) headers
      in if \<not> http cl then Inl AttributeError
         else Inr (cmd Transmit (cmd (SendHeaders sid h fin) cl1)))"

section \<open>Sessions\<close>

text \<open>
  The content codings: \<open>gzip\<close> of the standard library, and the \<open>brotli\<close> and
  \<open>zstandard\<close> packages. Decompression may raise.
\<close>

record codecs =
  gzip_compress :: "bytes \<Rightarrow> bytes"
  gzip_decompress :: "bytes \<Rightarrow> bytes result"
  br_compress :: "bytes \<Rightarrow> bytes"
  br_decompress :: "bytes \<Rightarrow> bytes result"
  zstd_compress :: "bytes \<Rightarrow> bytes"
  zstd_decompress :: "bytes \<Rightarrow> bytes result"

definition decode_body :: "codecs \<Rightarrow> bytes \<Rightarrow> pystr option \<Rightarrow> bytes result" where
  "decode_body cod data enc =
     (case enc of None \<Rightarrow> Inr data
      | Some e \<Rightarrow>
          if e = [] \<or> e = ustr ''identity'' then Inr data
          else if e = ustr ''gzip'' then gzip_decompress cod data
          else if e = ustr ''br'' then br_decompress cod data
          else if e = ustr ''zstd'' then zstd_decompress cod data
          else Inl ValueError)"

text \<open>\<open>H3Session.request\<close>, the sending part.\<close>

definition with_content_length :: "hdict \<Rightarrow> bytes \<Rightarrow> hdict" where
  "with_content_length hdrs content =
     (if content \<noteq> [] \<and> \<not> (\<exists>k \<in> fst ` set hdrs. lower k = ustr ''content-length'')
      then AList.update (ustr ''content-length'') (py_str (int (length content))) hdrs
      else hdrs)"

definition request_send ::
  "h3_client \<Rightarrow> nat \<Rightarrow> pystr \<Rightarrow> pystr \<Rightarrow> hdict \<Rightarrow> bytes \<Rightarrow> h3_client result" where
  "request_send cl sid method path headers content =
     result_bind (h3_open cl sid method path (with_content_length headers content) (content = []))
       (\<lambda>cl1. Inr (if content \<noteq> [] then cmd Transmit (cmd (SendData sid content True) cl1) else cl1))"

text \<open>The receive loop over the queue, and what \<open>request\<close> returns.\<close>

fun request_drain ::
  "qitem list \<Rightarrow> int \<times> pystr option \<times> pystr \<times> bytes \<Rightarrow> (int \<times> pystr option \<times> pystr \<times> bytes) await"
where
  "request_drain [] acc = Waiting"
| "request_drain (it # q) (status, enc, ct, body) =
     (case it of
        QH s e c \<Rightarrow> request_drain q (s, e, c, body)
      | QD d \<Rightarrow> request_drain q (status, enc, ct, body @ d)
      | QErr m \<Rightarrow> Raised (ConnectionErr m)
      | QEnd \<Rightarrow> Done (status, enc, ct, body))"

definition request_recv ::
  "codecs \<Rightarrow> h3_client \<Rightarrow> nat \<Rightarrow> h3_client \<times> (int \<times> pystr \<times> bytes) await" where
  "request_recv cod cl sid =
     (case map_of (queues cl) sid of
        None \<Rightarrow> (cl, Waiting)
      | Some q \<Rightarrow>
          (case request_drain q (0, None, [], []) of
             Waiting \<Rightarrow> (cl, Waiting)
           | Raised e \<Rightarrow> (pop_queue sid cl, Raised e)
           | Done (status, enc, ct, body) \<Rightarrow>
               (pop_queue sid cl,
                abind (of_result (decode_body cod body enc)) (\<lambda>b. Done (status, ct, b)))))"

text \<open>
  \<open>H3Session.stream\<close>: the items the generator yields (status, then chunks), and how it
  ends.
\<close>

datatype stream_item = SStatus int | SChunk bytes

fun stream_drain :: "qitem list \<Rightarrow> stream_item list \<times> unit await" where
  "stream_drain [] = ([], Waiting)"
| "stream_drain (it # q) =
     (case it of
        QH s e c \<Rightarrow> (let (ys, r) = stream_drain q in (SStatus s # ys, r))
      | QD d \<Rightarrow> (let (ys, r) = stream_drain q in (SChunk d # ys, r))
      | QErr m \<Rightarrow> ([], Raised (ConnectionErr m))
      | QEnd \<Rightarrow> ([], Done ()))"

text \<open>The whole of the generator after \<open>_open\<close>: its \<open>finally\<close> drops the queue however it ends.\<close>

definition stream_recv :: "h3_client \<Rightarrow> nat \<Rightarrow> h3_client \<times> stream_item list \<times> unit await" where
  "stream_recv cl sid =
     (case map_of (queues cl) sid of
        None \<Rightarrow> (cl, [], Waiting)
      | Some q \<Rightarrow>
          (let (ys, r) = stream_drain q
           in (if r = Waiting then cl else pop_queue sid cl, ys, r)))"

definition stream_open :: "h3_client \<Rightarrow> nat \<Rightarrow> pystr \<Rightarrow> pystr \<Rightarrow> hdict \<Rightarrow> h3_client result" where
  "stream_open cl sid method path headers = h3_open cl sid method path headers True"

text \<open>
  \<open>H3Session.abort_stream\<close>. \<open>reaped\<close>: \<open>stop_stream\<close> raises \<open>ValueError\<close> because the
  stream is finished and gone; \<open>sender\<close>: what \<open>_streams.get(sid)\<close> gives, with
  \<open>Some True\<close> for a finished send side.
\<close>

definition abort_stream :: "h3_client \<Rightarrow> nat \<Rightarrow> int \<Rightarrow> bool \<Rightarrow> bool option \<Rightarrow> h3_client" where
  "abort_stream cl sid code reaped sender =
     (let cl1 = (if reaped then cl else cmd (StopStream sid code) cl);
          cl2 = (if sender = Some False then cmd (ResetStream sid code) cl1 else cl1)
      in pop_queue sid (cmd Transmit cl2))"

text \<open>
  \<open>H3Session.upload\<close>. After each chunk the loop waits until aioquic's unacknowledged
  buffer of the stream is below the cap. The list \<open>obs\<close> says what each evaluation of
  \<open>self.c._quic._streams.get(sid)\<close> finds: \<open>None\<close> when the stream is gone, \<open>Some a\<close> when
  \<open>a\<close> more bytes have been acknowledged since the last look. \<open>overhead n\<close> is the number of
  bytes aioquic adds to \<open>n\<close> bytes of DATA. The result lists the buffer's size after each send.
\<close>

definition UPLOAD_BUF_CAP :: nat where
  "UPLOAD_BUF_CAP = 256 * 1024"

fun upload_wait :: "h3_client \<Rightarrow> nat \<Rightarrow> nat option list \<Rightarrow> (h3_client \<times> nat \<times> nat option list) await"
where
  "upload_wait cl unacked [] = Waiting"
| "upload_wait cl unacked (None # obs) = Done (cl, 0, obs)"
| "upload_wait cl unacked (Some a # obs) =
     (if UPLOAD_BUF_CAP \<le> unacked - a then upload_wait (cmd Transmit cl) (unacked - a) obs
      else Done (cl, unacked - a, obs))"

fun upload_body ::
  "(nat \<Rightarrow> nat) \<Rightarrow> h3_client \<Rightarrow> nat \<Rightarrow> nat \<Rightarrow> nat option list \<Rightarrow> bytes list \<Rightarrow>
   (h3_client \<times> nat list) await" where
  "upload_body overhead cl sid unacked obs [] =
     Done (cmd Transmit (cmd (SendData sid [] True) cl), [])"
| "upload_body overhead cl sid unacked obs (c # cs) =
     (let n = unacked + length c + overhead (length c) in
      abind (upload_wait (cmd Transmit (cmd (SendData sid c False) cl)) n obs) (\<lambda>(cl2, n2, obs2).
        abind (upload_body overhead cl2 sid n2 obs2 cs) (\<lambda>(cl3, peaks). Done (cl3, n # peaks))))"

text \<open>The final wait for the status, which ignores data items.\<close>

fun upload_drain :: "qitem list \<Rightarrow> int \<Rightarrow> int await" where
  "upload_drain [] status = Waiting"
| "upload_drain (it # q) status =
     (case it of
        QH s e c \<Rightarrow> upload_drain q s
      | QD d \<Rightarrow> upload_drain q status
      | QErr m \<Rightarrow> Raised (ConnectionErr m)
      | QEnd \<Rightarrow> Done status)"

text \<open>
  \<open>H3Session.upload\<close> itself: open the stream without ending it and send the body; then
  wait for the status, and drop the queue in the \<open>finally\<close>.
\<close>

definition upload_send ::
  "(nat \<Rightarrow> nat) \<Rightarrow> h3_client \<Rightarrow> nat \<Rightarrow> pystr \<Rightarrow> hdict \<Rightarrow> nat \<Rightarrow> nat option list \<Rightarrow> bytes list \<Rightarrow>
   (h3_client \<times> nat list) await" where
  "upload_send overhead cl sid path headers unacked obs chunks =
     abind (of_result (h3_open cl sid (ustr ''POST'') path headers False)) (\<lambda>cl1.
       upload_body overhead cl1 sid unacked obs chunks)"

definition upload_recv :: "h3_client \<Rightarrow> nat \<Rightarrow> h3_client \<times> int await" where
  "upload_recv cl sid =
     (case map_of (queues cl) sid of
        None \<Rightarrow> (cl, Waiting)
      | Some q \<Rightarrow>
          (let r = upload_drain q 0 in (if r = Waiting then cl else pop_queue sid cl, r)))"

text \<open>\<open>H3Session.ws_open\<close>: the CONNECT request and the wait for its status.\<close>

definition ws_connect_headers :: "h3_client \<Rightarrow> pystr \<Rightarrow> pystr list \<Rightarrow> header list" where
  "ws_connect_headers cl path subprotocols =
     pseudo_headers (ustr ''CONNECT'') (authority cl) path @
     [(bstr '':protocol'', bstr ''websocket''), (bstr ''sec-websocket-version'', bstr ''13'')] @
     (if subprotocols \<noteq> [] then
        [(bstr ''sec-websocket-protocol'', py_encode (join_on (ustr '', '') subprotocols))]
      else [])"

definition ws_open_send :: "h3_client \<Rightarrow> nat \<Rightarrow> pystr \<Rightarrow> pystr list \<Rightarrow> h3_client result" where
  "ws_open_send cl sid path subprotocols =
     (let cl1 = cl\<lparr>queues := AList.update sid [] (queues cl)\<rparr>
      in if \<not> http cl then Inl AttributeError
         else Inr (cmd Transmit (cmd (SendHeaders sid (ws_connect_headers cl path subprotocols) False) cl1)))"

fun ws_open_wait :: "h3_client \<Rightarrow> nat \<Rightarrow> qitem list \<Rightarrow> h3_client \<times> (int \<times> qitem list) await" where
  "ws_open_wait cl sid [] = (cl, Waiting)"
| "ws_open_wait cl sid (it # q) =
     (case it of
        QH s e c \<Rightarrow> (cl, Done (s, q))
      | QD d \<Rightarrow> ws_open_wait cl sid q
      | QErr m \<Rightarrow> (pop_queue sid cl, Raised (ConnectionErr m))
      | QEnd \<Rightarrow> (cl, Raised (ConnectionErr (ustr ''ws CONNECT stream ended''))))"

section \<open>WebSocket tunnels\<close>

definition h3ws_send :: "h3_client \<Rightarrow> nat \<Rightarrow> nat \<Rightarrow> bytes \<Rightarrow> h3_client result" where
  "h3ws_send cl sid opcode payload =
     result_bind (h3_ws_frame opcode payload True) (\<lambda>fr.
       Inr (cmd Transmit (cmd (SendData sid fr False) cl)))"

text \<open>
  \<open>H3Ws.recv\<close> on the buffer and the queue: the frame, the new buffer, the rest of the
  queue. All consumed bytes are deleted, and the first frame is returned.
\<close>

fun h3ws_recv :: "bytes \<Rightarrow> qitem list \<Rightarrow> (ws_msg \<times> bytes \<times> qitem list) await" where
  "h3ws_recv buf q =
     (case h3_parse_ws buf of
        Inl e \<Rightarrow> Raised (PyErr e)
      | Inr (f # fs, consumed) \<Rightarrow> Done (f, drop consumed buf, q)
      | Inr ([], consumed) \<Rightarrow>
          (case q of
             [] \<Rightarrow> Waiting
           | QD d # q' \<Rightarrow> h3ws_recv (buf @ d) q'
           | QErr m # q' \<Rightarrow> Raised (ConnectionErr m)
           | QEnd # q' \<Rightarrow> Raised (ConnectionErr (ustr ''ws stream ended''))
           | QH s e c # q' \<Rightarrow> h3ws_recv buf q'))"

declare h3ws_recv.simps [simp del]

definition h3ws_close :: "h3_client \<Rightarrow> nat \<Rightarrow> h3_client" where
  "h3ws_close cl sid = pop_queue sid cl"

section \<open>Connecting\<close>

text \<open>
  \<open>connect_h3\<close> on the client \<open>cl\<close> that aioquic's \<open>connect\<close> and \<open>wait_connected\<close> leave: the
  pin check, and the authority that every request carries.
\<close>

definition connect_h3 :: "pystr \<Rightarrow> int \<Rightarrow> h3_client \<Rightarrow> h3_client await" where
  "connect_h3 host port cl =
     (if \<not> http cl then
        Raised (ProtocolPinError (ustr ''h3 was not negotiated (ALPN mismatch); no fallback allowed for VORTEX_PROTO=h3''))
      else Done (cl\<lparr>authority := host @ ustr '':'' @ py_str port\<rparr>))"

end
