(* ===== verification/H3_Props.thy ===== *)
theory H3_Props
  imports H3_Client
begin

text \<open>
  Properties of the HTTP/3 client: what ends up on the queue of a stream is exactly
  what its own events say, in order, whatever the other streams do; a request gets
  the response that was sent, for every way of framing it; no reader is left waiting
  after a reset or a close; the upload loop sends the body in order and keeps the
  unacknowledged buffer bounded; and what \<open>H3Ws.recv\<close> does with coalesced frames.
\<close>

abbreviation queue_of :: "h3_client \<Rightarrow> nat \<Rightarrow> qitem list option" where
  "queue_of cl sid \<equiv> map_of (queues cl) sid"

section \<open>Queues\<close>

lemma queue_put [simp]:
  "queue_of (put_nowait s it cl) sid
   = (if sid = s then map_option (\<lambda>q. q @ [it]) (queue_of cl sid) else queue_of cl sid)"
proof -
  have "map_of (AList.map_entry s f qs) sid = (if sid = s then map_option f (map_of qs sid) else map_of qs sid)"
    for f and qs :: "(nat \<times> qitem list) list" by (induction qs) auto
  then show ?thesis by (simp add: put_nowait_def)
qed

lemma queue_put_all [simp]:
  "queue_of (put_all it cl) sid = map_option (\<lambda>q. q @ [it]) (queue_of cl sid)"
proof -
  have "map_of (map (\<lambda>(s, q). (s, q @ [it])) qs) sid = map_option (\<lambda>q. q @ [it]) (map_of qs sid)"
    for qs by (induction qs) auto
  then show ?thesis by (simp add: put_all_def)
qed

lemma queue_pop [simp]: "queue_of (pop_queue s cl) sid = (if sid = s then None else queue_of cl sid)"
  by (simp add: pop_queue_def delete_conv')

lemma queue_cmd [simp]: "queues (cmd c cl) = queues cl"
  by (simp add: cmd_def)

lemma http_simps [simp]:
  "http (put_nowait s it cl) = http cl"
  "http (put_all it cl) = http cl"
  "http (pop_queue s cl) = http cl"
  "http (cmd c cl) = http cl"
  by (simp_all add: put_nowait_def put_all_def pop_queue_def cmd_def)

text \<open>The items one HTTP/3 event puts on its stream's queue.\<close>

fun event_items :: "h3_event \<Rightarrow> qitem list" where
  "event_items (HeadersReceived sid hs ended) =
     (case scan_headers hs (0, None, []) of
        Inl _ \<Rightarrow> []
      | Inr (status, enc, ct) \<Rightarrow> QH status enc ct # (if ended then [QEnd] else []))"
| "event_items (DataReceived sid d ended) =
     (if d \<noteq> [] then [QD d] else []) @ (if ended then [QEnd] else [])"
| "event_items (OtherH3Event sid) = []"

text \<open>The items a list of QUIC events puts on the queue of \<open>sid\<close>.\<close>

fun quic_items :: "nat \<Rightarrow> quic_event \<times> h3_event list \<Rightarrow> qitem list" where
  "quic_items sid (StreamReset s code, decoded) = (if s = sid then [QErr (reset_text code)] else [])"
| "quic_items sid (ConnectionTerminated code rp ft, decoded) = [QErr (closed_text code rp ft)]"
| "quic_items sid (ev, decoded) = concat (map event_items (filter (\<lambda>e. stream_id e = sid) decoded))"

definition stream_items :: "nat \<Rightarrow> (quic_event \<times> h3_event list) list \<Rightarrow> qitem list" where
  "stream_items sid evs = concat (map (quic_items sid) evs)"

lemma on_h3_queue:
  assumes "on_h3 cl e = Inr cl'"
  shows "queue_of cl' sid
    = map_option (\<lambda>q. q @ (if stream_id e = sid then event_items e else [])) (queue_of cl sid)"
    and "http cl' = http cl"
  using assms
  by (cases e; auto simp: on_h3_def Let_def option.map_id [unfolded id_def] option.map_comp comp_def
      split: option.splits sum.splits prod.splits if_splits
      simp: result_bind_def; fail)+

lemma on_h3_all_queue:
  "on_h3_all cl es = Inr cl' \<Longrightarrow>
   queue_of cl' sid
     = map_option (\<lambda>q. q @ concat (map event_items (filter (\<lambda>e. stream_id e = sid) es)))
         (queue_of cl sid)
   \<and> http cl' = http cl"
proof (induction es arbitrary: cl)
  case Nil
  then show ?case by (simp add: option.map_id [unfolded id_def])
next
  case (Cons e es)
  then obtain cl1 where "on_h3 cl e = Inr cl1" "on_h3_all cl1 es = Inr cl'"
    by (auto simp: result_bind_Inr_iff)
  with Cons.IH [of cl1] on_h3_queue [of cl e cl1] show ?case
    by (auto simp: option.map_comp comp_def)
qed

lemma event_received_queue:
  assumes "quic_event_received cl ev decoded = Inr cl'" and "http cl"
  shows "queue_of cl' sid = map_option (\<lambda>q. q @ quic_items sid (ev, decoded)) (queue_of cl sid)
    \<and> http cl'"
  using assms on_h3_all_queue [of cl decoded cl' sid] on_h3_all_queue [of "cl\<lparr>http := True\<rparr>" decoded cl' sid]
  by (cases ev)
    (auto simp: quic_event_received_def Let_def option.map_id [unfolded id_def]
      split: option.splits if_splits)

lemma run_events_queue:
  "run_events cl evs = Inr cl' \<Longrightarrow> http cl \<Longrightarrow>
   queue_of cl' sid = map_option (\<lambda>q. q @ stream_items sid evs) (queue_of cl sid) \<and> http cl'"
proof (induction evs arbitrary: cl)
  case Nil
  then show ?case by (simp add: stream_items_def option.map_id [unfolded id_def])
next
  case (Cons p evs)
  obtain ev decoded where p: "p = (ev, decoded)" by fastforce
  from Cons.prems(1) obtain cl1
    where 1: "quic_event_received cl ev decoded = Inr cl1" and 2: "run_events cl1 evs = Inr cl'"
    by (auto simp: p result_bind_Inr_iff)
  from event_received_queue [OF 1 Cons.prems(2), of sid] Cons.IH [OF 2]
  show ?case by (auto simp: p stream_items_def option.map_comp comp_def)
qed

section \<open>Draining\<close>

definition terminal :: "qitem \<Rightarrow> bool" where
  "terminal it \<longleftrightarrow> it = QEnd \<or> (\<exists>m. it = QErr m)"

lemma terminal_simps [simp]:
  "terminal QEnd" "terminal (QErr m)" "\<not> terminal (QD d)" "\<not> terminal (QH s e c)"
  by (simp_all add: terminal_def)

lemma request_drain_Waiting: "request_drain q acc = Waiting \<longleftrightarrow> (\<forall>it \<in> set q. \<not> terminal it)"
  by (induction q acc rule: request_drain.induct) (auto split: qitem.splits)

lemma upload_drain_Waiting: "upload_drain q st = Waiting \<longleftrightarrow> (\<forall>it \<in> set q. \<not> terminal it)"
  by (induction q st rule: upload_drain.induct) (auto split: qitem.splits)

lemma stream_drain_Waiting: "snd (stream_drain q) = Waiting \<longleftrightarrow> (\<forall>it \<in> set q. \<not> terminal it)"
  by (induction q rule: stream_drain.induct) (auto split: qitem.splits simp: Let_def case_prod_unfold)

lemma request_drain_data:
  "request_drain (map QD ds @ QEnd # rest) (st, enc, ct, body) = Done (st, enc, ct, body @ concat ds)"
  by (induction ds arbitrary: body) auto

lemma concat_filter_nonempty: "concat (filter (\<lambda>d. d \<noteq> []) ds) = concat ds"
  by (induction ds) auto

text \<open>
  A response as HTTP/3 events on one stream: the headers, then the body in DATA events
  (empty ones included), the end of the stream flagged on the last event.
\<close>

fun data_events :: "nat \<Rightarrow> bytes list \<Rightarrow> h3_event list" where
  "data_events sid [] = []"
| "data_events sid [d] = [DataReceived sid d True]"
| "data_events sid (d # ds) = DataReceived sid d False # data_events sid ds"

definition resp_events :: "nat \<Rightarrow> header list \<Rightarrow> bytes list \<Rightarrow> h3_event list" where
  "resp_events sid hs ds = HeadersReceived sid hs (ds = []) # data_events sid ds"

lemma data_events_items:
  "ds \<noteq> [] \<Longrightarrow> concat (map event_items (data_events sid ds)) = map QD (filter (\<lambda>d. d \<noteq> []) ds) @ [QEnd]"
  by (induction sid ds rule: data_events.induct) auto

lemma resp_events_items:
  "scan_headers hs (0, None, []) = Inr (st, enc, ct) \<Longrightarrow>
   concat (map event_items (resp_events sid hs ds))
   = QH st enc ct # map QD (filter (\<lambda>d. d \<noteq> []) ds) @ [QEnd]"
  by (cases "ds = []") (simp_all add: resp_events_def data_events_items)

text \<open>The HTTP/3 events a list of QUIC events decodes to, and the events that cut a stream off.\<close>

fun decoded_of :: "quic_event \<times> h3_event list \<Rightarrow> h3_event list" where
  "decoded_of (StreamReset s code, decoded) = []"
| "decoded_of (ConnectionTerminated code rp ft, decoded) = []"
| "decoded_of (ev, decoded) = decoded"

fun interrupts :: "nat \<Rightarrow> quic_event \<Rightarrow> bool" where
  "interrupts sid (StreamReset s code) \<longleftrightarrow> s = sid"
| "interrupts sid (ConnectionTerminated code rp ft) \<longleftrightarrow> True"
| "interrupts sid ev \<longleftrightarrow> False"

lemma stream_items_uninterrupted:
  "\<forall>p \<in> set evs. \<not> interrupts sid (fst p) \<Longrightarrow>
   stream_items sid evs
   = concat (map event_items (filter (\<lambda>e. stream_id e = sid) (concat (map decoded_of evs))))"
proof (induction evs)
  case Nil
  then show ?case by (simp add: stream_items_def)
next
  case (Cons p evs)
  obtain ev decoded where "p = (ev, decoded)" by fastforce
  with Cons show ?case by (cases ev) (auto simp: stream_items_def)
qed

lemma stream_items_interrupted:
  "p \<in> set evs \<Longrightarrow> interrupts sid (fst p) \<Longrightarrow> \<exists>it \<in> set (stream_items sid evs). terminal it"
proof -
  assume "p \<in> set evs" and i: "interrupts sid (fst p)"
  obtain ev decoded where "p = (ev, decoded)" by fastforce
  with i have "\<exists>it \<in> set (quic_items sid p). terminal it" by (cases ev) auto
  with \<open>p \<in> set evs\<close> show ?thesis by (auto simp: stream_items_def)
qed

lemma request_send_queue:
  assumes "request_send cl sid method path hdrs content = Inr cl1"
  shows "queue_of cl1 sid = Some []" and "http cl1"
  using assms
  by (auto simp: request_send_def h3_open_def Let_def result_bind_Inr_iff update_conv'
      split: if_splits)

section \<open>Uploads\<close>

fun sent_data :: "nat \<Rightarrow> quic_cmd list \<Rightarrow> (bytes \<times> bool) list" where
  "sent_data sid [] = []"
| "sent_data sid (SendData s d fin # cs) =
     (if s = sid then (d, fin) # sent_data sid cs else sent_data sid cs)"
| "sent_data sid (c # cs) = sent_data sid cs"

lemma sent_data_append: "sent_data sid (xs @ ys) = sent_data sid xs @ sent_data sid ys"
  by (induction sid xs rule: sent_data.induct) auto

lemma sent_data_Transmit [simp]: "sent_data sid (cmds (cmd Transmit cl)) = sent_data sid (cmds cl)"
  by (simp add: cmd_def sent_data_append)

lemma sent_data_SendData [simp]:
  "sent_data sid (cmds (cmd (SendData sid d fin) cl)) = sent_data sid (cmds cl) @ [(d, fin)]"
  by (simp add: cmd_def sent_data_append)

text \<open>Every look finds the stream gone or at least one more byte acknowledged.\<close>

definition acking :: "nat option list \<Rightarrow> bool" where
  "acking obs \<longleftrightarrow> (\<forall>a \<in> set obs. a \<noteq> Some 0)"

lemma upload_wait_done:
  "acking obs \<Longrightarrow> n < length obs \<Longrightarrow>
   \<exists>cl2 n2 obs2. upload_wait cl n obs = Done (cl2, n2, obs2) \<and> acking obs2 \<and>
     n2 < UPLOAD_BUF_CAP \<and> length obs + n2 \<le> length obs2 + n + 1 \<and>
     sent_data sid (cmds cl2) = sent_data sid (cmds cl)"
proof (induction cl n obs rule: upload_wait.induct)
  case (1 cl n)
  then show ?case by simp
next
  case (2 cl n obs)
  then show ?case by (auto simp: acking_def UPLOAD_BUF_CAP_def)
next
  case (3 cl n a obs)
  from "3.prems"(1) have a: "0 < a" and obs: "acking obs" by (auto simp: acking_def)
  show ?case
  proof (cases "UPLOAD_BUF_CAP \<le> n - a")
    case True
    then have "a < n" by (simp add: UPLOAD_BUF_CAP_def)
    with "3.prems"(2) a have "n - a < length obs" by simp
    from "3.IH" [OF True obs this] True a \<open>a < n\<close> show ?thesis by fastforce
  next
    case False
    with obs show ?thesis by simp
  qed
qed

lemma upload_body_complete:
  "acking obs \<Longrightarrow> unacked < UPLOAD_BUF_CAP \<Longrightarrow>
   unacked + sum_list (map (\<lambda>c. length c + overhead (length c) + 1) chunks) \<le> length obs \<Longrightarrow>
   \<exists>cl' peaks. upload_body overhead cl sid unacked obs chunks = Done (cl', peaks) \<and>
     sent_data sid (cmds cl')
       = sent_data sid (cmds cl) @ map (\<lambda>c. (c, False)) chunks @ [([], True)] \<and>
     list_all2 (\<lambda>p c. p < UPLOAD_BUF_CAP + length c + overhead (length c)) peaks chunks"
proof (induction chunks arbitrary: cl unacked obs)
  case Nil
  then show ?case by simp
next
  case (Cons c cs)
  let ?n = "unacked + length c + overhead (length c)"
  let ?cl = "cmd Transmit (cmd (SendData sid c False) cl)"
  have "?n < length obs" using Cons.prems(3) by simp
  from upload_wait_done [OF Cons.prems(1) this, of ?cl sid] obtain cl2 n2 obs2
    where w: "upload_wait ?cl ?n obs = Done (cl2, n2, obs2)" and o: "acking obs2"
      and n2: "n2 < UPLOAD_BUF_CAP" and l: "length obs + n2 \<le> length obs2 + ?n + 1"
      and d: "sent_data sid (cmds cl2) = sent_data sid (cmds ?cl)" by blast
  have "n2 + sum_list (map (\<lambda>c. length c + overhead (length c) + 1) cs) \<le> length obs2"
    using l Cons.prems(3) by simp
  from Cons.IH [OF o n2 this, of cl2] show ?case
    using w d Cons.prems(2) by auto
qed

section \<open>Tunnels\<close>

lemma h3ws_recv_one_frame:
  "h3_parse_turn (buf @ concat cs @ c) 0 = Take f (length (buf @ concat cs @ c)) \<Longrightarrow> c \<noteq> [] \<Longrightarrow>
   h3ws_recv buf (map QD cs @ QD c # q) = Done (f, [], q)"
proof (induction cs arbitrary: buf)
  case Nil
  then have "h3_parse_ws buf = Inr ([], 0)" and "h3_parse_ws (buf @ c) = Inr ([f], length (buf @ c))"
    by (simp_all add: h3ws.parse_incomplete [of buf c] h3ws.parse_one_frame [OF _ h3_parse_Nil])
  then show ?case by (simp add: h3ws_recv.simps [of buf] h3ws_recv.simps [of "buf @ c"])
next
  case (Cons d cs)
  then have "h3_parse_ws buf = Inr ([], 0)"
    by (intro h3ws.parse_incomplete [of buf "d @ concat cs @ c" f]) simp_all
  with Cons.IH [of "buf @ d"] Cons.prems show ?case by (simp add: h3ws_recv.simps [of buf])
qed

section \<open>Properties\<close>

text \<open>C25: a request gets its own response. After \<open>request\<close> has opened stream \<open>sid\<close>, let any QUIC
  events arrive, carrying HTTP/3 events of this and of other streams in any interleaving, without a
  reset of \<open>sid\<close> or a close. If the events of \<open>sid\<close> are a response (headers, then the body cut
  into DATA events in any way, the last event flagged as the end), \<open>request\<close> returns that status
  and content type and the whole body decoded by its content encoding, and drops the queue.\<close>

theorem request_returns_response:
  assumes "request_send cl sid method path hdrs content = Inr cl1"
    and "run_events cl1 evs = Inr cl2"
    and "\<forall>p \<in> set evs. \<not> interrupts sid (fst p)"
    and "filter (\<lambda>e. stream_id e = sid) (concat (map decoded_of evs)) = resp_events sid hs ds"
    and "scan_headers hs (0, None, []) = Inr (st, enc, ct)"
  shows "request_recv cod cl2 sid
    = (pop_queue sid cl2,
       abind (of_result (decode_body cod (concat ds) enc)) (\<lambda>b. Done (st, ct, b)))"
proof -
  note q = request_send_queue [OF assms(1)]
  have "queue_of cl2 sid = Some (QH st enc ct # map QD (filter (\<lambda>d. d \<noteq> []) ds) @ [QEnd])"
    using run_events_queue [OF assms(2) q(2), of sid] q(1)
      stream_items_uninterrupted [OF assms(3)] resp_events_items [OF assms(5), of sid ds]
    by (simp add: assms(4))
  then show ?thesis
    by (simp add: request_recv_def request_drain_data concat_filter_nonempty)
qed

text \<open>The connection and the events on which the properties are instantiated.\<close>

definition sample_sent :: h3_client where
  "sample_sent =
     projr (request_send (init_client\<lparr>http := True\<rparr>) 4 (ustr ''GET'') (ustr ''/'') [] [])"

definition sample_headers :: "header list" where
  "sample_headers = [(bstr '':status'', bstr ''200'')]"

definition sample_events :: "(quic_event \<times> h3_event list) list" where
  "sample_events =
     [(OtherQuicEvent, [HeadersReceived 4 sample_headers False, DataReceived 0 [9] True]),
      (OtherQuicEvent, [DataReceived 4 [1, 2] False]), (StreamReset 8 0, []),
      (OtherQuicEvent, [DataReceived 4 [3] True])]"

lemma sample_sent:
  "request_send (init_client\<lparr>http := True\<rparr>) 4 (ustr ''GET'') (ustr ''/'') [] [] = Inr sample_sent"
  by (simp add: sample_sent_def request_send_def h3_open_def Let_def)

lemma sample_headers: "scan_headers sample_headers (0, None, []) = Inr (200, None, [])"
  by code_simp

lemma sample_events: "run_events sample_sent sample_events = Inr (projr (run_events sample_sent sample_events))"
  by code_simp

theorem request_returns_response_witness:
  "\<exists>cl2. run_events sample_sent sample_events = Inr cl2 \<and>
     (\<forall>cod. request_recv cod cl2 4 = (pop_queue 4 cl2, Done (200, [], [1, 2, 3])))"
proof -
  have "request_recv cod (projr (run_events sample_sent sample_events)) 4
      = (pop_queue 4 (projr (run_events sample_sent sample_events)), Done (200, [], [1, 2, 3]))" for cod
    using request_returns_response [OF sample_sent sample_events _ _ sample_headers,
        of "[[1, 2], [3]]" cod]
    by (simp add: sample_events_def resp_events_def decode_body_def)
  with sample_events show ?thesis by blast
qed



text \<open>C27: uploads. If the peer keeps acknowledging (each look at the stream finds it gone or at least
  one more byte acknowledged), the upload loop ends; it has sent the body's chunks unchanged and
  in order followed by an empty final DATA; and at every moment the unacknowledged buffer was
  below the cap plus the one chunk just written.\<close>

theorem upload_complete_and_bounded:
  assumes "http cl" and "acking obs" and "unacked < UPLOAD_BUF_CAP"
    and "unacked + sum_list (map (\<lambda>c. length c + overhead (length c) + 1) chunks) \<le> length obs"
  shows "\<exists>cl' peaks. upload_send overhead cl sid path hdrs unacked obs chunks = Done (cl', peaks) \<and>
     sent_data sid (cmds cl')
       = sent_data sid (cmds cl) @ map (\<lambda>c. (c, False)) chunks @ [([], True)] \<and>
     list_all2 (\<lambda>p c. p < UPLOAD_BUF_CAP + length c + overhead (length c)) peaks chunks"
proof -
  obtain cl1 where "h3_open cl sid (ustr ''POST'') path hdrs False = Inr cl1"
    and "sent_data sid (cmds cl1) = sent_data sid (cmds cl)"
    using assms(1) by (simp add: h3_open_def Let_def cmd_def sent_data_append)
  with upload_body_complete [OF assms(2, 3, 4), of cl1 sid] show ?thesis
    by (simp add: upload_send_def)
qed

theorem upload_complete_and_bounded_witness:
  "\<exists>cl' peaks. upload_send (\<lambda>n. 2) (init_client\<lparr>http := True\<rparr>) 0 (ustr ''/upload'') [] 0
      (replicate 20 (Some 3)) [[1, 2], [3]] = Done (cl', peaks) \<and>
    sent_data 0 (cmds cl') = [([1, 2], False), ([3], False), ([], True)]"
proof -
  have "acking (replicate 20 (Some 3))" by (simp add: acking_def)
  from upload_complete_and_bounded [OF _ this, of "init_client\<lparr>http := True\<rparr>" 0 "\<lambda>n. 2" "[[1, 2], [3]]" 0
      "ustr ''/upload''" "[]"]
  show ?thesis by (auto simp: UPLOAD_BUF_CAP_def init_client_def)
qed

text \<open>a WebSocket message that arrives alone on the tunnel, in chunks of any size, is returned
  by \<open>H3Ws.recv\<close> with its opcode and payload, the buffer left empty and later items untouched.\<close>

theorem tunnel_receives_message:
  assumes "concat cs @ c = appendFrame [] op pl f r1" and "c \<noteq> []" and "length pl < 2 ^ 63"
  shows "h3ws_recv [] (map QD cs @ QD c # q) = Done ((opcode_val op, pl), [], q)"
  using h3ws_recv_one_frame [of "[]" cs c "(opcode_val op, pl)" q] assms
    h3_turn_appendFrame [OF assms(3), of op f r1 "[]"] by simp

theorem tunnel_receives_message_witness:
  "h3ws_recv [] [QD [0x81], QD [], QD [0x02, 0x68], QD [0x69], QEnd] = Done ((1, [0x68, 0x69]), [], [QEnd])"
  using tunnel_receives_message [of "[[0x81], [], [0x02, 0x68]]" "[0x69]" opText "[0x68, 0x69]" True False
      "[QEnd]"]
  by (simp add: appendFrame_def)

text \<open>C32: but messages that arrive together are lost. When one chunk carries several complete
  messages, \<open>H3Ws.recv\<close> deletes all of them from its buffer and returns only the first, so that
  no later call can return the others.\<close>

theorem tunnel_loses_coalesced_messages:
  assumes "\<forall>(op, pl, f, r1) \<in> set (m # ms). length pl < 2 ^ 63"
  shows "h3ws_recv [] (QD (server_wire (m # ms)) # q)
    = Done ((case m of (op, pl, f, r1) \<Rightarrow> (opcode_val op, pl)), [], q)"
proof -
  have "h3ws_recv [] (QD (server_wire (m # ms)) # q) = h3ws_recv (server_wire (m # ms)) q"
    by (simp add: h3ws_recv.simps [of "[]"] h3_parse_Nil)
  also have "\<dots> = Done ((case m of (op, pl, f, r1) \<Rightarrow> (opcode_val op, pl)), [], q)"
    by (subst h3ws_recv.simps, subst h3_parse_server_wire [OF assms]) (simp split: prod.split)
  finally show ?thesis .
qed

theorem tunnel_loses_coalesced_messages_witness:
  "h3ws_recv [] [QD [0x81, 0x01, 0x61, 0x81, 0x01, 0x62]] = Done ((1, [0x61]), [], [])"
  using tunnel_loses_coalesced_messages
    [of "(opText, [0x61], True, False)" "[(opText, [0x62], True, False)]" "[]"]
  by (simp add: server_wire_def appendFrame_def)

end
