(* ===== verification/Py_Sha1.thy ===== *)
theory Py_Sha1
  imports Py_Text
begin

text \<open>
  \<open>hashlib.sha1\<close> as the clients use it. A hash object is the bytes fed to it so far:
  \<open>update\<close> appends, \<open>hexdigest\<close> is the SHA-1 (FIPS 180-4) of all of them in lower-case hex.
\<close>

type_synonym word32 = "32 word"
type_synonym sha1_state = "word32 \<times> word32 \<times> word32 \<times> word32 \<times> word32"

definition sha1_pad :: "bytes \<Rightarrow> bytes" where
  "sha1_pad m = m @ [0x80] @ replicate ((119 - length m mod 64) mod 64) 0 @ be_bytes 8 (8 * length m)"

fun be_words :: "bytes \<Rightarrow> word32 list" where
  "be_words (a # b # c # d # r) = (push_bit 24 (ucast a) OR push_bit 16 (ucast b) OR push_bit 8 (ucast c) OR ucast d) # be_words r"
| "be_words _ = []"

text \<open>The message schedule, newest word first.\<close>

definition sched_next :: "word32 list \<Rightarrow> word32 list" where
  "sched_next rw = word_rotl 1 (rw ! 2 XOR rw ! 7 XOR rw ! 13 XOR rw ! 15) # rw"

definition sha1_schedule :: "bytes \<Rightarrow> word32 list" where
  "sha1_schedule blk = rev ((sched_next ^^ 64) (rev (be_words blk)))"

definition sha1_fk :: "nat \<Rightarrow> word32 \<Rightarrow> word32 \<Rightarrow> word32 \<Rightarrow> word32 \<times> word32" where
  "sha1_fk t b c d =
     (if t < 20 then ((b AND c) OR (NOT b AND d), 0x5a827999)
      else if t < 40 then (b XOR c XOR d, 0x6ed9eba1)
      else if t < 60 then ((b AND c) OR (b AND d) OR (c AND d), 0x8f1bbcdc)
      else (b XOR c XOR d, 0xca62c1d6))"

fun sha1_rounds :: "nat \<Rightarrow> word32 list \<Rightarrow> sha1_state \<Rightarrow> sha1_state" where
  "sha1_rounds t [] s = s"
| "sha1_rounds t (w # ws) (a, b, c, d, e) =
     (let (f, k) = sha1_fk t b c d
      in sha1_rounds (Suc t) ws (word_rotl 5 a + f + e + k + w, a, word_rotl 30 b, c, d))"

definition sha1_block :: "sha1_state \<Rightarrow> bytes \<Rightarrow> sha1_state" where
  "sha1_block s blk =
     (let (a, b, c, d, e) = s; (a', b', c', d', e') = sha1_rounds 0 (sha1_schedule blk) s
      in (a + a', b + b', c + c', d + d', e + e'))"

function sha1_blocks :: "sha1_state \<Rightarrow> bytes \<Rightarrow> sha1_state" where
  "sha1_blocks s m = (if length m < 64 then s else sha1_blocks (sha1_block s (take 64 m)) (drop 64 m))"
  by pat_completeness auto
termination by (relation "measure (\<lambda>(s, m). length m)") auto

declare sha1_blocks.simps [simp del]

definition sha1_init :: sha1_state where
  "sha1_init = (0x67452301, 0xefcdab89, 0x98badcfe, 0x10325476, 0xc3d2e1f0)"

definition hex_digit :: "nat \<Rightarrow> nat" where
  "hex_digit n = (if n < 10 then 48 + n else 87 + n)"

definition hex32 :: "word32 \<Rightarrow> pystr" where
  "hex32 w = map (\<lambda>i. hex_digit (unat (drop_bit (4 * i) w AND 0xf))) (rev [0..<8])"

definition sha1_hex :: "bytes \<Rightarrow> pystr" where
  "sha1_hex m =
     (let (a, b, c, d, e) = sha1_blocks sha1_init (sha1_pad m)
      in hex32 a @ hex32 b @ hex32 c @ hex32 d @ hex32 e)"

section \<open>Hash objects\<close>

type_synonym hasher = bytes

definition sha1_new :: hasher where
  "sha1_new = []"

definition sha1_update :: "hasher \<Rightarrow> bytes \<Rightarrow> hasher" where
  "sha1_update h d = h @ d"

definition hexdigest :: "hasher \<Rightarrow> pystr" where
  "hexdigest h = sha1_hex h"

lemma length_hex32 [simp]: "length (hex32 w) = 8"
  by (simp add: hex32_def)

lemma length_sha1_hex [simp]: "length (sha1_hex m) = 40"
  by (simp add: sha1_hex_def case_prod_unfold Let_def)

lemma sha1_update_chunks: "foldl sha1_update h chunks = h @ concat chunks"
  by (induction chunks arbitrary: h) (simp_all add: sha1_update_def)

text \<open>The padded message is a whole number of 64-byte blocks.\<close>

lemma sha1_pad_blocks: "64 dvd length (sha1_pad m)"
proof -
  define r q where "r = length m mod 64" and "q = length m div 64"
  have m: "length m = 64 * q + r" and r: "r < 64" by (simp_all add: r_def q_def)
  have "(r + 9 + (119 - r) mod 64) mod 64 = 0"
  proof (cases "r \<le> 55")
    case True
    then have "(119 - r) mod 64 = 55 - r" using mod_add_self2 [of "55 - r" 64] by simp
    with True show ?thesis by simp
  next
    case False
    with r have "(119 - r) mod 64 = 119 - r" by simp
    with False r show ?thesis by simp
  qed
  then have "64 dvd r + 9 + (119 - r) mod 64" by auto
  then have "64 dvd 64 * q + (r + 9 + (119 - r) mod 64)" by simp
  then show ?thesis by (simp add: sha1_pad_def m r add.assoc)
qed

end
