(* ===== verification/Transport.thy ===== *)
theory Transport
  imports H3_Client Py_Sha1
begin

text \<open>
  The shared transport and configuration of the stress clients,
  \<open>conformance/stress/client/transport.py\<close>: the settings read from the environment, the
  byte counters, the deterministic byte generator with the transfers built from it, the
  request-body compression, the protocol pin and the session objects. httpx is outside
  the repository: what its client returns for a call is an argument.
\<close>

section \<open>Configuration\<close>

type_synonym environ = "(pystr \<times> pystr) list"

record config =
  WORKLOAD :: pystr
  PROTO :: pystr
  SERVER :: pystr
  BASE :: pystr
  SECONDS :: int
  CLIENTS :: int
  CONC :: int
  STREAM :: int
  REPORT :: int
  REQ_COMP :: pystr
  RESP_COMP :: pystr

definition getenv :: "environ \<Rightarrow> string \<Rightarrow> string \<Rightarrow> pystr" where
  "getenv env k d = (case map_of env (ustr k) of None \<Rightarrow> ustr d | Some v \<Rightarrow> v)"

text \<open>\<open>str(1 << 30)\<close> is the default of \<open>VORTEX_STREAM_BYTES\<close>; \<open>STRESS_BASE\<close> has none.\<close>

definition load_config :: "environ \<Rightarrow> config result" where
  "load_config env =
     (case map_of env (ustr ''STRESS_BASE'') of
        None \<Rightarrow> Inl KeyError
      | Some base \<Rightarrow>
          result_bind (py_int (getenv env ''VORTEX_SECONDS'' ''60'')) (\<lambda>seconds.
          result_bind (py_int (getenv env ''VORTEX_CLIENTS'' ''3'')) (\<lambda>clients.
          result_bind (py_int (getenv env ''VORTEX_CONCURRENCY'' ''32'')) (\<lambda>conc.
          result_bind (py_int (getenv env ''VORTEX_STREAM_BYTES'' ''1073741824'')) (\<lambda>stream.
          result_bind (py_int (getenv env ''VORTEX_REPORT_SECONDS'' ''60'')) (\<lambda>report.
            Inr \<lparr>WORKLOAD = getenv env ''VORTEX_WORKLOAD'' ''requests'',
                 PROTO = getenv env ''VORTEX_PROTO'' ''h2'',
                 SERVER = getenv env ''STRESS_SERVER'' ''sync'',
                 BASE = rstrip_on (\<lambda>c. c = 47) base,
                 SECONDS = seconds, CLIENTS = clients, CONC = conc,
                 STREAM = stream, REPORT = report,
                 REQ_COMP = getenv env ''VORTEX_REQ_COMPRESSION'' ''gzip'',
                 RESP_COMP = getenv env ''VORTEX_RESP_COMPRESSION'' ''gzip''\<rparr>))))))"

definition CHUNK :: int where
  "CHUNK = 64 * 1024"

definition MB :: int where
  "MB = 1024 * 1024"

definition IS_H3 :: "config \<Rightarrow> bool" where
  "IS_H3 cfg \<longleftrightarrow> PROTO cfg = ustr ''h3''"

definition UNIT :: "config \<Rightarrow> pystr" where
  "UNIT cfg =
     (case map_of
        [(ustr ''requests'', ustr ''requests''), (ustr ''methods'', ustr ''requests''),
         (ustr ''ws'', ustr ''messages''), (ustr ''sse'', ustr ''events''),
         (ustr ''streamupload'', ustr ''transfers''), (ustr ''streamdownload'', ustr ''transfers''),
         (ustr ''mixed'', ustr ''ops'')] (WORKLOAD cfg) of
        None \<Rightarrow> ustr ''ok'' | Some u \<Rightarrow> u)"

definition STREAMING :: "config \<Rightarrow> bool" where
  "STREAMING cfg \<longleftrightarrow> WORKLOAD cfg \<in> {ustr ''streamupload'', ustr ''streamdownload''}"

section \<open>Byte counters\<close>

record xfer_state =
  xfer :: int
  xfer_by :: "pystr counter"

text \<open>\<open>tag\<close> is what \<open>xfer_tag[0]\<close> gives: nothing, or the getter's current workload.\<close>

definition add_xfer :: "pystr option \<Rightarrow> int \<Rightarrow> 'a xfer_state_scheme \<Rightarrow> 'a xfer_state_scheme" where
  "add_xfer tag n s =
     (let s1 = s\<lparr>xfer := xfer s + n\<rparr>
      in case tag of None \<Rightarrow> s1 | Some t \<Rightarrow> s1\<lparr>xfer_by := cadd t n (xfer_by s1)\<rparr>)"

section \<open>The byte generator\<close>

definition PAT :: bytes where
  "PAT = map of_nat [0..<256]"

definition gen_chunk :: "int \<Rightarrow> int \<Rightarrow> bytes" where
  "gen_chunk start n =
     (let s = nat (start mod 256); rot = drop s PAT @ take s PAT; reps = n div 256 + 1
      in take (nat n) (concat (replicate (nat reps) rot)))"

text \<open>
  The loop \<open>while off < STREAM\<close> that \<open>expected_sha1\<close> and \<open>body_gen\<close> share: the chunks
  from \<open>off\<close> on.
\<close>

function chunks_from :: "int \<Rightarrow> int \<Rightarrow> bytes list" where
  "chunks_from stream off =
     (if off < stream then
        (let n = min CHUNK (stream - off) in gen_chunk off n # chunks_from stream (off + n))
      else [])"
  by pat_completeness auto
termination
  by (relation "measure (\<lambda>(stream, off). nat (stream - off))") (auto simp: CHUNK_def)

declare chunks_from.simps [simp del]

definition expected_sha1 :: "config \<Rightarrow> pystr" where
  "expected_sha1 cfg = hexdigest (foldl sha1_update sha1_new (chunks_from (STREAM cfg) 0))"

text \<open>
  \<open>body_gen\<close> read to its end: the chunks it yields, and the counters after each chunk
  has been asked for the next one (counted on HTTP/1 and HTTP/2 only).
\<close>

definition body_gen ::
  "config \<Rightarrow> pystr option \<Rightarrow> 'a xfer_state_scheme \<Rightarrow> bytes list \<times> 'a xfer_state_scheme" where
  "body_gen cfg tag s =
     (let chunks = chunks_from (STREAM cfg) 0
      in (chunks,
          if IS_H3 cfg then s else foldl (\<lambda>s c. add_xfer tag (int (length c)) s) s chunks))"

section \<open>Request-body compression\<close>

definition compress :: "codecs \<Rightarrow> config \<Rightarrow> bytes \<Rightarrow> (bytes \<times> pystr option) await" where
  "compress cod cfg raw =
     (if REQ_COMP cfg \<in> {[], ustr ''none''} then Done (raw, None)
      else if REQ_COMP cfg = ustr ''gzip'' then Done (gzip_compress cod raw, Some (ustr ''gzip''))
      else if REQ_COMP cfg = ustr ''br'' then Done (br_compress cod raw, Some (ustr ''br''))
      else if REQ_COMP cfg = ustr ''zstd'' then Done (zstd_compress cod raw, Some (ustr ''zstd''))
      else Raised (SystemExit 1))"

definition ACCEPT :: "config \<Rightarrow> pystr option" where
  "ACCEPT cfg = (if RESP_COMP cfg \<in> {[], ustr ''none''} then None else Some (RESP_COMP cfg))"

section \<open>The protocol pin and sessions\<close>

definition PIN_VERSION :: "(pystr \<times> pystr) list" where
  "PIN_VERSION = [(ustr ''h1'', ustr ''HTTP/1.1''), (ustr ''h2'', ustr ''HTTP/2'')]"

text \<open>
  An httpx response: the negotiated version, the status, the content type if there is
  one, the decoded body, and, for a streamed one, its decoded chunks and how the stream
  of them ends.
\<close>

record httpx_resp =
  http_version :: pystr
  status_code :: int
  content_type :: "pystr option"
  content :: bytes
  body_chunks :: "bytes list"
  body_end :: "unit await"

definition pin_check :: "config \<Rightarrow> httpx_resp \<Rightarrow> unit await" where
  "pin_check cfg r =
     (case map_of PIN_VERSION (PROTO cfg) of
        None \<Rightarrow> Done ()
      | Some want \<Rightarrow>
          if http_version r \<noteq> want then
            Raised (ProtocolPinError (ustr ''negotiated '' @ http_version r @ ustr '', want '' @ want @
              ustr '' (VORTEX_PROTO='' @ PROTO cfg @ ustr ''); no fallback allowed''))
          else Done ())"

text \<open>
  \<open>HttpxSession\<close>: \<open>hx\<close> is what the httpx client does for a method, a URL, headers and a
  body (for an upload, the chunks joined).
\<close>

type_synonym httpx_call = "pystr \<Rightarrow> pystr \<Rightarrow> hdict \<Rightarrow> bytes \<Rightarrow> httpx_resp await"

definition httpx_request ::
  "config \<Rightarrow> httpx_call \<Rightarrow> pystr \<Rightarrow> pystr \<Rightarrow> hdict \<Rightarrow> bytes \<Rightarrow> (int \<times> pystr \<times> bytes) await" where
  "httpx_request cfg hx method path headers body =
     abind (hx method (BASE cfg @ path) headers body) (\<lambda>r.
       abind (pin_check cfg r) (\<lambda>_.
         Done (status_code r, case content_type r of None \<Rightarrow> [] | Some ct \<Rightarrow> ct, content r)))"

definition httpx_get ::
  "config \<Rightarrow> httpx_call \<Rightarrow> pystr \<Rightarrow> hdict \<Rightarrow> (int \<times> pystr \<times> bytes) await" where
  "httpx_get cfg hx path headers =
     abind (hx (ustr ''GET'') (BASE cfg @ path) headers []) (\<lambda>r.
       abind (pin_check cfg r) (\<lambda>_.
         Done (status_code r, case content_type r of None \<Rightarrow> [] | Some ct \<Rightarrow> ct, content r)))"

definition httpx_stream ::
  "config \<Rightarrow> httpx_call \<Rightarrow> pystr \<Rightarrow> pystr \<Rightarrow> hdict \<Rightarrow> stream_item list \<times> unit await" where
  "httpx_stream cfg hx method path headers =
     (case hx method (BASE cfg @ path) headers [] of
        Waiting \<Rightarrow> ([], Waiting)
      | Raised e \<Rightarrow> ([], Raised e)
      | Done r \<Rightarrow>
          (case pin_check cfg r of
             Done _ \<Rightarrow> (SStatus (status_code r) # map SChunk (body_chunks r), body_end r)
           | Raised e \<Rightarrow> ([], Raised e)
           | Waiting \<Rightarrow> ([], Waiting)))"

definition httpx_upload ::
  "config \<Rightarrow> httpx_call \<Rightarrow> pystr \<Rightarrow> hdict \<Rightarrow> bytes list \<Rightarrow> int await" where
  "httpx_upload cfg hx path headers chunks =
     abind (hx (ustr ''POST'') (BASE cfg @ path) headers (concat chunks)) (\<lambda>r.
       abind (pin_check cfg r) (\<lambda>_. Done (status_code r)))"

text \<open>
  What \<open>urlparse\<close> gives for the host and the port of an ASCII \<open>BASE\<close>: the authority between
  \<open>//\<close> and the next \<open>/\<close>, \<open>?\<close> or \<open>#\<close>, without user information, with a bracketed address
  unwrapped.
\<close>

definition scheme_char :: "nat \<Rightarrow> bool" where
  "scheme_char c \<longleftrightarrow> (97 \<le> lower_char c \<and> lower_char c \<le> 122) \<or> is_adigit c \<or> c \<in> {43, 45, 46}"

definition url_netloc :: "pystr \<Rightarrow> pystr" where
  "url_netloc url =
     (let u = filter (\<lambda>c. c \<notin> {9, 10, 13}) (dropWhile (\<lambda>c. c \<le> 32) url);
          (scheme, colon, r) = partition_on 58 u;
          u1 = (if colon \<and> scheme \<noteq> [] \<and> hd scheme \<notin> {43, 45, 46} \<and> \<not> is_adigit (hd scheme) \<and>
                   list_all scheme_char scheme then r else u)
      in if take 2 u1 = ustr ''//'' then takeWhile (\<lambda>c. c \<notin> {47, 63, 35}) (drop 2 u1) else [])"

definition url_hostport :: "pystr \<Rightarrow> (pystr option \<times> int option) result" where
  "url_hostport url =
     (let netloc = url_netloc url;
          info = rev (takeWhile (\<lambda>c. c \<noteq> 64) (rev netloc));
          (_, br, inner) = partition_on 91 info;
          (bhost, _, after) = partition_on 93 inner;
          (_, _, bport) = partition_on 58 after;
          (phost, _, pport) = partition_on 58 info;
          (host, port) = (if br then (bhost, bport) else (phost, pport));
          (name, pct, zone) = partition_on 37 host;
          hostname = (if host = [] then None
                      else Some (lower name @ (if pct then 37 # zone else [])))
      in if (91 \<in> set netloc) \<noteq> (93 \<in> set netloc) then Inl ValueError
         else if port = [] then Inr (hostname, None)
         else if \<not> list_all is_adigit port then Inl ValueError
         else result_bind (py_int port) (\<lambda>p.
           if 0 \<le> p \<and> p \<le> 65535 then Inr (hostname, Some p) else Inl ValueError))"

text \<open>\<open>session()\<close>: which connection it opens, and to where.\<close>

datatype session_kind = Connect_H3 "pystr option" int | Httpx_Client bool

definition session_of :: "config \<Rightarrow> session_kind result" where
  "session_of cfg =
     (if IS_H3 cfg then
        result_bind (url_hostport (BASE cfg)) (\<lambda>(host, port).
          Inr (Connect_H3 host (case port of None \<Rightarrow> 443 | Some p \<Rightarrow> if p = 0 then 443 else p)))
      else Inr (Httpx_Client (PROTO cfg = ustr ''h2'')))"

section \<open>Server statistics\<close>

text \<open>\<open>get_server_stats\<close> on what \<open>s.get("/stats")\<close> returned.\<close>

definition get_server_stats ::
  "(int \<times> pystr \<times> bytes) await \<Rightarrow> (int \<times> int \<times> int option) await" where
  "get_server_stats reply =
     abind reply (\<lambda>(st, ct, body).
       if st \<noteq> 200 then Raised (RuntimeErr (ustr ''/stats -> '' @ py_str st))
       else let parts = py_bytes_split body in
         case parts of
           [] \<Rightarrow> Raised (PyErr IndexError)
         | [a] \<Rightarrow> abind (of_result (py_int_bytes a)) (\<lambda>_. Raised (PyErr IndexError))
         | a # b # r \<Rightarrow>
             abind (of_result (py_int_bytes a)) (\<lambda>rss.
             abind (of_result (py_int_bytes b)) (\<lambda>heap.
               case r of
                 [] \<Rightarrow> Done (rss, heap, None)
               | c # _ \<Rightarrow> abind (of_result (py_int_bytes c)) (\<lambda>fds. Done (rss, heap, Some fds)))))"

section \<open>Facts about the generator\<close>

lemma length_PAT [simp]: "length PAT = 256"
  by (simp add: PAT_def)

lemma nth_concat_replicate:
  "i < k * length xs \<Longrightarrow> concat (replicate k xs) ! i = xs ! (i mod length xs)"
proof (induction k arbitrary: i)
  case (Suc k)
  show ?case
  proof (cases "i < length xs")
    case False
    then have "i - length xs < k * length xs" using Suc.prems by simp
    with Suc.IH False show ?thesis by (simp add: nth_append le_mod_geq)
  qed (simp add: nth_append)
qed simp

lemma length_concat_replicate [simp]: "length (concat (replicate k xs)) = k * length xs"
  by (induction k) auto

lemma nth_rot:
  assumes "s < 256" and "i < 256"
  shows "(drop s PAT @ take s PAT) ! i = of_nat ((s + i) mod 256)"
proof (cases "i < 256 - s")
  case True
  with assms show ?thesis by (simp add: nth_append PAT_def)
next
  case False
  with assms have "(s + i) mod 256 = i - (256 - s)" by (subst mod_if, subst mod_less) auto
  with False assms show ?thesis by (simp add: nth_append PAT_def)
qed

text \<open>The bytes of the generator on a range of positions.\<close>

definition pattern :: "nat \<Rightarrow> nat \<Rightarrow> bytes" where
  "pattern start n = map (\<lambda>i. of_nat (i mod 256)) [start..<start + n]"

lemma length_pattern [simp]: "length (pattern start n) = n"
  by (simp add: pattern_def)

lemma pattern_append: "pattern start n @ pattern (start + n) m = pattern start (n + m)"
  unfolding pattern_def map_append [symmetric]
  by (subst upt_add_eq_append [symmetric]) (simp_all add: add.assoc)

lemma gen_chunk_pattern: "0 \<le> start \<Longrightarrow> gen_chunk start n = pattern (nat start) (nat n)"
proof (cases "0 \<le> n")
  case False
  then show ?thesis by (simp add: gen_chunk_def Let_def pattern_def)
next
  case True
  assume start: "0 \<le> start"
  define s where "s = nat (start mod 256)"
  define rot where "rot = drop s PAT @ take s PAT"
  have s: "s < 256" "s = nat start mod 256"
    using start by (simp_all add: s_def nat_less_iff nat_mod_distrib)
  have rot: "length rot = 256" using s(1) by (simp add: rot_def)
  have k: "nat (n div 256 + 1) = nat n div 256 + 1"
    using True by (simp add: nat_div_distrib nat_add_distrib)
  have len: "nat n < (nat n div 256 + 1) * 256"
    by (metis add.commute dividend_less_div_times mult.commute zero_less_numeral Suc_eq_plus1 mult_Suc_right)
  have "gen_chunk start n = take (nat n) (concat (replicate (nat n div 256 + 1) rot))"
    unfolding gen_chunk_def Let_def s_def rot_def k by (rule refl)
  also have "\<dots> = pattern (nat start) (nat n)"
  proof (rule nth_equalityI)
    show "length (take (nat n) (concat (replicate (nat n div 256 + 1) rot))) = length (pattern (nat start) (nat n))"
      using len rot by (simp del: replicate.simps)
  next
    fix i assume "i < length (take (nat n) (concat (replicate (nat n div 256 + 1) rot)))"
    then have i: "i < nat n" by simp
    have "take (nat n) (concat (replicate (nat n div 256 + 1) rot)) ! i = rot ! (i mod 256)"
      unfolding nth_take [OF i] using i len rot nth_concat_replicate [of i "nat n div 256 + 1" rot]
      by simp
    also have "\<dots> = of_nat ((s + i mod 256) mod 256)"
      unfolding rot_def by (rule nth_rot [OF s(1)]) simp
    also have "(s + i mod 256) mod 256 = (nat start + i) mod 256" by (simp add: s(2) mod_simps)
    finally show "take (nat n) (concat (replicate (nat n div 256 + 1) rot)) ! i = pattern (nat start) (nat n) ! i"
      using i by (simp add: pattern_def)
  qed
  finally show ?thesis .
qed

lemma chunks_from_pattern:
  "0 \<le> off \<Longrightarrow> concat (chunks_from stream off) = pattern (nat off) (nat (stream - off))"
proof (induction stream off rule: chunks_from.induct)
  case (1 stream off)
  show ?case
  proof (cases "off < stream")
    case False
    then show ?thesis by (subst chunks_from.simps) (simp add: pattern_def)
  next
    case True
    define n where "n = min CHUNK (stream - off)"
    have n: "0 < n" "n \<le> stream - off" using True by (simp_all add: n_def CHUNK_def)
    have "concat (chunks_from stream off) = gen_chunk off n @ concat (chunks_from stream (off + n))"
      using True by (subst chunks_from.simps) (simp add: n_def Let_def)
    also have "\<dots> = pattern (nat off) (nat n) @ pattern (nat off + nat n) (nat (stream - off) - nat n)"
      using "1.IH" [OF True n_def] "1.prems" n
      by (simp add: gen_chunk_pattern nat_add_distrib nat_diff_distrib algebra_simps)
    also have "\<dots> = pattern (nat off) (nat (stream - off))"
      using n by (simp add: pattern_append)
    finally show ?thesis .
  qed
qed

end
