(* ===== verification/Py_Float.thy ===== *)
theory Py_Float
  imports Py_Text "HOL-Library.Log_Nat"
begin

text \<open>
  Python's \<open>float\<close> (IEEE 754 binary64): a finite value is the rational it denotes,
  and an operation is the exact rational operation followed by rounding to the
  nearest representable value, ties to even, with the 53-bit significand and the
  subnormal floor \<open>2^-1074\<close>. Overflow is an error of the division of integers; the
  infinities and NaN are not values of the model. The error bound at the end is
  what the worker allocation rests on.
\<close>

type_synonym pyfloat = rat

section \<open>Rounding\<close>

text \<open>\<open>ilog2 q\<close> is the binary exponent of a positive rational.\<close>

definition ilog2 :: "rat \<Rightarrow> int" where
  "ilog2 q = (let (n, d) = quotient_of q;
                  e = int (floorlog 2 (nat n)) - int (floorlog 2 (nat d))
              in if 2 powi e \<le> q then e else e - 1)"

definition round_half_even :: "rat \<Rightarrow> int" where
  "round_half_even q =
     (let f = \<lfloor>q\<rfloor>; r = q - of_int f
      in if r < 1 / 2 then f else if 1 / 2 < r then f + 1 else if even f then f else f + 1)"

definition fl_unit :: "rat \<Rightarrow> rat" where
  "fl_unit q = 2 powi (max (ilog2 q - 52) (- 1074))"

definition fl :: "rat \<Rightarrow> pyfloat" where
  "fl q = (if q = 0 then 0
           else sgn q * (of_int (round_half_even (\<bar>q\<bar> / fl_unit \<bar>q\<bar>)) * fl_unit \<bar>q\<bar>))"

section \<open>The operations the clients use\<close>

text \<open>\<open>a / b\<close> for integers, \<open>int(x)\<close>, and the float operations.\<close>

definition py_truediv :: "int \<Rightarrow> int \<Rightarrow> pyfloat result" where
  "py_truediv a b = (if b = 0 then Inl ZeroDivisionError
     else let x = fl (of_int a / of_int b) in if 2 ^ 1024 \<le> \<bar>x\<bar> then Inl OverflowError else Inr x)"

definition py_trunc :: "pyfloat \<Rightarrow> int" where
  "py_trunc x = (if 0 \<le> x then \<lfloor>x\<rfloor> else \<lceil>x\<rceil>)"

definition fadd :: "pyfloat \<Rightarrow> pyfloat \<Rightarrow> pyfloat" where
  "fadd x y = fl (x + y)"

definition fsub :: "pyfloat \<Rightarrow> pyfloat \<Rightarrow> pyfloat" where
  "fsub x y = fl (x - y)"

definition fmul :: "pyfloat \<Rightarrow> pyfloat \<Rightarrow> pyfloat" where
  "fmul x y = fl (x * y)"

definition fdiv :: "pyfloat \<Rightarrow> pyfloat \<Rightarrow> pyfloat" where
  "fdiv x y = fl (x / y)"

text \<open>\<open>f"{x:.df}"\<close>: the exact value, rounded half to even at \<open>d\<close> decimals.\<close>

definition fmt_fixed :: "nat \<Rightarrow> pyfloat \<Rightarrow> pystr" where
  "fmt_fixed d x =
     (let n = nat (round_half_even (\<bar>x\<bar> * 10 ^ d));
          frac = dec (n mod 10 ^ d)
      in (if x < 0 then [45] else []) @ dec (n div 10 ^ d) @
         (if d = 0 then [] else 46 # replicate (d - length frac) 48 @ frac))"

section \<open>Facts about rounding\<close>

lemma powi_pos [simp]: "0 < (2 :: rat) powi e"
  by (simp add: zero_less_power_int)

lemma powi_nz [simp]: "(2 :: rat) powi e \<noteq> 0"
  by simp

lemma powi_le_iff: "(2 :: rat) powi a \<le> 2 powi b \<longleftrightarrow> a \<le> b"
  using power_int_increasing [of a b "2 :: rat"] power_int_strict_increasing [of b a "2 :: rat"]
  by linarith

lemma powi_less_iff: "(2 :: rat) powi a < 2 powi b \<longleftrightarrow> a < b"
  using powi_le_iff [of b a] by linarith

lemma powi_half: "(2 :: rat) powi (e - 1) = 2 powi e / 2"
  by (simp add: power_int_diff)

lemma floorlog_nat_bounds:
  assumes "0 < n"
  shows "2 powi (int (floorlog 2 (nat n)) - 1) \<le> (of_int n :: rat)"
    and "(of_int n :: rat) < 2 powi int (floorlog 2 (nat n))"
proof -
  from assms have p: "0 < nat n" by simp
  from floorlog_bounds [OF p, of 2]
  have lo: "2 ^ (floorlog 2 (nat n) - 1) \<le> nat n" and hi: "nat n < 2 ^ floorlog 2 (nat n)"
    by simp_all
  have "0 < floorlog 2 (nat n)"
    using p floorlog_eq_zero_iff [of 2 "nat n"] by linarith
  then have e: "int (floorlog 2 (nat n)) - 1 = int (floorlog 2 (nat n) - 1)" by simp
  have n: "(of_int n :: rat) = of_nat (nat n)" using assms by simp
  have "(of_nat (2 ^ (floorlog 2 (nat n) - 1)) :: rat) \<le> of_nat (nat n)"
    using lo by (simp only: of_nat_le_iff)
  then show "2 powi (int (floorlog 2 (nat n)) - 1) \<le> (of_int n :: rat)"
    unfolding e n by simp
  have "(of_nat (nat n) :: rat) < of_nat (2 ^ floorlog 2 (nat n))"
    using hi by (simp only: of_nat_less_iff)
  then show "(of_int n :: rat) < 2 powi int (floorlog 2 (nat n))"
    unfolding n by simp
qed

lemma ilog2_bounds:
  assumes "0 < q"
  shows "2 powi ilog2 q \<le> q" and "q < 2 powi (ilog2 q + 1)"
proof -
  obtain n d where nd: "quotient_of q = (n, d)" by fastforce
  have d: "0 < d" using quotient_of_denom_pos [OF nd] .
  have q: "q = of_int n / of_int d" using quotient_of_div [OF nd] .
  have n: "0 < n" using assms d by (simp add: q zero_less_divide_iff)
  define a b where "a = int (floorlog 2 (nat n))" and "b = int (floorlog 2 (nat d))"
  note nb = floorlog_nat_bounds [OF n, folded a_def]
  note db = floorlog_nat_bounds [OF d, folded b_def]
  have "q < 2 powi a / 2 powi (b - 1)"
    unfolding q using nb(2) db(1) d by (intro frac_less) (auto simp: n less_imp_le)
  then have up: "q < 2 powi (a - b + 1)"
    by (simp add: power_int_diff [symmetric] algebra_simps)
  have "2 powi (a - 1) / 2 powi b < q"
    unfolding q using nb(1) db(2) d n by (intro frac_less2) auto
  then have lo: "2 powi (a - b - 1) < q"
    by (simp add: power_int_diff [symmetric] algebra_simps)
  have i: "ilog2 q = (if 2 powi (a - b) \<le> q then a - b else a - b - 1)"
    by (simp add: ilog2_def nd a_def b_def)
  show "2 powi ilog2 q \<le> q" using lo by (simp add: i)
  show "q < 2 powi (ilog2 q + 1)" using up by (simp add: i)
qed

lemma ilog2_less: "0 < q \<Longrightarrow> q < 2 powi m \<Longrightarrow> ilog2 q < m"
  using ilog2_bounds(1) [of q] powi_less_iff [of "ilog2 q" m] by linarith

lemma round_half_even_err: "\<bar>of_int (round_half_even q) - q\<bar> \<le> 1 / 2"
proof -
  have "of_int \<lfloor>q\<rfloor> \<le> q" and "q < of_int \<lfloor>q\<rfloor> + 1" by linarith+
  then show ?thesis by (auto simp: round_half_even_def Let_def abs_le_iff)
qed

lemma round_half_even_of_int [simp]: "round_half_even (of_int n) = n"
  by (simp add: round_half_even_def)

lemma fl_unit_pos [simp]: "0 < fl_unit q"
  by (simp add: fl_unit_def)

lemma fl_unit_nz [simp]: "fl_unit q \<noteq> 0"
  using fl_unit_pos [of q] by linarith

lemma fl_0 [simp]: "fl 0 = 0"
  by (simp add: fl_def)

lemma fl_pos: "0 < q \<Longrightarrow> fl q = of_int (round_half_even (q / fl_unit q)) * fl_unit q"
  by (simp add: fl_def)

lemma fl_err_unit:
  assumes "0 < q"
  shows "\<bar>fl q - q\<bar> \<le> fl_unit q / 2"
proof -
  let ?u = "fl_unit q"
  have "fl q - q = (of_int (round_half_even (q / ?u)) - q / ?u) * ?u"
    using fl_unit_pos [of q] by (simp add: fl_pos assms field_simps)
  then have "\<bar>fl q - q\<bar> = \<bar>of_int (round_half_even (q / ?u)) - q / ?u\<bar> * ?u"
    using fl_unit_pos [of q] by (simp add: abs_mult abs_of_pos)
  also have "\<dots> \<le> 1 / 2 * ?u"
    by (intro mult_right_mono round_half_even_err) (simp add: less_imp_le)
  finally show ?thesis by simp
qed

text \<open>Below \<open>2^m\<close> the rounding error is at most \<open>2^(m - 54)\<close>.\<close>

lemma fl_err:
  assumes "0 \<le> q" and "q < 2 powi m" and "- 1021 \<le> m"
  shows "\<bar>fl q - q\<bar> \<le> 2 powi (m - 54)"
proof (cases "q = 0")
  case True
  then show ?thesis by (simp add: less_imp_le)
next
  case False
  with assms(1) have q: "0 < q" by simp
  have "ilog2 q \<le> m - 1" using ilog2_less [OF q assms(2)] by simp
  then have "fl_unit q \<le> 2 powi (m - 53)"
    using assms(3) by (auto simp: fl_unit_def powi_le_iff)
  then have "fl_unit q / 2 \<le> 2 powi (m - 53) / 2" by simp
  also have "\<dots> = 2 powi (m - 54)" using powi_half [of "m - 53"] by simp
  finally show ?thesis using fl_err_unit [OF q] by linarith
qed

lemma fl_nonneg: "0 \<le> q \<Longrightarrow> 0 \<le> fl q"
proof (cases "q = 0")
  case False
  assume "0 \<le> q"
  with False have q: "0 < q" by simp
  have "0 \<le> q / fl_unit q" using q fl_unit_pos [of q] by (intro divide_nonneg_pos) auto
  then have "0 \<le> \<lfloor>q / fl_unit q\<rfloor>" by simp
  then have "0 \<le> round_half_even (q / fl_unit q)" by (auto simp: round_half_even_def Let_def)
  with q show ?thesis by (simp add: fl_pos less_imp_le)
qed simp

lemma fl_minus: "fl (- q) = - fl q"
  by (simp add: fl_def)

text \<open>A value with at most 53 significant bits is exact; integers below \<open>2^53\<close> are such.\<close>

lemma fl_exact_pos:
  assumes "0 < n" and "n < 2 ^ 53" and "- 1074 \<le> e"
  shows "fl (of_int n * 2 powi e) = of_int n * 2 powi e"
proof -
  define q where "q = (of_int n * 2 powi e :: rat)"
  have q: "0 < q" using assms(1) by (simp add: q_def)
  have "(of_int n :: rat) < of_int (2 ^ 53)" using assms(2) by (simp only: of_int_less_iff)
  then have "q < 2 powi 53 * 2 powi e" unfolding q_def by (intro mult_strict_right_mono) simp_all
  then have "q < 2 powi (53 + e)" by (simp add: power_int_add)
  then have "ilog2 q < 53 + e" using q by (rule ilog2_less [rotated])
  then have "max (ilog2 q - 52) (- 1074) \<le> e" using assms(3) by linarith
  then obtain k where k: "e = max (ilog2 q - 52) (- 1074) + int k"
    using zle_iff_zadd by blast
  have "(2 :: rat) powi e = 2 ^ k * fl_unit q"
    unfolding fl_unit_def by (subst (1) k) (simp add: power_int_add mult.commute)
  then have "of_int n * 2 powi e = of_int n * (2 ^ k * fl_unit q)" by (rule arg_cong)
  then have u: "q = of_int (n * 2 ^ k) * fl_unit q" unfolding q_def [symmetric] by (simp add: mult.assoc)
  have "q / fl_unit q = of_int (n * 2 ^ k)"
    unfolding nonzero_divide_eq_eq [OF fl_unit_nz] by (rule u)
  then have "fl q = of_int (n * 2 ^ k) * fl_unit q"
    using fl_pos [OF q] by (simp only: round_half_even_of_int)
  also have "\<dots> = q" by (rule u [symmetric])
  finally show ?thesis unfolding q_def .
qed

lemma fl_exact:
  assumes "\<bar>n\<bar> < 2 ^ 53" and "- 1074 \<le> e"
  shows "fl (of_int n * 2 powi e) = of_int n * 2 powi e"
proof -
  consider "n = 0" | "0 < n" | "0 < - n" by linarith
  then show ?thesis
  proof cases
    case 1
    then show ?thesis by simp
  next
    case 2
    with assms(1) have "n < 2 ^ 53" by linarith
    from fl_exact_pos [OF 2 this assms(2)] show ?thesis .
  next
    case 3
    with assms(1) have "- n < 2 ^ 53" by linarith
    from fl_exact_pos [OF 3 this assms(2)] fl_minus [of "of_int n * 2 powi e"] show ?thesis by simp
  qed
qed

lemma fl_of_int [simp]: "\<bar>n\<bar> < 2 ^ 53 \<Longrightarrow> fl (of_int n) = of_int n"
proof -
  assume "\<bar>n\<bar> < 2 ^ 53"
  from fl_exact [OF this, of 0] show ?thesis by simp
qed

lemma fl_half_of_int: "\<bar>n\<bar> < 2 ^ 53 \<Longrightarrow> fl (of_int n / 2) = of_int n / 2"
proof -
  assume "\<bar>n\<bar> < 2 ^ 53"
  moreover have "(of_int n :: rat) * 2 powi (- 1) = of_int n / 2" by (simp add: power_int_minus)
  ultimately show ?thesis using fl_exact [of n "- 1"] by simp
qed

lemma py_trunc_floor: "0 \<le> x \<Longrightarrow> py_trunc x = \<lfloor>x\<rfloor>"
  by (simp add: py_trunc_def)

end
