(* ===== verification/Stress_Mix.thy ===== *)
theory Stress_Mix
  imports Transport Py_Float
begin

text \<open>
  The worker split of the \<open>mixed\<close> soak, \<open>parse_mix\<close> and \<open>split_mix\<close> of
  \<open>conformance/stress/client/stress_client.py\<close>: reading \<open>VORTEX_MIX\<close>, and handing a budget of
  workers out by largest remainder over Python floats. \<open>mix_fail\<close> prints and exits with
  code 2, so a refused configuration is \<open>Raised (SystemExit 2)\<close>.
\<close>

section \<open>Reading the mix\<close>

definition MIX_DEFAULT :: "(pystr \<times> int) list" where
  "MIX_DEFAULT =
     [(ustr ''requests'', 40), (ustr ''ws'', 20), (ustr ''sse'', 20),
      (ustr ''streamupload'', 10), (ustr ''streamdownload'', 10)]"

definition MIX_FIXED :: "pystr list" where
  "MIX_FIXED = [ustr ''streamupload'', ustr ''streamdownload'']"

definition mix_fail :: "'a await" where
  "mix_fail = Raised (SystemExit 2)"

fun parse_items ::
  "pystr list \<Rightarrow> (pystr \<times> int) list \<Rightarrow> pystr list \<Rightarrow> (pystr \<times> int) list await" where
  "parse_items [] share seen = Done share"
| "parse_items (item # items) share seen =
     (let it = py_strip item in
      if it = [] then parse_items items share seen
      else let (k0, eq, v0) = partition_on 61 it; k = py_strip k0; v = py_strip v0 in
        if \<not> eq then mix_fail
        else if k \<notin> fst ` set share then mix_fail
        else if k \<in> set seen then mix_fail
        else if \<not> (v \<noteq> [] \<and> list_all is_adigit v) then mix_fail
        else abind (of_result (py_int v)) (\<lambda>n.
          parse_items items (AList.update k n share) (k # seen)))"

definition parse_mix :: "pystr \<Rightarrow> (pystr \<times> int) list await" where
  "parse_mix raw =
     abind (parse_items (split_on 44 (py_strip raw)) MIX_DEFAULT []) (\<lambda>share.
       let out = filter (\<lambda>(k, w). 0 < w) (map (\<lambda>(k, _). (k, the (map_of share k))) MIX_DEFAULT)
       in if out = [] then mix_fail else Done out)"

section \<open>Handing workers out\<close>

text \<open>\<open>exact = [(k, left * w / total_w) for k, w in rest]\<close>\<close>

fun exact_shares :: "int \<Rightarrow> int \<Rightarrow> (pystr \<times> int) list \<Rightarrow> (pystr \<times> pyfloat) list result" where
  "exact_shares left total_w [] = Inr []"
| "exact_shares left total_w ((k, w) # rest) =
     result_bind (py_truediv (left * w) total_w) (\<lambda>x.
       result_bind (exact_shares left total_w rest) (\<lambda>xs. Inr ((k, x) # xs)))"

text \<open>\<open>kv[1] - int(kv[1])\<close>, and the stable sort by it in descending order.\<close>

definition remainder :: "pyfloat \<Rightarrow> pyfloat" where
  "remainder x = fsub x (fl (of_int (py_trunc x)))"

definition by_remainder :: "(pystr \<times> pyfloat) list \<Rightarrow> (pystr \<times> pyfloat) list" where
  "by_remainder exact = sort_key (\<lambda>kv. - remainder (snd kv)) exact"

text \<open>The loop that hands the spare workers out.\<close>

fun give_spare :: "(pystr \<times> pyfloat) list \<Rightarrow> int \<Rightarrow> (pystr \<times> int) list \<Rightarrow> (pystr \<times> int) list" where
  "give_spare [] spare alloc = alloc"
| "give_spare ((k, x) # order) spare alloc =
     (if spare \<le> 0 then alloc else give_spare order (spare - 1) (cadd k 1 alloc))"

text \<open>\<open>max(alloc, key=lambda j: alloc[j])\<close>: the first key with the largest value.\<close>

fun max_key :: "(pystr \<times> int) list \<Rightarrow> pystr" where
  "max_key [] = []"
| "max_key ((k, n) # r) = (if list_all (\<lambda>(j, m). m \<le> n) r then k else max_key r)"

text \<open>The loop that feeds the slices left with nothing.\<close>

fun feed_zeros :: "pystr list \<Rightarrow> (pystr \<times> int) list \<Rightarrow> (pystr \<times> int) list" where
  "feed_zeros [] alloc = alloc"
| "feed_zeros (k # ks) alloc =
     feed_zeros ks (AList.update k 1 (cadd (max_key alloc) (- 1) alloc))"

definition largest_remainder :: "int \<Rightarrow> (pystr \<times> int) list \<Rightarrow> (pystr \<times> int) list result" where
  "largest_remainder left rest =
     (let s = sum_list (map snd rest); total_w = (if s = 0 then int (length rest) else s)
      in result_bind (exact_shares left total_w rest) (\<lambda>exact.
        let alloc = map (\<lambda>(k, x). (k, py_trunc x)) exact;
            spare = left - sum_list (map snd alloc);
            alloc2 = give_spare (by_remainder exact) spare alloc
        in Inr (feed_zeros (map fst (filter (\<lambda>(k, n). n = 0) alloc2)) alloc2)))"

definition split_mix :: "int \<Rightarrow> (pystr \<times> int) list \<Rightarrow> (pystr \<times> int) list await" where
  "split_mix budget shares =
     (if budget < int (length shares) then mix_fail
      else let out = map (\<lambda>(k, _). (k, 1)) shares;
               rest = filter (\<lambda>(k, w). k \<notin> set MIX_FIXED) shares;
               extra = budget - int (length shares) in
        if rest \<noteq> [] \<and> 0 < extra then
          abind (of_result (largest_remainder (extra + int (length rest)) rest)) (\<lambda>alloc.
            Done (map (\<lambda>(k, _). (k, cget (foldl (\<lambda>d (j, n). AList.update j n d) out alloc) k)) shares))
        else Done (map (\<lambda>(k, _). (k, cget out k)) shares))"

text \<open>\<open>MIX_SLICES\<close>, resolved at startup for the mixed cell.\<close>

definition mix_slices :: "config \<Rightarrow> pystr \<Rightarrow> (pystr \<times> int) list await" where
  "mix_slices cfg raw =
     (if WORKLOAD cfg = ustr ''mixed''
      then abind (parse_mix raw) (\<lambda>shares. split_mix (CONC cfg) shares) else Done [])"

section \<open>The rounding\<close>

lemma py_truediv_Inr:
  assumes "0 < b" and "0 \<le> a" and "a < b * 2 ^ 50"
  shows "py_truediv a b = Inr (fl (of_int a / of_int b))"
    and "0 \<le> fl (of_int a / of_int b)"
    and "\<bar>fl (of_int a / of_int b) - of_int a / of_int b\<bar> \<le> 1 / 16"
proof -
  let ?q = "of_int a / of_int b :: rat"
  have q0: "0 \<le> ?q" using assms by simp
  have "(of_int a :: rat) < of_int (b * 2 ^ 50)" using assms(3) by (simp only: of_int_less_iff)
  then have "?q < 2 ^ 50" using assms(1) by (simp add: field_simps)
  then have q: "?q < 2 powi 50" by simp
  have "(2 :: rat) powi (50 - 54) = 1 / 16" by simp
  then show err: "\<bar>fl ?q - ?q\<bar> \<le> 1 / 16" using fl_err [OF q0 q] by simp
  show n: "0 \<le> fl ?q" by (rule fl_nonneg [OF q0])
  have "fl ?q < 2 ^ 50 + 1" using err \<open>?q < 2 ^ 50\<close> by linarith
  also have "\<dots> \<le> 2 ^ 1024"
  proof -
    have "(2 :: rat) ^ 51 \<le> 2 ^ 1024" by (rule power_increasing) simp_all
    moreover have "(2 :: rat) ^ 50 + 1 \<le> 2 ^ 51" by simp
    ultimately show ?thesis by linarith
  qed
  finally have "\<not> 2 ^ 1024 \<le> \<bar>fl ?q\<bar>" using n by simp
  then show "py_truediv a b = Inr (fl ?q)"
    using assms(1) unfolding py_truediv_def Let_def by (metis less_irrefl)
qed

text \<open>What the list of float shares satisfies: one per slice, close to the exact quotient.\<close>

lemma exact_shares_close:
  assumes "0 < W" and "0 \<le> left" and "left < 2 ^ 50" and "\<forall>(k, w) \<in> set rest. 0 \<le> w \<and> w \<le> W"
  shows "\<exists>xs. exact_shares left W rest = Inr (zip (map fst rest) xs) \<and> length xs = length rest \<and>
    list_all2 (\<lambda>x (k, w). 0 \<le> x \<and> \<bar>x - of_int (left * w) / of_int W\<bar> \<le> 1 / 16) xs rest"
  using assms(4)
proof (induction rest)
  case Nil
  then show ?case by simp
next
  case (Cons p rest)
  obtain k w where p: "p = (k, w)" by fastforce
  with Cons.prems have w: "0 \<le> w" "w \<le> W" by auto
  have "left * w \<le> left * W" using w assms(2) by (intro mult_left_mono)
  also have "\<dots> < 2 ^ 50 * W" using assms by (intro mult_strict_right_mono)
  finally have lt: "left * w < W * 2 ^ 50" by (simp add: mult.commute)
  note d = py_truediv_Inr [OF assms(1) mult_nonneg_nonneg [OF assms(2) w(1)] lt]
  from Cons obtain xs where "exact_shares left W rest = Inr (zip (map fst rest) xs)"
    "length xs = length rest"
    "list_all2 (\<lambda>x (k, w). 0 \<le> x \<and> \<bar>x - of_int (left * w) / of_int W\<bar> \<le> 1 / 16) xs rest" by auto
  with d show ?case
    by (intro exI [of _ "fl (of_int (left * w) / of_int W) # xs"]) (simp add: p)
qed

end
