(* ===== verification/Stress_Mix_Props.thy ===== *)
theory Stress_Mix_Props
  imports Stress_Mix
begin

text \<open>
  Properties of the mixed split: which configurations \<open>VORTEX_MIX\<close> accepts and what it
  reads, and that \<open>split_mix\<close> hands out exactly the budget, at least one worker per slice,
  whatever the floating-point rounding of the shares.
\<close>

section \<open>Allocations\<close>

lemma map_fst_update_in [py_dict]:
  "k \<in> set (map fst m) \<Longrightarrow> map fst (AList.update k v m) = map fst m"
  by (simp add: update_keys)

lemma map_fst_cadd_in [py_dict]: "k \<in> set (map fst m) \<Longrightarrow> map fst (cadd k n m) = map fst m"
  by (simp add: cadd_def update_keys)

lemma cget_update: "cget (AList.update k v m) j = (if j = k then v else cget m j)"
  by (simp add: cget_def update_conv')

lemma give_spare_props:
  "distinct (map fst order) \<Longrightarrow> set (map fst order) \<subseteq> set (map fst a) \<Longrightarrow> distinct (map fst a) \<Longrightarrow>
   0 \<le> spare \<Longrightarrow> spare \<le> int (length order) \<Longrightarrow>
   map fst (give_spare order spare a) = map fst a \<and>
   sum_list (map snd (give_spare order spare a)) = sum_list (map snd a) + spare \<and>
   (\<forall>k. cget a k \<le> cget (give_spare order spare a) k \<and>
        cget (give_spare order spare a) k \<le> cget a k + (if k \<in> set (map fst order) then 1 else 0))"
proof (induction order spare a rule: give_spare.induct)
  case (1 spare a)
  then show ?case by simp
next
  case (2 k x order spare a)
  show ?case
  proof (cases "spare \<le> 0")
    case True
    with "2.prems" show ?thesis by simp
  next
    case False
    have keys: "map fst (cadd k 1 a) = map fst a" using "2.prems" by (intro map_fst_cadd_in) simp
    let ?r = "give_spare order (spare - 1) (cadd k 1 a)"
    have sum: "sum_list (map snd (cadd k 1 a)) = sum_list (map snd a) + 1"
      using "2.prems" by (simp add: sum_cadd)
    have IH: "map fst ?r = map fst a" "sum_list (map snd ?r) = sum_list (map snd a) + spare"
      "\<And>j. cget (cadd k 1 a) j \<le> cget ?r j \<and>
        cget ?r j \<le> cget (cadd k 1 a) j + (if j \<in> set (map fst order) then 1 else 0)"
      using "2.IH" [OF False] False "2.prems" keys sum by auto
    have "cget a j \<le> cget ?r j \<and> cget ?r j \<le> cget a j + (if j \<in> set (map fst ((k, x) # order)) then 1 else 0)"
      for j using IH(3) [of j] "2.prems"(1) by (cases "j = k") auto
    with IH(1, 2) False show ?thesis by simp
  qed
qed

lemma max_key_props:
  "m \<noteq> [] \<Longrightarrow> distinct (map fst m) \<Longrightarrow>
   max_key m \<in> set (map fst m) \<and> (\<forall>(j, n) \<in> set m. n \<le> cget m (max_key m))"
proof (induction m rule: max_key.induct)
  case 1
  then show ?case by simp
next
  case (2 k n r)
  show ?case
  proof (cases "list_all (\<lambda>(j, m). m \<le> n) r")
    case True
    then show ?thesis by (auto simp: cget_def list_all_iff)
  next
    case False
    then have r: "r \<noteq> []" by auto
    with "2.IH" [OF False] "2.prems" have IH: "max_key r \<in> set (map fst r)"
      "\<forall>(j, m) \<in> set r. m \<le> cget r (max_key r)" by auto
    from IH(1) "2.prems" have ne: "max_key r \<noteq> k" by auto
    from False obtain j m where jm: "(j, m) \<in> set r" "n < m" by (auto simp: list_all_iff)
    with IH(2) have "n \<le> cget r (max_key r)" by fastforce
    moreover have "cget ((k, n) # r) (max_key r) = cget r (max_key r)" using ne by (simp add: cget_def)
    ultimately show ?thesis using False IH by auto
  qed
qed

lemma sum_below_length:
  "\<forall>(j, n) \<in> set m. n \<le> 1 \<Longrightarrow> sum_list (map snd m) \<le> int (length m)"
  by (induction m) auto

lemma sum_strictly_below_length:
  "\<forall>(j, n) \<in> set m. n \<le> (1 :: int) \<Longrightarrow> (k, n0) \<in> set m \<Longrightarrow> n0 \<le> 0 \<Longrightarrow>
   sum_list (map snd m) < int (length m)"
proof (induction m)
  case (Cons p m)
  then show ?case using sum_below_length [of m] by (cases p) fastforce
qed simp

lemma cget_in_map: "k \<in> set (map fst m) \<Longrightarrow> distinct (map fst m) \<Longrightarrow> (k, cget m k) \<in> set m"
  by (auto simp: cget_in)

lemma max_key_donor:
  assumes "distinct (map fst m)" and "k \<in> set (map fst m)" and "cget m k = 0"
    and "int (length m) \<le> sum_list (map snd m)"
  shows "max_key m \<in> set (map fst m)" and "2 \<le> cget m (max_key m)" and "max_key m \<noteq> k"
proof -
  have ne: "m \<noteq> []" using assms(2) by auto
  note mx = max_key_props [OF ne assms(1)]
  show "max_key m \<in> set (map fst m)" using mx by blast
  show 2: "2 \<le> cget m (max_key m)"
  proof (rule ccontr)
    assume "\<not> 2 \<le> cget m (max_key m)"
    with mx have "\<forall>(j, n) \<in> set m. n \<le> 1" by fastforce
    from sum_strictly_below_length [OF this cget_in_map [OF assms(2, 1)]] assms(3, 4) show False by simp
  qed
  with assms(3) show "max_key m \<noteq> k" by auto
qed

lemma feed_zeros_props:
  "distinct ks \<Longrightarrow> set ks \<subseteq> set (map fst a) \<Longrightarrow> distinct (map fst a) \<Longrightarrow>
   \<forall>k \<in> set (map fst a). (if k \<in> set ks then cget a k = 0 else 1 \<le> cget a k) \<Longrightarrow>
   int (length a) \<le> sum_list (map snd a) \<Longrightarrow>
   map fst (feed_zeros ks a) = map fst a \<and>
   sum_list (map snd (feed_zeros ks a)) = sum_list (map snd a) \<and>
   (\<forall>k \<in> set (map fst a). 1 \<le> cget (feed_zeros ks a) k)"
proof (induction ks a rule: feed_zeros.induct)
  case (1 a)
  then show ?case by simp
next
  case (2 k ks a)
  have k: "k \<in> set (map fst a)" "cget a k = 0" using "2.prems" by auto
  note d = max_key_donor [OF "2.prems"(3) k "2.prems"(5)]
  let ?a1 = "cadd (max_key a) (- 1) a"
  let ?a2 = "AList.update k 1 ?a1"
  have keys1: "map fst ?a1 = map fst a" using d(1) by (rule map_fst_cadd_in)
  have keys: "map fst ?a2 = map fst a" using k(1) keys1 by (simp add: map_fst_update_in)
  have dist1: "distinct (map fst ?a1)" using "2.prems"(3) keys1 by simp
  have "cget ?a1 k = 0" using d(3) k(2) by simp
  then have sum: "sum_list (map snd ?a2) = sum_list (map snd a)"
    using cget_sum_update [OF dist1, of k 1] sum_cadd [OF "2.prems"(3), of "max_key a" "- 1"] by simp
  have notin: "max_key a \<notin> set ks" using "2.prems"(4) d(1, 2) by force
  have inv: "\<forall>j \<in> set (map fst ?a2). (if j \<in> set ks then cget ?a2 j = 0 else 1 \<le> cget ?a2 j)"
  proof
    fix j assume "j \<in> set (map fst ?a2)"
    then have j: "j \<in> set (map fst a)" by (simp only: keys)
    from "2.prems"(4) j have i: "if j \<in> set (k # ks) then cget a j = 0 else 1 \<le> cget a j" by blast
    show "if j \<in> set ks then cget ?a2 j = 0 else 1 \<le> cget ?a2 j"
      using i d(2) notin "2.prems"(1) by (auto simp: cget_update)
  qed
  have "length ?a2 = length a" using arg_cong [OF keys, of length] by simp
  then have len: "int (length ?a2) \<le> sum_list (map snd ?a2)" using "2.prems"(5) sum by simp
  have "map fst (feed_zeros ks ?a2) = map fst ?a2 \<and>
      sum_list (map snd (feed_zeros ks ?a2)) = sum_list (map snd ?a2) \<and>
      (\<forall>k \<in> set (map fst ?a2). 1 \<le> cget (feed_zeros ks ?a2) k)"
    using "2.IH" "2.prems"(1, 2, 3) keys inv len by simp
  then show ?case unfolding keys sum by simp
qed

section \<open>Largest remainder\<close>

lemma trunc_sum_bounds:
  assumes "list_all2 (\<lambda>x (k, w). 0 \<le> x \<and> \<bar>x - of_int (left * w) / of_int W\<bar> \<le> (1 / 16 :: rat)) xs rest"
  shows "of_int (sum_list (map py_trunc xs))
      \<le> (of_int (left * sum_list (map snd rest)) / of_int W + of_nat (length rest) / 16 :: rat)"
    and "(of_int (left * sum_list (map snd rest)) / of_int W - of_nat (length rest) / 16 - of_nat (length rest) :: rat)
      \<le> of_int (sum_list (map py_trunc xs))"
  using assms
proof (induction xs rest rule: list_all2_induct)
  case Nil
  {
    case 1
    show ?case by simp
  next
    case 2
    show ?case by simp
  }
next
  case (Cons x xs p rest)
  obtain k w where p: "p = (k, w)" by fastforce
  have x: "0 \<le> x" "\<bar>x - of_int (left * w) / of_int W\<bar> \<le> 1 / 16" using Cons(1) by (auto simp: p)
  have f: "of_int (py_trunc x) \<le> x" "x - 1 \<le> of_int (py_trunc x)"
    using x(1) by (simp_all add: py_trunc_def) linarith+
  define q S N T :: rat where "q = of_int (left * w) / of_int W"
    and "S = of_int (left * sum_list (map snd rest)) / of_int W"
    and "N = of_nat (length rest)" and "T = of_int (sum_list (map py_trunc xs))"
  have s: "of_int (left * sum_list (map snd (p # rest))) / of_int W = q + S"
    by (simp add: p q_def S_def algebra_simps add_divide_distrib)
  have n: "of_nat (length (p # rest)) = 1 + N" by (simp add: N_def)
  have t: "of_int (sum_list (map py_trunc (x # xs))) = of_int (py_trunc x) + T" by (simp add: T_def)
  have x': "x - q \<le> 1 / 16" "q - x \<le> 1 / 16" using x(2) [folded q_def] unfolding abs_le_iff by linarith+
  {
    case 1
    from Cons.IH(1) have "T \<le> S + N / 16" by (simp add: S_def N_def T_def)
    then show ?case unfolding s n t add_divide_distrib using x'(1) f(1) by linarith
  next
    case 2
    from Cons.IH(2) have "S - N / 16 - N \<le> T" by (simp add: S_def N_def T_def)
    then show ?case unfolding s n t add_divide_distrib using x'(2) f(2) by linarith
  }
qed

lemma map_cget: "distinct (map fst m) \<Longrightarrow> map (cget m) (map fst m) = map snd m"
  by (auto simp: cget_in intro!: map_cong)

lemma truncs_zip:
  "length xs = length ks \<Longrightarrow> map (\<lambda>(k, x). (k, py_trunc x)) (zip ks xs) = zip ks (map py_trunc xs)"
  by (induction ks xs rule: list_induct2') auto

lemma cget_zip_trunc:
  "length xs = length ks \<Longrightarrow> distinct ks \<Longrightarrow> (k, x) \<in> set (zip ks xs) \<Longrightarrow>
   cget (zip ks (map py_trunc xs)) k = py_trunc x"
  by (rule cget_in) (auto simp: set_zip)

lemma by_remainder_keys:
  "distinct (map fst (by_remainder e)) \<longleftrightarrow> distinct (map fst e)"
  "set (map fst (by_remainder e)) = set (map fst e)"
  "length (by_remainder e) = length e"
  by (simp_all add: by_remainder_def distinct_map)

text \<open>The floors and the spare workers: what is left over is between none and one per slice.\<close>

lemma spare_bounds:
  assumes "list_all2 (\<lambda>x (k, w). 0 \<le> x \<and> \<bar>x - of_int (left * w) / of_int W\<bar> \<le> (1 / 16 :: rat)) xs rest"
    and "W = sum_list (map snd rest)" and "0 < W" and "length rest \<le> 15"
  shows "0 \<le> left - sum_list (map py_trunc xs)"
    and "left - sum_list (map py_trunc xs) \<le> int (length rest)"
proof -
  define T N :: rat where "T = of_int (sum_list (map py_trunc xs))" and "N = of_nat (length rest)"
  have L: "of_int (left * sum_list (map snd rest)) / of_int W = (of_int left :: rat)"
    using assms(2, 3) by simp
  have "T \<le> of_int left + N / 16" and "of_int left - N / 16 - N \<le> T"
    using trunc_sum_bounds [OF assms(1)] unfolding L T_def N_def by simp_all
  moreover have "N / 16 < 1" using assms(4) by (simp add: N_def)
  ultimately have "T < of_int left + 1" and "of_int left - N < T + 1" by linarith+
  then have "of_int (sum_list (map py_trunc xs)) < (of_int (left + 1) :: rat)"
    and "(of_int (left - int (length rest)) :: rat) < of_int (sum_list (map py_trunc xs) + 1)"
    by (simp_all add: T_def N_def)
  then show "0 \<le> left - sum_list (map py_trunc xs)"
    and "left - sum_list (map py_trunc xs) \<le> int (length rest)"
    unfolding of_int_less_iff by simp_all
qed

lemma spare_alloc:
  assumes close: "list_all2 (\<lambda>x (k, w). 0 \<le> x \<and> \<bar>x - of_int (left * w) / of_int W\<bar> \<le> (1 / 16 :: rat)) xs rest"
    and W: "W = sum_list (map snd rest)" "0 < W" and short: "length rest \<le> 15"
    and dist: "distinct (map fst rest)"
  defines "a \<equiv> zip (map fst rest) (map py_trunc xs)"
  defines "a2 \<equiv> give_spare (by_remainder (zip (map fst rest) xs)) (left - sum_list (map py_trunc xs)) a"
  shows "map fst a2 = map fst rest" and "sum_list (map snd a2) = left" and "0 \<le> cget a2 k"
    and "cget a k \<le> cget a2 k" and "cget a2 k \<le> cget a k + 1"
proof -
  have len: "length xs = length rest" using list_all2_lengthD [OF close] .
  have a: "map fst a = map fst rest" "map snd a = map py_trunc xs" using len by (simp_all add: a_def)
  have keys: "map fst (zip (map fst rest) xs) = map fst rest" using len by simp
  note order = by_remainder_keys [of "zip (map fst rest) xs", unfolded keys]
  have gs: "map fst a2 = map fst a"
    "sum_list (map snd a2) = sum_list (map snd a) + (left - sum_list (map py_trunc xs))"
    "\<forall>k. cget a k \<le> cget a2 k \<and> cget a2 k \<le> cget a k
      + (if k \<in> set (map fst (by_remainder (zip (map fst rest) xs))) then 1 else 0)"
    using give_spare_props [of "by_remainder (zip (map fst rest) xs)" a "left - sum_list (map py_trunc xs)"]
      order dist a(1) spare_bounds [OF close W short] len by (simp_all add: a2_def)
  show "map fst a2 = map fst rest" "sum_list (map snd a2) = left" using gs(1, 2) a by simp_all
  show le: "cget a k \<le> cget a2 k" and "cget a2 k \<le> cget a k + 1"
    using spec [OF gs(3), of k] by (simp_all split: if_splits)
  have "\<forall>x \<in> set xs. 0 \<le> x" using close by (induction rule: list_all2_induct) auto
  then have "0 \<le> py_trunc x" if "x \<in> set xs" for x using that by (simp add: py_trunc_def)
  then have "0 \<le> cget a k"
    by (auto simp: cget_def a_def split: option.split dest!: map_of_SomeD set_zip_rightD)
  with le show "0 \<le> cget a2 k" by linarith
qed

lemma fed_alloc:
  assumes dist: "distinct (map fst m)" and nn: "\<And>k. 0 \<le> cget m k"
    and enough: "int (length m) \<le> sum_list (map snd m)"
  defines "zs \<equiv> map fst (filter (\<lambda>(k, n). n = 0) m)"
  shows "map fst (feed_zeros zs m) = map fst m" and "sum_list (map snd (feed_zeros zs m)) = sum_list (map snd m)"
    and "\<forall>k \<in> set (map fst m). 1 \<le> cget (feed_zeros zs m) k"
    and "\<forall>k \<in> set (map fst m). 1 \<le> cget m k \<Longrightarrow> zs = []"
proof -
  have zs: "k \<in> set zs \<longleftrightarrow> k \<in> set (map fst m) \<and> cget m k = 0" for k
  proof -
    have "k \<in> set zs \<longleftrightarrow> (k, 0) \<in> set m" by (force simp: zs_def)
    also have "\<dots> \<longleftrightarrow> k \<in> set (map fst m) \<and> cget m k = 0"
      using cget_in [OF dist, of k 0] cget_in_map [OF _ dist, of k] by force
    finally show ?thesis .
  qed
  have dz: "distinct zs" using dist unfolding zs_def by (rule distinct_map_filter)
  have "set zs \<subseteq> set (map fst m)" using zs by blast
  moreover have "\<forall>k \<in> set (map fst m). if k \<in> set zs then cget m k = 0 else 1 \<le> cget m k"
  proof
    fix k assume k: "k \<in> set (map fst m)"
    show "if k \<in> set zs then cget m k = 0 else 1 \<le> cget m k"
      using zs [of k] nn [of k] k by (cases "k \<in> set zs") simp_all
  qed
  ultimately show "map fst (feed_zeros zs m) = map fst m"
    "sum_list (map snd (feed_zeros zs m)) = sum_list (map snd m)"
    "\<forall>k \<in> set (map fst m). 1 \<le> cget (feed_zeros zs m) k"
    using feed_zeros_props [OF dz _ dist _ enough] by simp_all
  show "zs = []" if "\<forall>k \<in> set (map fst m). 1 \<le> cget m k"
    using that zs by (cases zs) fastforce+
qed

lemma largest_remainder_ok:
  assumes dist: "distinct (map fst rest)" and ne: "rest \<noteq> []" and short: "length rest \<le> 15"
    and pos: "\<forall>(k, w) \<in> set rest. 0 < w" and enough: "int (length rest) \<le> left" and small: "left < 2 ^ 50"
  obtains alloc xs where "largest_remainder left rest = Inr alloc"
    and "map fst alloc = map fst rest" and "sum_list (map snd alloc) = left"
    and "\<forall>k \<in> set (map fst rest). 1 \<le> cget alloc k"
    and "list_all2 (\<lambda>x (k, w). 0 \<le> x \<and>
        \<bar>x - of_int (left * w) / of_int (sum_list (map snd rest))\<bar> \<le> (1 / 16 :: rat)) xs rest"
    and "(\<forall>x \<in> set xs. 1 \<le> x) \<longrightarrow> (\<forall>(k, x) \<in> set (zip (map fst rest) xs).
        py_trunc x \<le> cget alloc k \<and> cget alloc k \<le> py_trunc x + 1)"
proof -
  define W where "W = sum_list (map snd rest)"
  have le: "w \<le> W" if "(k, w) \<in> set rest" for k w
    unfolding W_def using that pos by (intro member_le_sum_list) force+
  obtain k0 w0 where "(k0, w0) \<in> set rest" using ne by (cases rest) auto
  with le pos have W: "0 < W" by fastforce
  have "0 \<le> left" using enough by linarith
  from exact_shares_close [OF W this small, of rest] pos le obtain xs where
    ex: "exact_shares left W rest = Inr (zip (map fst rest) xs)" and len: "length xs = length rest"
    and close: "list_all2 (\<lambda>x (k, w). 0 \<le> x \<and> \<bar>x - of_int (left * w) / of_int W\<bar> \<le> 1 / 16) xs rest"
    by fastforce
  define a where "a = zip (map fst rest) (map py_trunc xs)"
  define a2 where "a2 = give_spare (by_remainder (zip (map fst rest) xs)) (left - sum_list (map py_trunc xs)) a"
  note sp = spare_alloc [OF close W_def W short dist, folded a_def, folded a2_def]
  have d2: "distinct (map fst a2)" using dist sp(1) by simp
  have "int (length a2) \<le> sum_list (map snd a2)" using arg_cong [OF sp(1), of length] sp(2) enough by simp
  note fa = fed_alloc [OF d2 sp(3) this]
  let ?r = "feed_zeros (map fst (filter (\<lambda>(k, n). n = 0) a2)) a2"
  have lr: "largest_remainder left rest = Inr ?r"
  proof -
    have tz: "map (\<lambda>(k, x). (k, py_trunc x)) (zip (map fst rest) xs) = a"
      unfolding a_def using len by (intro truncs_zip) simp
    have Wn: "(W = 0) = False" using W by simp
    have sa: "map snd a = map py_trunc xs" using len by (simp add: a_def)
    show ?thesis
      by (simp only: largest_remainder_def Let_def W_def [symmetric] Wn if_False ex result_bind_simps
          tz sa a2_def [symmetric])
  qed
  have quota: "py_trunc x \<le> cget ?r k \<and> cget ?r k \<le> py_trunc x + 1"
    if big: "\<forall>x \<in> set xs. 1 \<le> x" and kx: "(k, x) \<in> set (zip (map fst rest) xs)" for k x
  proof -
    have c: "cget a j = py_trunc y" if "(j, y) \<in> set (zip (map fst rest) xs)" for j y
      using that len dist unfolding a_def by (intro cget_zip_trunc) simp_all
    have "\<forall>j \<in> set (map fst a2). 1 \<le> cget a2 j"
    proof
      fix j assume "j \<in> set (map fst a2)"
      then have "j \<in> set (map fst (zip (map fst rest) xs))" using sp(1) len by simp
      then obtain y where y: "(j, y) \<in> set (zip (map fst rest) xs)" by auto
      then have "1 \<le> y" using big set_zip_rightD [OF y] by blast
      then have "1 \<le> py_trunc y" by (simp add: py_trunc_def)
      with c [OF y] sp(4) [of j] show "1 \<le> cget a2 j" by linarith
    qed
    from fa(4) [OF this] c [OF kx] sp(4, 5) [of k] show ?thesis by simp
  qed
  show ?thesis
    using that [OF lr _ _ _ close [unfolded W_def]] quota fa(1, 2, 3) sp(1, 2) by auto
qed

lemma cget_foldl_update:
  "distinct (map fst m) \<Longrightarrow>
   cget (foldl (\<lambda>d (j, n). AList.update j n d) out m) k = (if k \<in> set (map fst m) then cget m k else cget out k)"
proof (induction m arbitrary: out)
  case (Cons p m)
  obtain j n where "p = (j, n)" by fastforce
  with Cons show ?case
    by (cases "k = j"; cases "k \<in> fst ` set m") (simp_all add: cget_update, simp_all add: cget_def)
qed simp

lemma sum_list_filter_split:
  "sum_list (map f xs) = sum_list (map f (filter P xs)) + (sum_list (map f (filter (\<lambda>x. \<not> P x) xs)) :: int)"
  by (induction xs) auto

lemma sum_list_ones: "\<forall>x \<in> set xs. f x = (1 :: int) \<Longrightarrow> sum_list (map f xs) = int (length xs)"
  by (induction xs) auto

text \<open>The slices of \<open>split_mix\<close>.\<close>

lemma rest_length:
  assumes "distinct (map fst shares)" and "fst ` set shares \<subseteq> fst ` set MIX_DEFAULT"
  shows "length (filter (\<lambda>(k, w). k \<notin> set MIX_FIXED) shares) \<le> 3"
proof -
  let ?r = "filter (\<lambda>(k, w). k \<notin> set MIX_FIXED) shares"
  have "distinct (map fst ?r)" using assms(1) by (rule distinct_map_filter)
  then have "length ?r = card (set (map fst ?r))" by (metis distinct_card length_map)
  also have "set (map fst ?r) \<subseteq> {ustr ''requests'', ustr ''ws'', ustr ''sse''}"
    using assms(2) by (force simp: MIX_DEFAULT_def MIX_FIXED_def)
  then have "card (set (map fst ?r)) \<le> card {ustr ''requests'', ustr ''ws'', ustr ''sse''}"
    by (intro card_mono) simp_all
  also have "\<dots> \<le> 3" by (simp add: card_insert_if)
  finally show ?thesis .
qed

lemma split_mix_ok:
  assumes dist: "distinct (map fst shares)" and known: "fst ` set shares \<subseteq> fst ` set MIX_DEFAULT"
    and pos: "\<forall>(k, w) \<in> set shares. 0 < w" and enough: "int (length shares) \<le> budget"
    and small: "budget < 2 ^ 50" and ne: "shares \<noteq> []"
  defines "rest \<equiv> filter (\<lambda>(k, w). k \<notin> set MIX_FIXED) shares"
  shows "\<exists>sl. split_mix budget shares = Done sl \<and> map fst sl = map fst shares \<and>
    (\<forall>(k, n) \<in> set sl. 1 \<le> n \<and> (k \<in> set MIX_FIXED \<longrightarrow> n = 1)) \<and>
    sum_list (map snd sl) = (if rest = [] then int (length shares) else budget)"
proof (cases "rest \<noteq> [] \<and> 0 < budget - int (length shares)")
  case False
  have c: "cget (map (\<lambda>(k, _). (k, 1)) shares) k = 1" if "k \<in> fst ` set shares" for k
    using that dist by (intro cget_in) (auto simp: comp_def case_prod_unfold)
  let ?sl = "map (\<lambda>(k, _). (k, cget (map (\<lambda>(k, _). (k, 1)) shares) k)) shares"
  have sl: "?sl = map (\<lambda>(k, _). (k, 1)) shares"
    using c by (intro map_cong) force+
  have "split_mix budget shares = Done ?sl"
    using False enough unfolding rest_def by (auto simp: split_mix_def Let_def)
  moreover have "sum_list (map snd (map (\<lambda>(k, _). (k, 1 :: int)) shares)) = int (length shares)"
    by (induction shares) auto
  ultimately show ?thesis using False enough unfolding sl by (auto simp: comp_def case_prod_unfold)
next
  case True
  define left where "left = budget - int (length shares) + int (length rest)"
  have r: "distinct (map fst rest)" "length rest \<le> 3" "\<forall>(k, w) \<in> set rest. 0 < w" "length rest \<le> length shares"
    using dist pos rest_length [OF dist known] unfolding rest_def by (auto simp: distinct_map_filter)
  have lb: "rest \<noteq> []" "length rest \<le> 15" "int (length rest) \<le> left" "left < 2 ^ 50"
    using True r(2, 4) small by (simp_all add: left_def)
  obtain alloc xs where
    lr: "largest_remainder left rest = Inr alloc" and ka: "map fst alloc = map fst rest"
    and sa: "sum_list (map snd alloc) = left" and ge: "\<forall>k \<in> set (map fst rest). 1 \<le> cget alloc k"
    by (rule largest_remainder_ok [OF r(1) lb(1, 2) r(3) lb(3, 4)])
  define g where "g k = (if k \<in> set (map fst rest) then cget alloc k else 1)" for k
  let ?out = "map (\<lambda>(k, _). (k, 1 :: int)) shares"
  have c: "cget ?out k = 1" if "k \<in> fst ` set shares" for k
    using that dist by (intro cget_in) (auto simp: comp_def case_prod_unfold)
  have gk: "cget (foldl (\<lambda>d (j, n). AList.update j n d) ?out alloc) k = g k" if "k \<in> fst ` set shares" for k
    using that r(1) ka c by (simp add: cget_foldl_update g_def)
  have sl: "split_mix budget shares = Done (map (\<lambda>(k, _). (k, g k)) shares)"
  proof -
    have "map (\<lambda>(k, _). (k, cget (foldl (\<lambda>d (j, n). AList.update j n d) ?out alloc) k)) shares
        = map (\<lambda>(k, _). (k, g k)) shares" using gk by (intro map_cong) force+
    then show ?thesis using True enough lr unfolding split_mix_def Let_def rest_def left_def by simp
  qed
  have in_rest: "k \<in> set (map fst rest) \<longleftrightarrow> k \<notin> set MIX_FIXED" if "(k, w) \<in> set shares" for k w
    using that unfolding rest_def by force
  have "sum_list (map (\<lambda>(k, w). g k) shares)
      = sum_list (map (\<lambda>(k, w). g k) rest) + sum_list (map (\<lambda>(k, w). g k) (filter (\<lambda>x. \<not> (case x of (k, w) \<Rightarrow> k \<notin> set MIX_FIXED)) shares))"
    unfolding rest_def by (rule sum_list_filter_split)
  also have "map (\<lambda>(k, w). g k) rest = map (cget alloc) (map fst alloc)"
    unfolding ka by (auto simp: g_def comp_def case_prod_unfold intro!: map_cong)
  also have "sum_list (map (cget alloc) (map fst alloc)) = left"
    using map_cget [of alloc] r(1) sa unfolding ka [symmetric] by (simp only:)
  also have "sum_list (map (\<lambda>(k, w). g k) (filter (\<lambda>x. \<not> (case x of (k, w) \<Rightarrow> k \<notin> set MIX_FIXED)) shares))
      = int (length shares) - int (length rest)"
  proof -
    have "g k = 1" if "(k, w) \<in> set shares" "k \<in> set MIX_FIXED" for k w
      using in_rest [OF that(1)] that(2) by (simp add: g_def)
    then show ?thesis using sum_length_filter_compl [of "\<lambda>(k, w). k \<notin> set MIX_FIXED" shares]
      unfolding rest_def by (subst sum_list_ones) auto
  qed
  finally have "sum_list (map (\<lambda>(k, w). g k) shares) = budget" by (simp add: left_def)
  moreover have "1 \<le> g k \<and> (k \<in> set MIX_FIXED \<longrightarrow> g k = 1)" if "(k, w) \<in> set shares" for k w
    using in_rest [OF that] bspec [OF ge, of k] by (cases "k \<in> set (map fst rest)") (simp_all add: g_def)
  ultimately show ?thesis unfolding sl using True
    by (auto simp: comp_def case_prod_unfold)
qed

section \<open>Reading \<open>VORTEX_MIX\<close>\<close>

lemma scan_digits_all:
  "list_all is_adigit v \<Longrightarrow> v \<noteq> [] \<or> pd \<Longrightarrow> \<exists>n. scan_digits pd a k v = Some (n, k + length v, [])"
proof (induction v arbitrary: pd a k)
  case (Cons c v)
  then show ?case using Cons.IH [of True "10 * a + (c - 48)" "Suc k"] by simp
qed simp

lemma length_strip_on_le: "length (strip_on P xs) \<le> length xs"
proof -
  have "length (strip_on P xs) \<le> length (dropWhile P xs)"
    using length_dropWhile_le [of P "rev (dropWhile P xs)"] by (simp add: strip_on_def)
  then show ?thesis using length_dropWhile_le [of P xs] by linarith
qed

lemma length_partition_on_le: "partition_on c xs = (a, e, b) \<Longrightarrow> length b \<le> length xs"
  using length_dropWhile_le [of "\<lambda>x. x \<noteq> c" xs] by (auto simp: partition_on_def)

lemma length_split_on_le: "l \<in> set (split_on c xs) \<Longrightarrow> length l \<le> length xs"
proof (induction xs arbitrary: l)
  case (Cons x xs)
  obtain k ks where "split_on c xs = k # ks" by (cases "split_on c xs") auto
  with Cons show ?case by (fastforce split: if_splits)
qed simp

lemma py_int_digits:
  assumes "list_all is_adigit v" and "v \<noteq> []"
  shows "(\<exists>n. py_int v = Inr (int n) \<and> length v \<le> int_max_str_digits) \<or>
    (py_int v = Inl ValueError \<and> int_max_str_digits < length v)"
proof -
  obtain c r where v: "v = c # r" using assms(2) by (cases v) auto
  with assms(1) have c: "is_adigit c" by simp
  have "split_sign (dropWhile aspace v) = (False, v)"
    using c by (simp add: v split_sign_def aspace_def is_adigit_def)
  moreover obtain n where "scan_digits False 0 0 v = Some (n, length v, [])"
    using scan_digits_all [of v False 0 0] assms by auto
  moreover have "list_all (\<lambda>c. c < 128) v" using assms(1) by (auto simp: list_all_iff is_adigit_def)
  ultimately show ?thesis by (auto simp: py_int_def int_of_ascii_def)
qed

lemma list_all_update: "list_all P m \<Longrightarrow> P (k, v) \<Longrightarrow> list_all P (AList.update k v m)"
  by (induction m) auto

lemma parse_items_cases:
  "list_all (\<lambda>(k, w). 0 \<le> w) share \<Longrightarrow>
   (\<exists>share'. parse_items items share seen = Done share' \<and> map fst share' = map fst share \<and>
      list_all (\<lambda>(k, w). 0 \<le> w) share') \<or>
   parse_items items share seen = Raised (SystemExit 2) \<or>
   (parse_items items share seen = Raised (PyErr ValueError) \<and>
    (\<exists>item \<in> set items. int_max_str_digits < length item))"
proof (induction items arbitrary: share seen)
  case Nil
  then show ?case by simp
next
  case (Cons item items)
  let ?it = "py_strip item"
  obtain k0 eq v0 where part: "partition_on 61 ?it = (k0, eq, v0)" by (cases "partition_on 61 ?it") auto
  let ?k = "py_strip k0" and ?v = "py_strip v0"
  show ?case
  proof (cases "?it \<noteq> [] \<and> eq \<and> ?k \<in> fst ` set share \<and> ?k \<notin> set seen \<and> ?v \<noteq> [] \<and> list_all is_adigit ?v")
    case False
    then show ?thesis using Cons.IH [OF Cons.prems, of seen] by (auto simp: part mix_fail_def Let_def)
  next
    case True
    then have step: "parse_items (item # items) share seen
        = abind (of_result (py_int ?v)) (\<lambda>n. parse_items items (AList.update ?k n share) (?k # seen))"
      by (simp add: part Let_def)
    have "length ?v \<le> length item"
      using length_strip_on_le [of uspace v0] length_partition_on_le [OF part] length_strip_on_le [of uspace item]
      unfolding py_strip_def by linarith
    from True py_int_digits [of ?v]
    consider n where "py_int ?v = Inr (int n)" | "py_int ?v = Inl ValueError" "int_max_str_digits < length ?v"
      by blast
    then show ?thesis
    proof cases
      case 1
      let ?s = "AList.update ?k (int n) share"
      have keys: "map fst ?s = map fst share" using True by (intro map_fst_update_in) simp
      have "list_all (\<lambda>(k, w). 0 \<le> w) ?s" using Cons.prems by (simp add: list_all_update)
      from Cons.IH [OF this, of "?k # seen"] show ?thesis unfolding step 1 keys by auto
    next
      case 2
      with \<open>length ?v \<le> length item\<close> show ?thesis unfolding step by simp
    qed
  qed
qed

lemma parse_mix_cases:
  "(\<exists>out. parse_mix raw = Done out \<and> out \<noteq> [] \<and> distinct (map fst out) \<and>
      fst ` set out \<subseteq> fst ` set MIX_DEFAULT \<and> (\<forall>(k, w) \<in> set out. 0 < w)) \<or>
   parse_mix raw = Raised (SystemExit 2) \<or>
   (parse_mix raw = Raised (PyErr ValueError) \<and> int_max_str_digits < length raw)"
proof -
  let ?items = "split_on 44 (py_strip raw)"
  let ?out = "\<lambda>share. filter (\<lambda>(k, w). 0 < w) (map (\<lambda>(k, _). (k, the (map_of share k))) MIX_DEFAULT)"
  have "list_all (\<lambda>(k, w). 0 \<le> w) MIX_DEFAULT" by (simp add: MIX_DEFAULT_def)
  from parse_items_cases [OF this, of ?items "[]"]
  consider share where "parse_items ?items MIX_DEFAULT [] = Done share"
    | "parse_items ?items MIX_DEFAULT [] = Raised (SystemExit 2)"
    | item where "parse_items ?items MIX_DEFAULT [] = Raised (PyErr ValueError)" "item \<in> set ?items"
      "int_max_str_digits < length item"
    by blast
  then show ?thesis
  proof cases
    case 1
    have "distinct (map fst (map (\<lambda>(k, _). (k, the (map_of share k))) MIX_DEFAULT))"
      by (simp add: MIX_DEFAULT_def)
    then have "distinct (map fst (?out share))" by (rule distinct_map_filter)
    moreover have "fst ` set (?out share) \<subseteq> fst ` set MIX_DEFAULT" by force
    ultimately show ?thesis using 1 by (auto simp: parse_mix_def mix_fail_def Let_def)
  next
    case 2
    then show ?thesis by (simp add: parse_mix_def)
  next
    case 3
    have "length item \<le> length raw"
      using length_split_on_le [OF 3(2)] length_strip_on_le [of uspace raw] unfolding py_strip_def by linarith
    with 3 show ?thesis by (simp add: parse_mix_def)
  qed
qed

text \<open>Printing a mix and reading it back.\<close>

definition render_entry :: "pystr \<times> nat \<Rightarrow> pystr" where
  "render_entry kn = (case kn of (k, n) \<Rightarrow> k @ [61] @ dec n)"

definition render_mix :: "(pystr \<times> nat) list \<Rightarrow> pystr" where
  "render_mix kns = join_on [44] (map render_entry kns)"

lemma split_join_on:
  "xs \<noteq> [] \<Longrightarrow> \<forall>x \<in> set xs. c \<notin> set x \<Longrightarrow> split_on c (join_on [c] xs) = xs"
  by (induction "[c]" xs rule: join_on.induct) (simp_all add: split_on_single split_on_append_sep)

lemma mix_name_chars:
  assumes "k \<in> fst ` set MIX_DEFAULT"
  shows "k \<noteq> []" and "\<forall>c \<in> set k. 97 \<le> c \<and> c \<le> 122"
  using assms by (auto simp: MIX_DEFAULT_def ustr_def)

lemma py_strip_id: "xs = [] \<or> \<not> uspace (hd xs) \<and> \<not> uspace (last xs) \<Longrightarrow> py_strip xs = xs"
  unfolding py_strip_def by (rule strip_on_id)

lemma dec_not_space: "c \<in> set (dec n) \<Longrightarrow> \<not> uspace c \<and> c \<noteq> 44 \<and> c \<noteq> 61"
  using dec_adigit [of c n] by (auto simp: is_adigit_def uspace_def)

lemma name_not_space:
  assumes "k \<in> fst ` set MIX_DEFAULT" and "c \<in> set k"
  shows "\<not> uspace c \<and> c \<noteq> 44 \<and> c \<noteq> 61"
  using mix_name_chars(2) [OF assms(1)] assms(2) by (auto simp: uspace_def)

lemma render_entry_chars:
  assumes "k \<in> fst ` set MIX_DEFAULT"
  shows "render_entry (k, n) \<noteq> []" and "44 \<notin> set (render_entry (k, n))"
    and "\<not> uspace (hd (render_entry (k, n)))" and "\<not> uspace (last (render_entry (k, n)))"
    and "partition_on 61 (render_entry (k, n)) = (k, True, dec n)"
    and "py_strip k = k" and "py_strip (dec n) = dec n" and "py_strip (render_entry (k, n)) = render_entry (k, n)"
proof -
  note k = mix_name_chars [OF assms] and nk = name_not_space [OF assms]
  show "render_entry (k, n) \<noteq> []" by (simp add: render_entry_def)
  show "44 \<notin> set (render_entry (k, n))" using nk dec_not_space by (auto simp: render_entry_def)
  show h: "\<not> uspace (hd (render_entry (k, n)))" using nk [of "hd k"] k(1) by (simp add: render_entry_def)
  show l: "\<not> uspace (last (render_entry (k, n)))"
    using dec_not_space [of "last (dec n)" n] by (simp add: render_entry_def)
  show "partition_on 61 (render_entry (k, n)) = (k, True, dec n)"
    using nk by (auto simp: render_entry_def intro!: partition_on_append)
  show "py_strip k = k" using nk k(1) by (intro py_strip_id) simp
  show "py_strip (dec n) = dec n" using dec_not_space [of _ n] by (intro py_strip_id) simp
  show "py_strip (render_entry (k, n)) = render_entry (k, n)" using h l by (intro py_strip_id) simp
qed

lemma py_int_dec: "int n < 10 ^ int_max_str_digits \<Longrightarrow> py_int (dec n) = Inr (int n)"
  using py_int_py_str [of "int n"] by (simp add: py_str_def)

lemma parse_items_render:
  "distinct (map fst kns) \<Longrightarrow> \<forall>(k, n) \<in> set kns. k \<in> fst ` set MIX_DEFAULT \<and> int n < 10 ^ int_max_str_digits \<Longrightarrow>
   fst ` set share = fst ` set MIX_DEFAULT \<Longrightarrow> set seen \<inter> fst ` set kns = {} \<Longrightarrow>
   parse_items (map render_entry kns) share seen
   = Done (foldl (\<lambda>d (k, n). AList.update k (int n) d) share kns)"
proof (induction kns arbitrary: share seen)
  case (Cons p kns)
  obtain k n where p: "p = (k, n)" by fastforce
  have k: "k \<in> fst ` set MIX_DEFAULT" "int n < 10 ^ int_max_str_digits" using Cons.prems(2) by (simp_all add: p)
  have d: "list_all is_adigit (dec n)" using dec_adigit by (auto simp: list_all_iff)
  have "fst ` set (AList.update k (int n) share) = fst ` set MIX_DEFAULT"
    using k(1) Cons.prems(3) by (auto simp: dom_update)
  with Cons.IH [of "AList.update k (int n) share" "k # seen"] Cons.prems k d
  show ?case by (simp add: p render_entry_chars [OF k(1)] py_int_dec Let_def)
qed simp

lemma map_of_foldl_update:
  "distinct (map fst kns) \<Longrightarrow>
   map_of (foldl (\<lambda>d (k, n). AList.update k (int n) d) share kns) k
   = (case map_of kns k of None \<Rightarrow> map_of share k | Some n \<Rightarrow> Some (int n))"
proof (induction kns arbitrary: share)
  case (Cons p kns)
  obtain j n where p: "p = (j, n)" by fastforce
  have "map_of kns j = None" using Cons.prems by (simp add: p map_of_eq_None_iff)
  with Cons show ?case by (cases "k = j") (simp_all add: p update_conv' split: option.split)
qed simp

lemma join_on_ends:
  "xs \<noteq> [] \<Longrightarrow> \<forall>x \<in> set xs. x \<noteq> [] \<Longrightarrow> join_on sep xs \<noteq> [] \<and> hd (join_on sep xs) = hd (hd xs) \<and>
   last (join_on sep xs) = last (last xs)"
  by (induction sep xs rule: join_on.induct) auto

lemma parse_items_render_mix:
  assumes "distinct (map fst kns)"
    and "\<forall>(k, n) \<in> set kns. k \<in> fst ` set MIX_DEFAULT \<and> int n < 10 ^ int_max_str_digits"
  shows "parse_items (split_on 44 (py_strip (render_mix kns))) MIX_DEFAULT []
    = Done (foldl (\<lambda>d (k, n). AList.update k (int n) d) MIX_DEFAULT kns)"
proof (cases "kns = []")
  case True
  have "py_strip [] = []" by (rule py_strip_id) simp
  with True show ?thesis by (simp add: render_mix_def)
next
  case False
  let ?es = "map render_entry kns"
  have es: "\<forall>x \<in> set ?es. x \<noteq> [] \<and> 44 \<notin> set x \<and> \<not> uspace (hd x) \<and> \<not> uspace (last x)"
  proof
    fix x assume "x \<in> set ?es"
    then obtain k n where kn: "(k, n) \<in> set kns" "x = render_entry (k, n)" by auto
    with assms(2) have "k \<in> fst ` set MIX_DEFAULT" by blast
    from render_entry_chars(1-4) [OF this] show "x \<noteq> [] \<and> 44 \<notin> set x \<and> \<not> uspace (hd x) \<and> \<not> uspace (last x)"
      unfolding kn(2) by simp
  qed
  from join_on_ends [of ?es "[44]"] es False
  have j: "hd (render_mix kns) = hd (hd ?es)" "last (render_mix kns) = last (last ?es)"
    by (simp_all add: render_mix_def)
  have "py_strip (render_mix kns) = render_mix kns"
  proof (rule py_strip_id)
    have "?es \<noteq> []" using False by simp
    then have "hd ?es \<in> set ?es" "last ?es \<in> set ?es" by (rule hd_in_set, rule last_in_set)
    with es j show "render_mix kns = [] \<or> \<not> uspace (hd (render_mix kns)) \<and> \<not> uspace (last (render_mix kns))"
      by metis
  qed
  moreover have "split_on 44 (render_mix kns) = ?es"
    unfolding render_mix_def using es False by (intro split_join_on) auto
  ultimately show ?thesis using parse_items_render [OF assms, of MIX_DEFAULT "[]"] by simp
qed

section \<open>Properties\<close>


definition mixed_cfg :: config where
  "mixed_cfg = \<lparr>WORKLOAD = ustr ''mixed'', PROTO = ustr ''h2'', SERVER = ustr ''sync'', BASE = [], SECONDS = 60,
     CLIENTS = 3, CONC = 5, STREAM = 1024, REPORT = 60, REQ_COMP = [], RESP_COMP = []\<rparr>"




text \<open>The knob means what it says. A mix printed as \<open>name=weight\<close> entries, for any distinct known
  names in any order, is read back as those weights, with the defaults for the names left out and
  the zero weights dropped; if nothing is left, exit 2.\<close>

theorem mix_knob_roundtrip:
  assumes "distinct (map fst kns)"
    and "\<forall>(k, n) \<in> set kns. k \<in> fst ` set MIX_DEFAULT \<and> int n < 10 ^ int_max_str_digits"
  shows "parse_mix (render_mix kns) =
    (let out = filter (\<lambda>(k, w). 0 < w)
       (map (\<lambda>(k, d). (k, case map_of kns k of Some n \<Rightarrow> int n | None \<Rightarrow> d)) MIX_DEFAULT)
     in if out = [] then Raised (SystemExit 2) else Done out)"
proof -
  have "map (\<lambda>(k, _). (k, the (map_of (foldl (\<lambda>d (k, n). AList.update k (int n) d) MIX_DEFAULT kns) k))) MIX_DEFAULT
      = map (\<lambda>(k, d). (k, case map_of kns k of Some n \<Rightarrow> int n | None \<Rightarrow> d)) MIX_DEFAULT"
    unfolding map_of_foldl_update [OF assms(1)]
    by (simp add: MIX_DEFAULT_def split: option.split)
  then show ?thesis
    unfolding parse_mix_def parse_items_render_mix [OF assms] mix_fail_def abind_simps by (simp only:)
qed

theorem mix_knob_roundtrip_witness:
  "parse_mix (ustr ''sse=0,requests=7'') = Done [(ustr ''requests'', 7), (ustr ''ws'', 20),
     (ustr ''streamupload'', 10), (ustr ''streamdownload'', 10)]"
proof -
  have "(10 :: int) ^ 1 \<le> 10 ^ int_max_str_digits"
    by (rule power_increasing) (simp_all add: int_max_str_digits_def)
  then have "int k < 10 ^ int_max_str_digits" if "k < 10" for k
    using that unfolding power_one_right by linarith
  then have "\<forall>(k, n) \<in> set [(ustr ''sse'', 0), (ustr ''requests'', 7)].
      k \<in> fst ` set MIX_DEFAULT \<and> int n < 10 ^ int_max_str_digits"
    by (auto simp: MIX_DEFAULT_def)
  then have "parse_mix (render_mix [(ustr ''sse'', 0), (ustr ''requests'', 7)])
      = Done [(ustr ''requests'', 7), (ustr ''ws'', 20), (ustr ''streamupload'', 10), (ustr ''streamdownload'', 10)]"
    by (subst mix_knob_roundtrip) (simp_all add: MIX_DEFAULT_def)
  moreover have "render_mix [(ustr ''sse'', 0), (ustr ''requests'', 7)] = ustr ''sse=0,requests=7''" by code_simp
  ultimately show ?thesis by simp
qed

end
