(* ===== verification/Py_Async.thy ===== *)
theory Py_Async
  imports Py_Exn Py_Float
begin

text \<open>
  The coroutines of the workloads as functions on an explicit world: the readings
  \<open>time.monotonic()\<close> will give (a list, consumed one by one), the state of what is outside
  the process (an arbitrary type), and the trace of what happened so far. A coroutine
  returns, raises, or is still waiting; when the clock list is used up nothing further
  has been observed, so the coroutine waits. Loops carry fuel equal to the number of
  readings left plus one, and every turn of a loop consumes a reading, so the fuel never
  runs out first (\<open>until_fuel\<close>).
\<close>

section \<open>The world and the combinators\<close>

record ('s, 'e) world =
  clk :: "pyfloat list"
  ext :: 's
  trace :: "'e list"

type_synonym ('s, 'e, 'a) coro = "('s, 'e) world \<Rightarrow> 'a await \<times> ('s, 'e) world"

definition creturn :: "'a \<Rightarrow> ('s, 'e, 'a) coro" where
  "creturn a w = (Done a, w)"

definition craise :: "exn \<Rightarrow> ('s, 'e, 'a) coro" where
  "craise e w = (Raised e, w)"

definition cbind :: "('s, 'e, 'a) coro \<Rightarrow> ('a \<Rightarrow> ('s, 'e, 'b) coro) \<Rightarrow> ('s, 'e, 'b) coro" where
  "cbind m f w =
     (case m w of
        (Done a, w') \<Rightarrow> f a w'
      | (Raised e, w') \<Rightarrow> (Raised e, w')
      | (Waiting, w') \<Rightarrow> (Waiting, w'))"

text \<open>\<open>try: m / except ... as e: h e\<close>; a handler that re-raises is \<open>h e = craise e\<close>.\<close>

definition ctry :: "('s, 'e, 'a) coro \<Rightarrow> (exn \<Rightarrow> ('s, 'e, 'a) coro) \<Rightarrow> ('s, 'e, 'a) coro" where
  "ctry m h w = (case m w of (Raised e, w') \<Rightarrow> h e w' | r \<Rightarrow> r)"

text \<open>\<open>async with\<close>: the exit runs however the body ended, and an exception it raises replaces the
  body's outcome.\<close>

definition cwith ::
  "('s, 'e, unit) coro \<Rightarrow> ('s, 'e, unit) coro \<Rightarrow> ('s, 'e, 'a) coro \<Rightarrow> ('s, 'e, 'a) coro" where
  "cwith enter exit body =
     cbind enter (\<lambda>_ w.
       case body w of
         (Waiting, w') \<Rightarrow> (Waiting, w')
       | (r, w') \<Rightarrow>
           (case exit w' of
              (Done _, w'') \<Rightarrow> (r, w'')
            | (Raised e, w'') \<Rightarrow> (Raised e, w'')
            | (Waiting, w'') \<Rightarrow> (Waiting, w'')))"

definition monotonic :: "('s, 'e, pyfloat) coro" where
  "monotonic w = (case clk w of [] \<Rightarrow> (Waiting, w) | t # ts \<Rightarrow> (Done t, w\<lparr>clk := ts\<rparr>))"

definition tell :: "'e \<Rightarrow> ('s, 'e, unit) coro" where
  "tell e w = (Done (), w\<lparr>trace := trace w @ [e]\<rparr>)"

text \<open>A call to the outside; \<open>note\<close> says what of its result the trace keeps.\<close>

definition ccall :: "('s \<Rightarrow> 'a await \<times> 's) \<Rightarrow> ('a \<Rightarrow> 'e list) \<Rightarrow> ('s, 'e, 'a) coro" where
  "ccall f note w =
     (let (r, s') = f (ext w)
      in (r, w\<lparr>ext := s', trace := trace w @ (case r of Done a \<Rightarrow> note a | _ \<Rightarrow> [])\<rparr>))"

definition cwait :: "('s, 'e, 'a) coro" where
  "cwait w = (Waiting, w)"

definition of_await :: "'a await \<Rightarrow> ('s, 'e, 'a) coro" where
  "of_await r w = (r, w)"

text \<open>A value the outside supplies without being awaited.\<close>

definition draw :: "('s \<Rightarrow> 'a \<times> 's) \<Rightarrow> ('s, 'e, 'a) coro" where
  "draw f = ccall (\<lambda>s. let (v, s') = f s in (Done v, s')) (\<lambda>_. [])"

text \<open>How a coroutine ended, as a value; \<open>except Exception: pass\<close>; \<open>try/finally\<close>.\<close>

definition csettle :: "('s, 'e, 'a) coro \<Rightarrow> ('s, 'e, exn + 'a) coro" where
  "csettle m = ctry (cbind m (\<lambda>a. creturn (Inr a))) (\<lambda>e. creturn (Inl e))"

definition swallow :: "('s, 'e, unit) coro \<Rightarrow> ('s, 'e, unit) coro" where
  "swallow m = ctry m (\<lambda>e. if is_Exception e then creturn () else craise e)"

definition cfinally :: "('s, 'e, 'a) coro \<Rightarrow> ('s, 'e, unit) coro \<Rightarrow> ('s, 'e, 'a) coro" where
  "cfinally body exit = cwith (creturn ()) exit body"

fun cseq :: "'x list \<Rightarrow> ('x \<Rightarrow> ('s, 'e, unit) coro) \<Rightarrow> ('s, 'e, unit) coro" where
  "cseq [] f = creturn ()"
| "cseq (x # xs) f = cbind (f x) (\<lambda>_. cseq xs f)"

text \<open>\<open>while g(k) and time.monotonic() < deadline: k = body(k)\<close>, and the loop without the guard.\<close>

fun until_fuel ::
  "nat \<Rightarrow> pyfloat \<Rightarrow> ('k \<Rightarrow> bool) \<Rightarrow> ('k \<Rightarrow> ('s, 'e, 'k) coro) \<Rightarrow> 'k \<Rightarrow> ('s, 'e, 'k) coro" where
  "until_fuel 0 deadline g body k w = (Waiting, w)"
| "until_fuel (Suc n) deadline g body k w =
     (if g k then
        cbind monotonic (\<lambda>t. if t < deadline then cbind (body k) (until_fuel n deadline g body) else creturn k) w
      else creturn k w)"

definition guarded_until ::
  "pyfloat \<Rightarrow> ('k \<Rightarrow> bool) \<Rightarrow> ('k \<Rightarrow> ('s, 'e, 'k) coro) \<Rightarrow> 'k \<Rightarrow> ('s, 'e, 'k) coro" where
  "guarded_until deadline g body k w = until_fuel (Suc (length (clk w))) deadline g body k w"

definition until_deadline ::
  "pyfloat \<Rightarrow> ('k \<Rightarrow> ('s, 'e, 'k) coro) \<Rightarrow> 'k \<Rightarrow> ('s, 'e, 'k) coro" where
  "until_deadline deadline = guarded_until deadline (\<lambda>_. True)"

section \<open>Rules\<close>

named_theorems coro_simps \<open>evaluation rules of the coroutine combinators\<close>

lemma coro_eval [coro_simps]:
  "creturn a w = (Done a, w)"
  "craise e w = (Raised e, w)"
  "tell ev w = (Done (), w\<lparr>trace := trace w @ [ev]\<rparr>)"
  by (simp_all add: creturn_def craise_def tell_def)

lemma cbind_eval:
  "m w = (Done a, w') \<Longrightarrow> cbind m f w = f a w'"
  "m w = (Raised e, w') \<Longrightarrow> cbind m f w = (Raised e, w')"
  "m w = (Waiting, w') \<Longrightarrow> cbind m f w = (Waiting, w')"
  by (simp_all add: cbind_def)

lemma cbind_creturn [coro_simps]: "cbind (creturn a) f w = f a w"
  by (simp add: cbind_def creturn_def)

lemma cbind_creturn_left: "cbind (creturn a) f = f a"
  by (rule ext) (simp add: cbind_creturn)

lemma cbind_craise [coro_simps]: "cbind (craise e) f w = (Raised e, w)"
  by (simp add: cbind_def craise_def)

lemma cbind_tell [coro_simps]: "cbind (tell ev) f w = f () (w\<lparr>trace := trace w @ [ev]\<rparr>)"
  by (simp add: cbind_def tell_def)

lemma cbind_monotonic [coro_simps]:
  "cbind monotonic f w = (case clk w of [] \<Rightarrow> (Waiting, w) | t # ts \<Rightarrow> f t (w\<lparr>clk := ts\<rparr>))"
  by (simp add: cbind_def monotonic_def split: list.split)

lemma cbind_assoc: "cbind (cbind m f) g = cbind m (\<lambda>a. cbind (f a) g)"
  by (rule ext) (auto simp: cbind_def split: prod.split await.split)

text \<open>
  What a coroutine may do to the world: a run of \<open>m\<close> from any world only drops clock
  readings and only adds to the trace, and what it adds satisfies \<open>P\<close>, which also sees
  the outcome.
\<close>

definition runs :: "('s, 'e, 'a) coro \<Rightarrow> ('a await \<Rightarrow> 'e list \<Rightarrow> bool) \<Rightarrow> bool" where
  "runs m P \<longleftrightarrow> (\<forall>w r w'. m w = (r, w') \<longrightarrow>
     length (clk w') \<le> length (clk w) \<and> (\<exists>l. trace w' = trace w @ l \<and> P r l))"

named_theorems runs_intro \<open>introduction rules for runs\<close>

lemma runsD:
  assumes "runs m P" and "m w = (r, w')"
  obtains l where "trace w' = trace w @ l" and "P r l" and "length (clk w') \<le> length (clk w)"
  using assms unfolding runs_def by blast

lemma runs_mono: "runs m P \<Longrightarrow> (\<And>r l. P r l \<Longrightarrow> Q r l) \<Longrightarrow> runs m Q"
  unfolding runs_def by blast

lemma runs_creturn: "P (Done a) [] \<Longrightarrow> runs (creturn a) P"
  by (simp add: runs_def creturn_def)

lemma runs_craise: "P (Raised e) [] \<Longrightarrow> runs (craise e) P"
  by (simp add: runs_def craise_def)

lemma runs_tell: "P (Done ()) [ev] \<Longrightarrow> runs (tell ev) P"
  by (simp add: runs_def tell_def)

lemma runs_monotonic: "(\<And>t. P (Done t) []) \<Longrightarrow> P Waiting [] \<Longrightarrow> runs monotonic P"
  by (auto simp: runs_def monotonic_def split: list.splits)

lemma runs_ccall:
  "(\<And>a. P (Done a) (note a)) \<Longrightarrow> (\<And>e. P (Raised e) []) \<Longrightarrow> P Waiting [] \<Longrightarrow> runs (ccall f note) P"
  by (auto simp: runs_def ccall_def case_prod_unfold Let_def split: await.splits)

lemma runs_cbind:
  assumes "runs m Q" and "\<And>a. runs (f a) (R a)"
    and "\<And>a r l1 l2. Q (Done a) l1 \<Longrightarrow> R a r l2 \<Longrightarrow> P r (l1 @ l2)"
    and "\<And>e l. Q (Raised e) l \<Longrightarrow> P (Raised e) l" and "\<And>l. Q Waiting l \<Longrightarrow> P Waiting l"
  shows "runs (cbind m f) P"
  unfolding runs_def
proof (intro allI impI)
  fix w r w' assume b: "cbind m f w = (r, w')"
  obtain r1 w1 where m: "m w = (r1, w1)" by fastforce
  from runsD [OF assms(1) m] obtain l1 where
    l1: "trace w1 = trace w @ l1" "Q r1 l1" "length (clk w1) \<le> length (clk w)" by blast
  show "length (clk w') \<le> length (clk w) \<and> (\<exists>l. trace w' = trace w @ l \<and> P r l)"
  proof (cases r1)
    case (Done a)
    with b m have "f a w1 = (r, w')" by (simp add: cbind_def)
    from runsD [OF assms(2) this] l1 assms(3) Done show ?thesis by fastforce
  qed (use b m l1 assms(4, 5) in \<open>auto simp: cbind_def\<close>)
qed

lemma runs_ctry:
  assumes "runs m Q" and "\<And>e. runs (h e) (R e)"
    and "\<And>e r l1 l2. Q (Raised e) l1 \<Longrightarrow> R e r l2 \<Longrightarrow> P r (l1 @ l2)"
    and "\<And>a l. Q (Done a) l \<Longrightarrow> P (Done a) l" and "\<And>l. Q Waiting l \<Longrightarrow> P Waiting l"
  shows "runs (ctry m h) P"
  unfolding runs_def
proof (intro allI impI)
  fix w r w' assume b: "ctry m h w = (r, w')"
  obtain r1 w1 where m: "m w = (r1, w1)" by fastforce
  from runsD [OF assms(1) m] obtain l1 where
    l1: "trace w1 = trace w @ l1" "Q r1 l1" "length (clk w1) \<le> length (clk w)" by blast
  show "length (clk w') \<le> length (clk w) \<and> (\<exists>l. trace w' = trace w @ l \<and> P r l)"
  proof (cases r1)
    case (Raised e)
    with b m have "h e w1 = (r, w')" by (simp add: ctry_def)
    from runsD [OF assms(2) this] l1 assms(3) Raised show ?thesis by fastforce
  qed (use b m l1 assms(4, 5) in \<open>auto simp: ctry_def\<close>)
qed

lemma runs_cwait: "P Waiting [] \<Longrightarrow> runs cwait P"
  by (simp add: runs_def cwait_def)

lemma runs_of_await: "P r [] \<Longrightarrow> runs (of_await r) P"
  by (simp add: runs_def of_await_def)

lemma runs_cwith:
  assumes E: "runs enter E" and B: "runs body B" and X: "runs exit X"
    and ended: "\<And>r l0 l1 l2. E (Done ()) l0 \<Longrightarrow> B r l1 \<Longrightarrow> r \<noteq> Waiting \<Longrightarrow> X (Done ()) l2 \<Longrightarrow> P r (l0 @ l1 @ l2)"
    and raised: "\<And>r l0 l1 l2 e. E (Done ()) l0 \<Longrightarrow> B r l1 \<Longrightarrow> r \<noteq> Waiting \<Longrightarrow> X (Raised e) l2 \<Longrightarrow> P (Raised e) (l0 @ l1 @ l2)"
    and waits: "\<And>r l0 l1 l2. E (Done ()) l0 \<Longrightarrow> B r l1 \<Longrightarrow> r \<noteq> Waiting \<Longrightarrow> X Waiting l2 \<Longrightarrow> P Waiting (l0 @ l1 @ l2)"
    and stuck: "\<And>l0 l1. E (Done ()) l0 \<Longrightarrow> B Waiting l1 \<Longrightarrow> P Waiting (l0 @ l1)"
    and early: "\<And>l0 e. E (Raised e) l0 \<Longrightarrow> P (Raised e) l0" "\<And>l0. E Waiting l0 \<Longrightarrow> P Waiting l0"
  shows "runs (cwith enter exit body) P"
  unfolding cwith_def
proof (rule runs_cbind [where R = "\<lambda>u r l. (r = Waiting \<and> B Waiting l) \<or>
    (\<exists>r1 l1 l2. r1 \<noteq> Waiting \<and> l = l1 @ l2 \<and> B r1 l1 \<and>
      (X (Done ()) l2 \<and> r = r1 \<or> (\<exists>e. X (Raised e) l2 \<and> r = Raised e) \<or> X Waiting l2 \<and> r = Waiting))", OF E])
  fix u
  show "runs (\<lambda>w. case body w of (Waiting, w') \<Rightarrow> (Waiting, w')
       | (r, w') \<Rightarrow> (case exit w' of (Done _, w'') \<Rightarrow> (r, w'')
            | (Raised e, w'') \<Rightarrow> (Raised e, w'') | (Waiting, w'') \<Rightarrow> (Waiting, w''))) (\<lambda>r l. (r = Waiting \<and> B Waiting l) \<or>
    (\<exists>r1 l1 l2. r1 \<noteq> Waiting \<and> l = l1 @ l2 \<and> B r1 l1 \<and>
      (X (Done ()) l2 \<and> r = r1 \<or> (\<exists>e. X (Raised e) l2 \<and> r = Raised e) \<or> X Waiting l2 \<and> r = Waiting)))" (is "runs ?m ?P")
    unfolding runs_def
  proof (intro allI impI)
    fix w r w' assume m: "?m w = (r, w')"
    obtain r1 w1 where 1: "body w = (r1, w1)" by fastforce
    obtain r2 w2 where 2: "exit w1 = (r2, w2)" by fastforce
    from runsD [OF B 1] obtain l1 where l1: "trace w1 = trace w @ l1" "B r1 l1" "length (clk w1) \<le> length (clk w)" .
    from runsD [OF X 2] obtain l2 where l2: "trace w2 = trace w1 @ l2" "X r2 l2" "length (clk w2) \<le> length (clk w1)" .
    show "length (clk w') \<le> length (clk w) \<and> (\<exists>l. trace w' = trace w @ l \<and> ?P r l)"
    proof (cases "r1 = Waiting")
      case True
      then show ?thesis using m 1 l1 by (intro conjI exI [of _ l1]) auto
    next
      case False
      then have h: "w' = w2 \<and> (r2 = Done () \<and> r = r1 \<or> (\<exists>e. r2 = Raised e \<and> r = Raised e) \<or> r2 = Waiting \<and> r = Waiting)"
        using m 1 2 by (cases r1; cases r2) auto
      have "?P r (l1 @ l2)" using l1(2) l2(2) False h by blast
      then show ?thesis using l1 l2 h by auto
    qed
  qed
qed (use ended raised waits stuck early in auto)

text \<open>Trace predicates that do not look at the outcome and are closed under append.\<close>

definition trace_closed :: "('e list \<Rightarrow> bool) \<Rightarrow> bool" where
  "trace_closed P \<longleftrightarrow> P [] \<and> (\<forall>xs ys. P xs \<longrightarrow> P ys \<longrightarrow> P (xs @ ys))"

abbreviation adds :: "('s, 'e, 'a) coro \<Rightarrow> ('e list \<Rightarrow> bool) \<Rightarrow> bool" where
  "adds m P \<equiv> runs m (\<lambda>_. P)"

lemma adds_cbind:
  "trace_closed P \<Longrightarrow> adds m P \<Longrightarrow> (\<And>a. adds (f a) P) \<Longrightarrow> adds (cbind m f) P"
  by (rule runs_cbind [where Q = "\<lambda>_. P" and R = "\<lambda>_ _. P"]) (auto simp: trace_closed_def)

lemma adds_ctry:
  "trace_closed P \<Longrightarrow> adds m P \<Longrightarrow> (\<And>e. adds (h e) P) \<Longrightarrow> adds (ctry m h) P"
  by (rule runs_ctry [where Q = "\<lambda>_. P" and R = "\<lambda>_ _. P"]) (auto simp: trace_closed_def)

lemma adds_cwith:
  assumes P: "trace_closed P" and "adds enter P" and ex: "adds exit P" and b: "adds body P"
  shows "adds (cwith enter exit body) P"
  unfolding cwith_def
proof (rule adds_cbind [OF P assms(2)])
  fix a
  show "adds (\<lambda>w. case body w of (Waiting, w') \<Rightarrow> (Waiting, w')
       | (r, w') \<Rightarrow> (case exit w' of (Done _, w'') \<Rightarrow> (r, w'')
            | (Raised e, w'') \<Rightarrow> (Raised e, w'') | (Waiting, w'') \<Rightarrow> (Waiting, w''))) P" (is "adds ?m P")
    unfolding runs_def
  proof (intro allI impI)
    fix w r w' assume m: "?m w = (r, w')"
    obtain r1 w1 where 1: "body w = (r1, w1)" by fastforce
    obtain r2 w2 where 2: "exit w1 = (r2, w2)" by fastforce
    from runsD [OF b 1] obtain l1 where l1: "trace w1 = trace w @ l1" "P l1" "length (clk w1) \<le> length (clk w)" .
    from runsD [OF ex 2] obtain l2 where l2: "trace w2 = trace w1 @ l2" "P l2" "length (clk w2) \<le> length (clk w1)" .
    from m 1 2 have "w' = w1 \<or> w' = w2" by (cases r1; cases r2) auto
    with l1 l2 P show "length (clk w') \<le> length (clk w) \<and> (\<exists>l. trace w' = trace w @ l \<and> P l)"
      unfolding trace_closed_def by (metis append.assoc order_trans)
  qed
qed

lemma adds_cseq: "trace_closed P \<Longrightarrow> (\<And>x. x \<in> set xs \<Longrightarrow> adds (f x) P) \<Longrightarrow> adds (cseq xs f) P"
proof (induction xs)
  case Nil
  then show ?case by (auto intro!: runs_creturn simp: trace_closed_def)
next
  case (Cons x xs)
  then show ?case by (auto intro!: adds_cbind)
qed

lemma adds_until_fuel:
  "trace_closed P \<Longrightarrow> (\<And>k. adds (body k) P) \<Longrightarrow> adds (until_fuel n dl g body k) P"
proof (induction n arbitrary: k)
  case 0
  then show ?case by (simp add: runs_def trace_closed_def)
next
  case (Suc n)
  have eq: "until_fuel (Suc n) dl g body k =
      (if g k then cbind monotonic (\<lambda>t. if t < dl then cbind (body k) (until_fuel n dl g body) else creturn k)
       else creturn k)" by (rule ext) simp
  have nil: "P []" using Suc.prems(1) by (simp add: trace_closed_def)
  show ?case unfolding eq
    using Suc by (auto intro!: adds_cbind runs_monotonic runs_creturn simp: nil)
qed

lemma adds_guarded_until:
  "trace_closed P \<Longrightarrow> (\<And>k. adds (body k) P) \<Longrightarrow> adds (guarded_until dl g body k) P"
  using adds_until_fuel [of P body _ dl g k] unfolding runs_def guarded_until_def by blast

lemma adds_until_deadline:
  "trace_closed P \<Longrightarrow> (\<And>k. adds (body k) P) \<Longrightarrow> adds (until_deadline dl body k) P"
  unfolding until_deadline_def by (rule adds_guarded_until)

lemma adds_Nil: "trace_closed P \<Longrightarrow> P []"
  by (simp add: trace_closed_def)

lemma adds_basic:
  assumes "trace_closed P"
  shows "adds (creturn a) P" "adds (craise e) P" "adds monotonic P" "adds cwait P" "adds (of_await r) P"
    "adds (draw f) P" "adds (ccall g (\<lambda>_. [])) P"
  by (auto intro!: runs_creturn runs_craise runs_monotonic runs_cwait runs_of_await runs_ccall
      simp: draw_def adds_Nil [OF assms])

lemma adds_csettle: "trace_closed P \<Longrightarrow> adds m P \<Longrightarrow> adds (csettle m) P"
  unfolding csettle_def by (intro adds_ctry adds_cbind adds_basic)

lemma adds_swallow: "trace_closed P \<Longrightarrow> adds m P \<Longrightarrow> adds (swallow m) P"
  unfolding swallow_def by (auto intro!: adds_ctry adds_basic)

lemma adds_cfinally: "trace_closed P \<Longrightarrow> adds m P \<Longrightarrow> adds f P \<Longrightarrow> adds (cfinally m f) P"
  unfolding cfinally_def by (intro adds_cwith adds_basic)

lemma adds_tell: "P [ev] \<Longrightarrow> adds (tell ev) P"
  by (rule runs_tell)

section \<open>The loop equation\<close>

text \<open>A coroutine that does nothing else to the clock than read it.\<close>

abbreviation tame :: "('s, 'e, 'a) coro \<Rightarrow> bool" where
  "tame m \<equiv> adds m (\<lambda>_. True)"

lemma trace_closed_True [simp]: "trace_closed (\<lambda>_. True)"
  by (simp add: trace_closed_def)

lemma adds_tame: "adds m P \<Longrightarrow> tame m"
  by (rule runs_mono) auto

lemma cbind_cong_run: "(\<And>a w'. m w = (Done a, w') \<Longrightarrow> f a w' = g a w') \<Longrightarrow> cbind m f w = cbind m g w"
  by (auto simp: cbind_def split: prod.split await.split)

lemma until_fuel_step:
  "until_fuel (Suc n) dl g body k w =
    (if g k then
       (case clk w of
          [] \<Rightarrow> (Waiting, w)
        | t # ts \<Rightarrow> if t < dl then cbind (body k) (until_fuel n dl g body) (w\<lparr>clk := ts\<rparr>)
                   else (Done k, w\<lparr>clk := ts\<rparr>))
     else (Done k, w))"
  by (simp add: cbind_monotonic creturn_def split: list.split)

declare until_fuel.simps [simp del]

lemma until_fuel_enough:
  assumes "\<And>k. tame (body k)"
  shows "length (clk w) < n \<Longrightarrow> length (clk w) < m \<Longrightarrow>
    until_fuel n dl g body k w = until_fuel m dl g body k w"
proof (induction n arbitrary: m k w)
  case 0
  then show ?case by simp
next
  case (Suc n)
  then obtain m' where m: "m = Suc m'" by (cases m) auto
  have "cbind (body k) (until_fuel n dl g body) (w\<lparr>clk := ts\<rparr>)
      = cbind (body k) (until_fuel m' dl g body) (w\<lparr>clk := ts\<rparr>)" if "clk w = t # ts" for t ts
  proof (rule cbind_cong_run)
    fix a w1 assume "body k (w\<lparr>clk := ts\<rparr>) = (Done a, w1)"
    from runsD [OF assms this] have "length (clk w1) \<le> length ts" by auto
    then show "until_fuel n dl g body a w1 = until_fuel m' dl g body a w1"
      using Suc.prems that m by (intro Suc.IH) auto
  qed
  then show ?case unfolding m until_fuel_step by (simp split: list.split)
qed

lemma guarded_until_eq:
  assumes "\<And>k. tame (body k)"
  shows "guarded_until dl g body k w =
    (if g k then
       (case clk w of
          [] \<Rightarrow> (Waiting, w)
        | t # ts \<Rightarrow> if t < dl then cbind (body k) (guarded_until dl g body) (w\<lparr>clk := ts\<rparr>)
                   else (Done k, w\<lparr>clk := ts\<rparr>))
     else (Done k, w))"
proof -
  have "cbind (body k) (until_fuel (length (clk w)) dl g body) (w\<lparr>clk := ts\<rparr>)
      = cbind (body k) (guarded_until dl g body) (w\<lparr>clk := ts\<rparr>)" if "clk w = t # ts" for t ts
  proof (rule cbind_cong_run)
    fix a w1 assume "body k (w\<lparr>clk := ts\<rparr>) = (Done a, w1)"
    from runsD [OF assms this] have "length (clk w1) \<le> length ts" by auto
    then show "until_fuel (length (clk w)) dl g body a w1 = guarded_until dl g body a w1"
      unfolding guarded_until_def using that by (intro until_fuel_enough [OF assms]) auto
  qed
  then show ?thesis unfolding guarded_until_def [of dl g body k w] until_fuel_step
    by (simp split: list.split)
qed

lemma until_deadline_eq:
  assumes "\<And>k. tame (body k)"
  shows "until_deadline dl body k w =
    (case clk w of
       [] \<Rightarrow> (Waiting, w)
     | t # ts \<Rightarrow> if t < dl then cbind (body k) (until_deadline dl body) (w\<lparr>clk := ts\<rparr>)
                else (Done k, w\<lparr>clk := ts\<rparr>))"
  unfolding until_deadline_def using guarded_until_eq [OF assms, where g = "\<lambda>_. True" and dl = dl and k = k and w = w] by simp

lemma tame_until_deadline: "(\<And>k. tame (body k)) \<Longrightarrow> tame (until_deadline dl body k)"
  by (rule adds_until_deadline) simp_all

section \<open>Assertions about the trace\<close>

text \<open>
  Partial correctness over the whole trace: from a trace satisfying \<open>P\<close>, whatever the clock
  and the outside do, \<open>m\<close> ends with an outcome and a trace satisfying \<open>Q\<close>.
\<close>

definition hoare :: "('e list \<Rightarrow> bool) \<Rightarrow> ('s, 'e, 'a) coro \<Rightarrow> ('a await \<Rightarrow> 'e list \<Rightarrow> bool) \<Rightarrow> bool" where
  "hoare P m Q \<longleftrightarrow> (\<forall>w. P (trace w) \<longrightarrow> (case m w of (r, w') \<Rightarrow> Q r (trace w')))"

lemma hoareD: "hoare P m Q \<Longrightarrow> P (trace w) \<Longrightarrow> m w = (r, w') \<Longrightarrow> Q r (trace w')"
  unfolding hoare_def by fastforce

lemma hoareI: "(\<And>w r w'. m w = (r, w') \<Longrightarrow> P (trace w) \<Longrightarrow> Q r (trace w')) \<Longrightarrow> hoare P m Q"
  unfolding hoare_def by (simp split: prod.split)

lemma hoare_weaken:
  "hoare P m Q \<Longrightarrow> (\<And>t. P' t \<Longrightarrow> P t) \<Longrightarrow> (\<And>r t. Q r t \<Longrightarrow> Q' r t) \<Longrightarrow> hoare P' m Q'"
  unfolding hoare_def by (fastforce split: prod.split)

lemma hoare_creturn: "(\<And>t. P t \<Longrightarrow> Q (Done a) t) \<Longrightarrow> hoare P (creturn a) Q"
  by (simp add: hoare_def creturn_def)

lemma hoare_craise: "(\<And>t. P t \<Longrightarrow> Q (Raised e) t) \<Longrightarrow> hoare P (craise e) Q"
  by (simp add: hoare_def craise_def)

lemma hoare_cwait: "(\<And>t. P t \<Longrightarrow> Q Waiting t) \<Longrightarrow> hoare P cwait Q"
  by (simp add: hoare_def cwait_def)

lemma hoare_of_await: "(\<And>t. P t \<Longrightarrow> Q r t) \<Longrightarrow> hoare P (of_await r) Q"
  by (simp add: hoare_def of_await_def)

lemma hoare_tell: "(\<And>t. P t \<Longrightarrow> Q (Done ()) (t @ [ev])) \<Longrightarrow> hoare P (tell ev) Q"
  by (simp add: hoare_def tell_def)

lemma hoare_monotonic: "(\<And>t c. P t \<Longrightarrow> Q (Done c) t) \<Longrightarrow> (\<And>t. P t \<Longrightarrow> Q Waiting t) \<Longrightarrow> hoare P monotonic Q"
  by (simp add: hoare_def monotonic_def split: list.split)

lemma hoare_ccall:
  "(\<And>t a. P t \<Longrightarrow> Q (Done a) (t @ note a)) \<Longrightarrow> (\<And>t e. P t \<Longrightarrow> Q (Raised e) t) \<Longrightarrow>
   (\<And>t. P t \<Longrightarrow> Q Waiting t) \<Longrightarrow> hoare P (ccall f note) Q"
  by (auto simp: hoare_def ccall_def case_prod_unfold Let_def split: await.split)

lemma hoare_draw: "(\<And>t a. P t \<Longrightarrow> Q (Done a) t) \<Longrightarrow> hoare P (draw f) Q"
  by (auto simp: hoare_def draw_def ccall_def case_prod_unfold Let_def)

lemma hoare_cbind:
  assumes "hoare P m R" and "\<And>a. hoare (R (Done a)) (f a) Q"
    and "\<And>e t. R (Raised e) t \<Longrightarrow> Q (Raised e) t" and "\<And>t. R Waiting t \<Longrightarrow> Q Waiting t"
  shows "hoare P (cbind m f) Q"
proof (rule hoareI)
  fix w r w' assume c: "cbind m f w = (r, w')" and P: "P (trace w)"
  obtain r1 w1 where m: "m w = (r1, w1)" by fastforce
  have R: "R r1 (trace w1)" by (rule hoareD [OF assms(1) P m])
  show "Q r (trace w')"
  proof (cases r1)
    case (Done a)
    with c m have "f a w1 = (r, w')" by (simp add: cbind_def)
    from hoareD [OF assms(2) _ this] R Done show ?thesis by simp
  qed (use c m R assms(3, 4) in \<open>auto simp: cbind_def\<close>)
qed

lemma hoare_ctry:
  assumes "hoare P m R" and "\<And>e. hoare (R (Raised e)) (h e) Q"
    and "\<And>a t. R (Done a) t \<Longrightarrow> Q (Done a) t" and "\<And>t. R Waiting t \<Longrightarrow> Q Waiting t"
  shows "hoare P (ctry m h) Q"
proof (rule hoareI)
  fix w r w' assume c: "ctry m h w = (r, w')" and P: "P (trace w)"
  obtain r1 w1 where m: "m w = (r1, w1)" by fastforce
  have R: "R r1 (trace w1)" by (rule hoareD [OF assms(1) P m])
  show "Q r (trace w')"
  proof (cases r1)
    case (Raised e)
    with c m have "h e w1 = (r, w')" by (simp add: ctry_def)
    from hoareD [OF assms(2) _ this] R Raised show ?thesis by simp
  qed (use c m R assms(3, 4) in \<open>auto simp: ctry_def\<close>)
qed

text \<open>An invariant of the trace that a coroutine keeps, however it ends.\<close>

abbreviation keeps :: "('s, 'e, 'a) coro \<Rightarrow> ('e list \<Rightarrow> bool) \<Rightarrow> bool" where
  "keeps m I \<equiv> hoare I m (\<lambda>_. I)"

lemma keeps_basic [runs_intro]:
  "keeps (creturn a) I" "keeps (craise e) I" "keeps cwait I" "keeps (of_await r) I" "keeps monotonic I"
  "keeps (draw f) I" "keeps (ccall g (\<lambda>_. [])) I"
  by (auto intro: hoare_creturn hoare_craise hoare_cwait hoare_of_await hoare_monotonic hoare_draw hoare_ccall)

lemma keeps_tell: "(\<And>t. I t \<Longrightarrow> I (t @ [ev])) \<Longrightarrow> keeps (tell ev) I"
  by (rule hoare_tell)

lemma keeps_ccall: "(\<And>t a. I t \<Longrightarrow> I (t @ note a)) \<Longrightarrow> keeps (ccall f note) I"
  by (rule hoare_ccall)

lemma keeps_cbind [runs_intro]: "keeps m I \<Longrightarrow> (\<And>a. keeps (f a) I) \<Longrightarrow> keeps (cbind m f) I"
  by (rule hoare_cbind)

lemma keeps_ctry [runs_intro]: "keeps m I \<Longrightarrow> (\<And>e. keeps (h e) I) \<Longrightarrow> keeps (ctry m h) I"
  by (rule hoare_ctry)

lemma hoare_cwith:
  assumes "keeps enter P" and body: "hoare P body R" and "\<And>r. keeps exit (R r)"
    and R: "\<And>r t. R r t \<Longrightarrow> Q r t" "\<And>r t e. R r t \<Longrightarrow> Q (Raised e) t" "\<And>r t. R r t \<Longrightarrow> Q Waiting t"
    and P: "\<And>t e. P t \<Longrightarrow> Q (Raised e) t" "\<And>t. P t \<Longrightarrow> Q Waiting t"
  shows "hoare P (cwith enter exit body) Q"
  unfolding cwith_def
proof (rule hoare_cbind [OF assms(1)])
  fix u
  show "hoare P (\<lambda>w. case body w of (Waiting, w') \<Rightarrow> (Waiting, w')
       | (r, w') \<Rightarrow> (case exit w' of (Done _, w'') \<Rightarrow> (r, w'')
            | (Raised e, w'') \<Rightarrow> (Raised e, w'') | (Waiting, w'') \<Rightarrow> (Waiting, w''))) Q" (is "hoare P ?m Q")
  proof (rule hoareI)
    fix w r w' assume m: "?m w = (r, w')" and p: "P (trace w)"
    obtain r1 w1 where 1: "body w = (r1, w1)" by fastforce
    obtain r2 w2 where 2: "exit w1 = (r2, w2)" by fastforce
    from hoareD [OF body p 1] have R1: "R r1 (trace w1)" .
    from hoareD [OF assms(3) R1 2] have R2: "R r1 (trace w2)" .
    from m 1 2 R [OF R1] R [OF R2] show "Q r (trace w')" by (cases r1; cases r2) auto
  qed
qed (use P in auto)

lemma keeps_cwith [runs_intro]:
  "keeps enter I \<Longrightarrow> keeps exit I \<Longrightarrow> keeps body I \<Longrightarrow> keeps (cwith enter exit body) I"
  by (rule hoare_cwith [where R = "\<lambda>_. I"]) auto

lemma keeps_cseq [runs_intro]: "(\<And>x. x \<in> set xs \<Longrightarrow> keeps (f x) I) \<Longrightarrow> keeps (cseq xs f) I"
  by (induction xs) (auto intro!: keeps_basic keeps_cbind)

lemma keeps_csettle [runs_intro]: "keeps m I \<Longrightarrow> keeps (csettle m) I"
  unfolding csettle_def by (intro runs_intro)

lemma keeps_swallow [runs_intro]: "keeps m I \<Longrightarrow> keeps (swallow m) I"
  unfolding swallow_def by (auto intro!: keeps_ctry keeps_basic)

lemma keeps_cfinally [runs_intro]: "keeps m I \<Longrightarrow> keeps f I \<Longrightarrow> keeps (cfinally m f) I"
  unfolding cfinally_def by (intro runs_intro)

text \<open>A loop keeps what its body keeps; \<open>J k\<close> is what the loop variable adds to the invariant.\<close>

lemma hoare_until_fuel:
  assumes "\<And>k. hoare (J k) (body k) (\<lambda>r t. I t \<and> (\<forall>k'. r = Done k' \<longrightarrow> J k' t))" and "\<And>k t. J k t \<Longrightarrow> I t"
  shows "hoare (J k) (until_fuel n dl g body k) (\<lambda>r t. I t \<and> (\<forall>k'. r = Done k' \<longrightarrow> J k' t))"
proof (induction n arbitrary: k)
  case 0
  then show ?case using assms(2) by (auto simp: hoare_def until_fuel.simps)
next
  case (Suc n)
  have eq: "until_fuel (Suc n) dl g body k =
      (if g k then cbind monotonic (\<lambda>t. if t < dl then cbind (body k) (until_fuel n dl g body) else creturn k)
       else creturn k)" by (rule ext) (simp add: until_fuel.simps)
  let ?Q = "\<lambda>r t. I t \<and> (\<forall>k'. r = Done k' \<longrightarrow> J k' t)"
  have ret: "hoare (J k) (creturn k) ?Q" using assms(2) by (auto intro!: hoare_creturn)
  have "hoare (J k) (cbind (body k) (until_fuel n dl g body)) ?Q"
    by (rule hoare_cbind [OF assms(1)]) (auto intro: hoare_weaken [OF Suc.IH])
  with ret have "hoare (J k) (if c < dl then cbind (body k) (until_fuel n dl g body) else creturn k) ?Q" for c
    by (cases "c < dl") (simp_all only: if_True if_False simp_thms)
  then have "hoare (J k) (cbind monotonic (\<lambda>t. if t < dl then cbind (body k) (until_fuel n dl g body) else creturn k)) ?Q"
    using assms(2) by (intro hoare_cbind [where R = "\<lambda>r t. J k t"] hoare_monotonic) auto
  with ret show ?case unfolding eq by (cases "g k") (simp_all only: if_True if_False simp_thms)
qed

lemma hoare_guarded_until:
  assumes "\<And>k. hoare (J k) (body k) (\<lambda>r t. I t \<and> (\<forall>k'. r = Done k' \<longrightarrow> J k' t))" and "\<And>k t. J k t \<Longrightarrow> I t"
  shows "hoare (J k) (guarded_until dl g body k) (\<lambda>r t. I t \<and> (\<forall>k'. r = Done k' \<longrightarrow> J k' t))"
  by (rule hoareI) (simp add: guarded_until_def hoareD [OF hoare_until_fuel [of J body I, OF assms]])

lemma keeps_guarded_until [runs_intro]: "(\<And>k. keeps (body k) I) \<Longrightarrow> keeps (guarded_until dl g body k) I"
  by (rule hoare_weaken [OF hoare_guarded_until [of "\<lambda>_. I" body I]]) (auto intro: hoare_weaken)

lemma keeps_until_deadline [runs_intro]: "(\<And>k. keeps (body k) I) \<Longrightarrow> keeps (until_deadline dl body k) I"
  unfolding until_deadline_def by (rule keeps_guarded_until)

end
