(* ===== verification/Payload.thy ===== *)
theory Payload
  imports Transport Py_Float
begin

text \<open>
  The typed request bodies and the GET contract of \<open>transport.py\<close>: \<open>_multipart_body\<close>,
  \<open>payload_mix\<close> and \<open>expected_gets\<close>, with what they use of \<open>json.dumps\<close>,
  \<open>urllib.parse.urlencode\<close> and number formatting. The two \<open>os.urandom\<close> bodies are arguments.
\<close>

section \<open>Text forms the standard library produces\<close>

text \<open>\<open>f"{n:0wd}"\<close> for a natural number.\<close>

definition zfill :: "nat \<Rightarrow> nat \<Rightarrow> pystr" where
  "zfill w n = replicate (w - length (dec n)) 48 @ dec n"

text \<open>
  \<open>repr\<close> of a finite float: the fewest significant digits, correctly rounded, that read
  back as the same float; positional for decimal exponents from -4 to 15.
\<close>

definition dec_exp :: "rat \<Rightarrow> int" where
  "dec_exp x = (if 1 \<le> x then int (length (dec (nat \<lfloor>x\<rfloor>))) - 1
     else (case find (\<lambda>k. 1 \<le> x * 10 ^ k) [1..<330] of Some k \<Rightarrow> - int k | None \<Rightarrow> - 330))"

definition sig_digits :: "rat \<Rightarrow> nat \<Rightarrow> nat \<times> int" where
  "sig_digits x d =
     (let e = dec_exp x; m = nat (round_half_even (x * 10 powi (int d - 1 - e)))
      in if 10 ^ d \<le> m then (m div 10, e + 1) else (m, e))"

definition shortest_digits :: "rat \<Rightarrow> nat \<times> int" where
  "shortest_digits x =
     (case find (\<lambda>d. let (m, e) = sig_digits x d in fl (of_nat m * 10 powi (e + 1 - int d)) = x) [1..<18] of
        Some d \<Rightarrow> sig_digits x d | None \<Rightarrow> sig_digits x 17)"

definition float_repr :: "pyfloat \<Rightarrow> pystr" where
  "float_repr x =
     (if x = 0 then ustr ''0.0''
      else let (m, e) = shortest_digits \<bar>x\<bar>; ds = dec m; n = length ds in
        (if x < 0 then [45] else []) @
        (if e < -4 \<or> 16 \<le> e then
           take 1 ds @ (if n = 1 then [] else 46 # drop 1 ds) @ ustr ''e'' @
           (if e < 0 then [45] else [43]) @ zfill 2 (nat \<bar>e\<bar>)
         else if e < 0 then ustr ''0.'' @ replicate (nat (- e - 1)) 48 @ ds
         else if n \<le> nat (e + 1) then ds @ replicate (nat (e + 1) - n) 48 @ ustr ''.0''
         else take (nat (e + 1)) ds @ [46] @ drop (nat (e + 1)) ds))"

text \<open>\<open>json.dumps\<close> with its defaults.\<close>

datatype json =
    JStr pystr | JInt int | JFloat pyfloat | JBool bool
  | JArr "json list" | JObj "(pystr \<times> json) list"

definition hex4 :: "nat \<Rightarrow> pystr" where
  "hex4 n = map (\<lambda>i. hex_digit (n div 16 ^ i mod 16)) (rev [0..<4])"

definition json_char :: "nat \<Rightarrow> pystr" where
  "json_char c =
     (if c = 34 then [92, 34] else if c = 92 then [92, 92]
      else if c = 10 then [92, 110] else if c = 13 then [92, 114]
      else if c = 9 then [92, 116] else if c = 12 then [92, 102]
      else if c = 8 then [92, 98]
      else if 32 \<le> c \<and> c \<le> 126 then [c]
      else if c < 65536 then [92, 117] @ hex4 c
      else [92, 117] @ hex4 (55296 + (c - 65536) div 1024) @
           [92, 117] @ hex4 (56320 + (c - 65536) mod 1024))"

definition json_str :: "pystr \<Rightarrow> pystr" where
  "json_str s = [34] @ concat (map json_char s) @ [34]"

fun json_dumps :: "json \<Rightarrow> pystr" where
  "json_dumps (JStr s) = json_str s"
| "json_dumps (JInt i) = py_str i"
| "json_dumps (JFloat x) = float_repr x"
| "json_dumps (JBool b) = (if b then ustr ''true'' else ustr ''false'')"
| "json_dumps (JArr xs) = ustr ''['' @ join_on (ustr '', '') (map json_dumps xs) @ ustr '']''"
| "json_dumps (JObj kvs) =
     ustr ''{'' @ join_on (ustr '', '') (map (\<lambda>(k, v). json_str k @ ustr '': '' @ json_dumps v) kvs) @
     ustr ''}''"

text \<open>\<open>urllib.parse.urlencode\<close>: \<open>quote_plus\<close> on the UTF-8 bytes of every key and value.\<close>

definition quote_safe :: "nat \<Rightarrow> bool" where
  "quote_safe c \<longleftrightarrow> is_adigit c \<or> (65 \<le> c \<and> c \<le> 90) \<or> (97 \<le> c \<and> c \<le> 122) \<or> c \<in> {95, 46, 45, 126}"

definition upper_hex :: "nat \<Rightarrow> nat" where
  "upper_hex n = (if n < 10 then 48 + n else 55 + n)"

definition quote_plus :: "pystr \<Rightarrow> pystr" where
  "quote_plus s =
     concat (map (\<lambda>w. let c = unat w in
       if quote_safe c then [c] else if c = 32 then [43]
       else [37, upper_hex (c div 16), upper_hex (c mod 16)]) (py_encode s))"

definition urlencode :: "(pystr \<times> pystr) list \<Rightarrow> pystr" where
  "urlencode kvs = join_on (ustr ''&'') (map (\<lambda>(k, v). quote_plus k @ ustr ''='' @ quote_plus v) kvs)"

section \<open>The bodies\<close>

definition crlf :: bytes where
  "crlf = [13, 10]"

definition quoted :: "string \<Rightarrow> bytes" where
  "quoted s = [34] @ bstr s @ [34]"

definition MP_BOUNDARY :: pystr where
  "MP_BOUNDARY = ustr ''----vortexstressBoundary7MA4YWxkTrZu0gW''"

definition multipart_body :: "pystr \<Rightarrow> bytes" where
  "multipart_body boundary =
     (let dash = bstr ''--'' @ py_encode boundary
      in concat
        [dash @ crlf,
         bstr ''Content-Disposition: form-data; name='' @ quoted ''field1'' @ crlf @ crlf,
         bstr ''the quick brown fox'' @ crlf,
         dash @ crlf,
         bstr ''Content-Disposition: form-data; name='' @ quoted ''field2'' @ crlf @ crlf,
         bstr ''jumps over the lazy dog'' @ crlf,
         dash @ crlf,
         bstr ''Content-Disposition: form-data; name='' @ quoted ''file'' @ bstr ''; filename='' @
           quoted ''blob.bin'' @ crlf,
         bstr ''Content-Type: application/octet-stream'' @ crlf @ crlf,
         gen_chunk 0 4096,
         crlf,
         dash @ bstr ''--'' @ crlf])"

definition xml_body :: bytes where
  "xml_body =
     bstr ''<?xml version='' @ quoted ''1.0'' @ bstr '' encoding='' @ quoted ''UTF-8'' @ bstr ''?><items>'' @
     concat (map (\<lambda>i. bstr ''<item id='' @ [34] @ map of_nat (py_str (int i)) @ [34] @
       bstr ''>The quick brown fox jumps over the lazy dog</item>'') [0..<40]) @
     bstr ''</items>''"

definition csv_body :: bytes where
  "csv_body =
     bstr ''id,name,value'' @ [10] @
     concat (map (\<lambda>i. py_encode (py_str (int i) @ ustr '',name-'' @ py_str (int i) @ ustr '','' @
       py_str (int i * int i) @ [10])) [0..<200])"

definition json_obj :: json where
  "json_obj = JObj
     [(ustr ''user'', JStr (ustr ''alice'')), (ustr ''id'', JInt 42), (ustr ''active'', JBool True),
      (ustr ''score'', JFloat (fl (314 / 100))),
      (ustr ''tags'', JArr [JStr (ustr ''a''), JStr (ustr ''b''), JStr (ustr ''c'')]),
      (ustr ''meta'', JObj [(ustr ''role'', JStr (ustr ''admin'')), (ustr ''seen'', JInt 7)]),
      (ustr ''note'', JStr (replicate 180 120))]"

definition json_arr :: json where
  "json_arr = JArr (map (\<lambda>i. JObj
     [(ustr ''id'', JInt (int i)), (ustr ''name'', JStr (ustr ''name-'' @ zfill 4 i)),
      (ustr ''ts'', JStr (ustr ''2026-09-21T00:'' @ zfill 2 (i mod 60) @ ustr '':00Z'')),
      (ustr ''ratio'', JFloat (fmul (of_nat i) (fl (12345 / 100000)))),
      (ustr ''ok'', JBool (i mod 2 = 0))]) [0..<100])"

definition form_dict :: "(pystr \<times> pystr) list" where
  "form_dict =
     [(ustr ''q'', ustr ''the quick & brown = fox''), (ustr ''name'', ustr '' query with spaces''),
      (ustr ''sym'', ustr ''a&b=c d''),
      (ustr ''u'', ustr ''caf'' @ [233] @ ustr '' na'' @ [239] @ ustr ''ve '' @ [10003])]"

definition text_body :: "nat \<Rightarrow> bytes" where
  "text_body n = take n (concat (replicate (n div 20 + 1) (bstr ''the quick brown fox '')))"

definition payload_mix :: "bytes \<Rightarrow> bytes \<Rightarrow> (pystr \<times> bytes) list" where
  "payload_mix random1 random2 =
     map (\<lambda>n. (ustr ''text/plain'', text_body n)) [0, 1, 13, 1280, 64 * 1024, 256 * 1024] @
     [(ustr ''text/plain'', random1),
      (ustr ''application/json'', py_encode (json_dumps json_obj)),
      (ustr ''application/json'', py_encode (json_dumps json_arr)),
      (ustr ''application/x-www-form-urlencoded'', py_encode (urlencode form_dict)),
      (ustr ''multipart/form-data; boundary='' @ MP_BOUNDARY, multipart_body MP_BOUNDARY),
      (ustr ''application/octet-stream'', gen_chunk 0 8192),
      (ustr ''application/octet-stream'', random2),
      (ustr ''application/xml'', xml_body),
      (ustr ''text/csv'', csv_body),
      (ustr ''text/html'', bstr ''<!doctype html><html><body><h1>hi</h1><p>The quick brown fox.</p></body></html>'')]"

definition expected_gets :: "(pystr \<times> pystr \<times> bytes) list" where
  "expected_gets =
     [(ustr ''/plaintext'', ustr ''text/plain'', bstr ''Hello, World!''),
      (ustr ''/json'', ustr ''application/json'',
       bstr ''{'' @ quoted ''message'' @ bstr '':'' @ quoted ''Hello, World!'' @ bstr ''}''),
      (ustr ''/html'', ustr ''text/html'',
       bstr ''<!doctype html><html><head><title>vortex stress</title></head><body>'' @
       concat (replicate 30 (bstr ''<p>The quick brown fox jumps over the lazy dog.</p>'')) @
       bstr ''</body></html>''),
      (ustr ''/xml'', ustr ''application/xml'', xml_body),
      (ustr ''/csv'', ustr ''text/csv'', csv_body),
      (ustr ''/binary'', ustr ''application/octet-stream'', gen_chunk 0 8192)]"

lemma length_payload_mix [simp]: "length (payload_mix r1 r2) = 16"
  by (simp add: payload_mix_def)

lemma length_expected_gets [simp]: "length expected_gets = 6"
  by (simp add: expected_gets_def)

end
