(* ===== verification/Stress_Server.thy ===== *)
theory Stress_Server
  imports Payload
begin

text \<open>
  The target the stress clients drive, \<open>conformance/stress/stress_server.nim\<close>, with the event
  framing of \<open>SseStream.send\<close> (\<open>src/vortex/request.nim\<close>): the byte generator, the typed
  GET bodies, the echo, the SSE feed, the upload check, the download and the statistics.
  It is the other side of the contract the Python workloads verify.
\<close>

section \<open>The byte generator\<close>

definition dlChunk :: nat where
  "dlChunk = 64 * 1024"

definition buildDlPattern :: bytes where
  "buildDlPattern = map (\<lambda>j. of_nat (j AND 0xff)) [0..<dlChunk + 256]"

text \<open>\<open>None\<close> is the failed \<open>doAssert\<close>.\<close>

definition genChunk :: "nat \<Rightarrow> nat \<Rightarrow> bytes option" where
  "genChunk start n =
     (if dlChunk < n then None
      else let s = start AND 0xff in Some (py_slice buildDlPattern s (s + n)))"

section \<open>Typed GETs and the echo\<close>

text \<open>\<open>$i\<close> for a natural number.\<close>

definition nim_str :: "nat \<Rightarrow> bytes" where
  "nim_str i = map of_nat (dec i)"

definition buildXmlBody :: bytes where
  "buildXmlBody =
     foldl (\<lambda>r i. r @ bstr ''<item id='' @ [34] @ nim_str i @ [34] @
         bstr ''>The quick brown fox jumps over the lazy dog</item>'')
       (bstr ''<?xml version='' @ quoted ''1.0'' @ bstr '' encoding='' @ quoted ''UTF-8'' @ bstr ''?><items>'')
       [0..<40] @ bstr ''</items>''"

definition buildCsvBody :: bytes where
  "buildCsvBody =
     foldl (\<lambda>r i. r @ nim_str i @ bstr '',name-'' @ nim_str i @ bstr '','' @ nim_str (i * i) @ [10])
       (bstr ''id,name,value'' @ [10]) [0..<200]"

definition bigBody :: bytes where
  "bigBody = concat (replicate 200 (bstr ''The quick brown fox jumps over the lazy dog. ''))"

definition htmlBody :: bytes where
  "htmlBody =
     bstr ''<!doctype html><html><head><title>vortex stress</title></head><body>'' @
     concat (replicate 30 (bstr ''<p>The quick brown fox jumps over the lazy dog.</p>'')) @
     bstr ''</body></html>''"

text \<open>
  \<open>echoBody\<close>; \<open>vortex.send\<close> without a \<open>Content-Type\<close> sends \<open>text/plain\<close>. \<open>ct\<close> is the
  request's content type, empty when it has none.
\<close>

definition echoBody :: "pystr \<Rightarrow> pystr \<Rightarrow> pystr \<Rightarrow> bytes \<Rightarrow> (int \<times> pystr \<times> bytes) option" where
  "echoBody meth path ct body =
     (if meth = ustr ''GET'' then
        (if path = ustr ''/plaintext'' then Some (200, ustr ''text/plain'', bstr ''Hello, World!'')
         else if path = ustr ''/json'' then
           Some (200, ustr ''application/json'',
             bstr ''{'' @ quoted ''message'' @ bstr '':'' @ quoted ''Hello, World!'' @ bstr ''}'')
         else if path = ustr ''/big'' then Some (200, ustr ''text/plain'', bigBody)
         else if path = ustr ''/html'' then Some (200, ustr ''text/html'', htmlBody)
         else if path = ustr ''/xml'' then Some (200, ustr ''application/xml'', buildXmlBody)
         else if path = ustr ''/csv'' then Some (200, ustr ''text/csv'', buildCsvBody)
         else if path = ustr ''/binary'' then
           map_option (\<lambda>b. (200, ustr ''application/octet-stream'', b)) (genChunk 0 8192)
         else Some (200, ustr ''text/plain'', []))
      else Some (200, if ct = [] then ustr ''text/plain'' else ct, body))"

section \<open>Server-sent events\<close>

definition sseTotal :: int where
  "sseTotal = 100"

definition sseBatch :: nat where
  "sseBatch = 20"

definition sseSanitize :: "bytes \<Rightarrow> bytes" where
  "sseSanitize = filter (\<lambda>c. c \<notin> {13, 10, 0})"

text \<open>The \<open>data:\<close> fields of a payload, split at CRLF, LF and CR.\<close>

fun sse_data :: "bytes \<Rightarrow> bytes \<Rightarrow> bytes" where
  "sse_data line [] = bstr ''data: '' @ line @ [10]"
| "sse_data line (c # r) =
     (if c = 10 \<or> c = 13 then
        bstr ''data: '' @ line @ [10] @ sse_data [] (if c = 13 \<and> r \<noteq> [] \<and> hd r = 10 then tl r else r)
      else sse_data (line @ [c]) r)"

definition sse_send :: "bytes \<Rightarrow> bytes \<Rightarrow> bytes \<Rightarrow> nat \<Rightarrow> bytes" where
  "sse_send data event eid retry =
     (if sseSanitize eid \<noteq> [] then bstr ''id: '' @ sseSanitize eid @ [10] else []) @
     (if sseSanitize event \<noteq> [] then bstr ''event: '' @ sseSanitize event @ [10] else []) @
     (if 0 < retry then bstr ''retry: '' @ nim_str retry @ [10] else []) @
     (if data = [] then bstr ''data:'' @ [10] @ bstr ''data:'' @ [10] else sse_data [] data) @ [10]"

text \<open>
  \<open>parseInt\<close> of Nim: an optional sign, digits with underscores after a digit, nothing else,
  within 64 bits.
\<close>

fun nim_digits :: "int \<Rightarrow> nat list \<Rightarrow> int option" where
  "nim_digits v [] = Some v"
| "nim_digits v (c # cs) =
     (if is_adigit c then nim_digits (10 * v + int (c - 48)) cs
      else if c = 95 then nim_digits v cs else None)"

definition nim_parseInt :: "nat list \<Rightarrow> int option" where
  "nim_parseInt s =
     (let (neg, ds) = split_sign s
      in case ds of
           [] \<Rightarrow> None
         | c # _ \<Rightarrow>
             if \<not> is_adigit c then None
             else (case nim_digits 0 ds of
                 None \<Rightarrow> None
               | Some v \<Rightarrow> let r = (if neg then - v else v)
                           in if - (2 ^ 63) \<le> r \<and> r < 2 ^ 63 then Some r else None))"

text \<open>
  \<open>sseBody\<close>: the writes of one connection, resuming after \<open>lastEventId\<close> (empty: from 0).
  \<open>$i\<close> of the loop variable is the event's id.
\<close>

function sse_events :: "int \<Rightarrow> nat \<Rightarrow> bytes list" where
  "sse_events i sent =
     (if i < sseTotal \<and> sent < sseBatch then
        sse_send (bstr ''event '' @ map of_nat (py_str i)) [] (map of_nat (py_str i)) 0
          # sse_events (i + 1) (Suc sent)
      else [])"
  by pat_completeness auto
termination by (relation "measure (\<lambda>(i, sent). sseBatch - sent)") auto

declare sse_events.simps [simp del]

definition sseBody :: "pystr \<Rightarrow> bytes list" where
  "sseBody lastEventId =
     (let i = (if lastEventId = [] then 0
               else case nim_parseInt lastEventId of None \<Rightarrow> 0 | Some v \<Rightarrow> v + 1)
      in sse_events i 0)"

section \<open>Uploads, downloads and statistics\<close>

text \<open>\<open>hUpload\<close>: the status for the received chunks and the \<open>x-sha1\<close> header.\<close>

definition hUpload :: "pystr \<Rightarrow> bytes list \<Rightarrow> int" where
  "hUpload x_sha1 chunks =
     (if hexdigest (foldl sha1_update sha1_new chunks) = lower x_sha1 then 200 else 400)"

text \<open>\<open>hDownload\<close> of the awaited builds, and the \<open>write\<close> calls of \<open>dlPumpBody\<close> on a live request.\<close>

function download_from :: "nat \<Rightarrow> nat \<Rightarrow> bytes option list" where
  "download_from streamBytes off =
     (if off < streamBytes then
        (let n = min dlChunk (streamBytes - off)
         in genChunk off n # download_from streamBytes (off + n))
      else [])"
  by pat_completeness auto
termination
  by (relation "measure (\<lambda>(streamBytes, off). streamBytes - off)") (auto simp: dlChunk_def)

definition buildBigPattern :: "nat \<Rightarrow> bytes" where
  "buildBigPattern n = map (\<lambda>j. of_nat (j AND 0xff)) [0..<n + 256]"

function dlPump :: "nat \<Rightarrow> nat \<Rightarrow> nat \<Rightarrow> bytes list" where
  "dlPump downloadChunk streamBytes sent =
     (if sent < streamBytes \<and> 0 < downloadChunk then
        (let n = min downloadChunk (streamBytes - sent); s = sent AND 0xff
         in py_slice (buildBigPattern downloadChunk) s (s + n)
            # dlPump downloadChunk streamBytes (sent + n))
      else [])"
  by pat_completeness auto
termination
  by (relation "measure (\<lambda>(downloadChunk, streamBytes, sent). streamBytes - sent)") auto

declare download_from.simps [simp del] dlPump.simps [simp del]

definition statsBody :: "nat \<Rightarrow> nat \<Rightarrow> nat \<Rightarrow> int \<times> pystr \<times> bytes" where
  "statsBody rss heap fds =
     (200, ustr ''text/plain'', nim_str rss @ [32] @ nim_str heap @ [32] @ nim_str fds)"

section \<open>The contract between client and server\<close>

lemma pattern_and: "map (\<lambda>j. of_nat (j mod 256)) [0..<n] = pattern 0 n"
  by (simp add: pattern_def)

lemma pattern_period: "pattern (start mod 256) n = pattern start n"
  by (rule nth_equalityI) (simp_all add: pattern_def mod_simps)

lemma slice_pattern: "s + n \<le> m \<Longrightarrow> py_slice (pattern 0 m) s (s + n) = pattern s n"
  by (rule nth_equalityI) (auto simp: py_slice_def pattern_def)

lemma pattern_rest:
  assumes "n \<le> m - a"
  shows "pattern a n @ pattern (a + n) (m - (a + n)) = pattern a (m - a)"
proof -
  have "n + (m - (a + n)) = m - a" using assms by linarith
  then show ?thesis by (simp only: pattern_append)
qed

lemma genChunk_pattern: "n \<le> dlChunk \<Longrightarrow> genChunk start n = Some (pattern start n)"
proof -
  assume n: "n \<le> dlChunk"
  have "start mod 256 < 256" by simp
  with n have "start mod 256 + n \<le> dlChunk + 256" by linarith
  from slice_pattern [OF this] n show ?thesis
    by (simp add: genChunk_def buildDlPattern_def nat_and_ff pattern_and pattern_period Let_def)
qed

lemma download_from_pattern:
  "\<exists>cs. download_from streamBytes off = map Some cs \<and> concat cs = pattern off (streamBytes - off)"
proof (induction streamBytes off rule: download_from.induct)
  case (1 streamBytes off)
  show ?case
  proof (cases "off < streamBytes")
    case False
    then show ?thesis by (subst download_from.simps) (simp add: pattern_def)
  next
    case True
    define n where "n = min dlChunk (streamBytes - off)"
    have n: "n \<le> dlChunk" "n \<le> streamBytes - off" by (simp_all add: n_def)
    from "1.IH" [OF True n_def] obtain cs where
      cs: "download_from streamBytes (off + n) = map Some cs"
        "concat cs = pattern (off + n) (streamBytes - (off + n))" by blast
    have "download_from streamBytes off = map Some (pattern off n # cs)"
      using True cs(1) genChunk_pattern [OF n(1)]
      by (subst download_from.simps) (simp add: n_def Let_def)
    moreover have "concat (pattern off n # cs) = pattern off (streamBytes - off)"
      using cs(2) pattern_rest [OF n(2)] by simp
    ultimately show ?thesis by blast
  qed
qed

lemma dlPump_pattern:
  "0 < downloadChunk \<Longrightarrow> concat (dlPump downloadChunk streamBytes sent) = pattern sent (streamBytes - sent)"
proof (induction downloadChunk streamBytes sent rule: dlPump.induct)
  case (1 downloadChunk streamBytes sent)
  show ?case
  proof (cases "sent < streamBytes")
    case False
    then show ?thesis by (subst dlPump.simps) (simp add: pattern_def)
  next
    case True
    define n where "n = min downloadChunk (streamBytes - sent)"
    have n: "n \<le> downloadChunk" "n \<le> streamBytes - sent" by (simp_all add: n_def)
    have "sent mod 256 < 256" by simp
    with n have "sent mod 256 + n \<le> downloadChunk + 256" by linarith
    from slice_pattern [OF this]
    have "py_slice (buildBigPattern downloadChunk) (sent AND 0xff) ((sent AND 0xff) + n) = pattern sent n"
      by (simp add: buildBigPattern_def nat_and_ff pattern_and pattern_period)
    moreover have "concat (dlPump downloadChunk streamBytes (sent + n))
        = pattern (sent + n) (streamBytes - (sent + n))"
      using "1.IH" [OF _ n_def refl] True "1.prems" by simp
    ultimately have "concat (dlPump downloadChunk streamBytes sent)
        = pattern sent n @ pattern (sent + n) (streamBytes - (sent + n))"
      using True "1.prems" by (subst dlPump.simps) (simp add: n_def Let_def)
    then show ?thesis using pattern_rest [OF n(2)] by simp
  qed
qed

lemma foldl_append_map: "foldl (\<lambda>r i. r @ f i) a xs = a @ concat (map f xs)"
  by (induction xs arbitrary: a) auto

lemma nim_str_py: "map of_nat (py_str (int i)) = nim_str i"
  by (simp add: nim_str_def py_str_def)

lemma xml_body_server: "buildXmlBody = xml_body"
  by (simp add: buildXmlBody_def xml_body_def foldl_append_map nim_str_py)

lemma csv_body_server: "buildCsvBody = csv_body"
proof -
  have "py_encode (py_str (int i) @ ustr '',name-'' @ py_str (int i) @ ustr '','' @ py_str (int i * int i) @ [10])
      = nim_str i @ bstr '',name-'' @ nim_str i @ bstr '','' @ nim_str (i * i) @ [10]" for i
  proof (subst py_encode_ascii)
    show "\<forall>c \<in> set (py_str (int i) @ ustr '',name-'' @ py_str (int i) @ ustr '','' @ py_str (int i * int i) @ [10]). c < 128"
      using py_str_ascii by (fastforce simp: is_adigit_def ustr_def)
  qed (simp add: nim_str_py ustr_def bstr_def flip: of_nat_mult)
  then show ?thesis by (simp add: buildCsvBody_def csv_body_def foldl_append_map)
qed

end
