(* ===== verification/Stress_Work.thy ===== *)
theory Stress_Work
  imports Py_Async Stress_Server Stress_Mix
begin

text \<open>
  The workloads of \<open>conformance/stress/client/stress_client.py\<close>: \<open>w_requests\<close>, \<open>w_methods\<close>,
  \<open>w_ws\<close>, \<open>w_sse\<close>, \<open>w_streamupload\<close> and \<open>w_streamdownload\<close> with \<open>drive\<close> and \<open>ramped\<close> around
  them, as coroutines on an explicit world. Everything outside the process (the session's
  connection and the server behind it) is the record \<open>env\<close> of functions on a state of
  any type. The trace records what was exchanged and every change of the shared tallies,
  in order; \<open>asyncio.sleep\<close> only leaves its delay there, the time that passes shows in the
  clock readings.
\<close>

section \<open>The outside\<close>

record 's env =
  e_open :: "'s \<Rightarrow> unit await \<times> 's"
  e_close :: "'s \<Rightarrow> unit await \<times> 's"
  e_request :: "pystr \<Rightarrow> pystr \<Rightarrow> hdict \<Rightarrow> bytes \<Rightarrow> 's \<Rightarrow> (int \<times> pystr \<times> bytes) await \<times> 's"
  e_stream :: "pystr \<Rightarrow> pystr \<Rightarrow> hdict \<Rightarrow> 's \<Rightarrow> (stream_item list \<times> unit await) \<times> 's"
  e_upload :: "pystr \<Rightarrow> hdict \<Rightarrow> bytes list \<Rightarrow> pyfloat option \<Rightarrow> 's \<Rightarrow> (int await \<times> nat) \<times> 's"
    \<comment> \<open>the outcome, and how many chunks of the body were pulled; the last argument before
      the state is the \<open>wait_for\<close> timeout\<close>
  e_ws_open :: "pystr \<Rightarrow> 's \<Rightarrow> int await \<times> 's"
  e_ws_send :: "nat \<Rightarrow> bytes \<Rightarrow> 's \<Rightarrow> unit await \<times> 's"
  e_ws_recv :: "'s \<Rightarrow> (nat \<times> bytes) await \<times> 's"
  e_wst_connect :: "pystr \<Rightarrow> bool \<Rightarrow> pyfloat \<Rightarrow> 's \<Rightarrow> unit await \<times> 's"
  e_wst_exit :: "'s \<Rightarrow> unit await \<times> 's"
  e_wst_send :: "pystr \<Rightarrow> 's \<Rightarrow> unit await \<times> 's"
  e_wst_recv :: "'s \<Rightarrow> pystr await \<times> 's"

datatype ev =
    Exch pystr pystr hdict bytes "int \<times> pystr \<times> bytes"
  | WsEcho nat bytes nat bytes
  | WsTextEcho pystr pystr
  | StreamStart pystr hdict
  | RecvLine pystr
  | RecvChunk bytes
  | Uploaded pystr "bytes list" int
  | Bump int int
  | Xfer int
  | Abandon
  | Slept pyfloat

type_synonym ('s, 'a) work = "('s, ev, 'a) coro"

definition asyncio_sleep :: "pyfloat \<Rightarrow> ('s, unit) work" where
  "asyncio_sleep d = tell (Slept d)"

definition bump :: "int \<Rightarrow> ('s, unit) work" where
  "bump status = tell (Bump status 1)"

definition request :: "'s env \<Rightarrow> pystr \<Rightarrow> pystr \<Rightarrow> hdict \<Rightarrow> bytes \<Rightarrow> ('s, int \<times> pystr \<times> bytes) work" where
  "request env meth path hdrs body =
     ccall (e_request env meth path hdrs body) (\<lambda>r. [Exch meth path hdrs body r])"

definition with_session :: "'s env \<Rightarrow> ('s, 'a) work \<Rightarrow> ('s, 'a) work" where
  "with_session env body = cwith (ccall (e_open env) (\<lambda>_. [])) (ccall (e_close env) (\<lambda>_. [])) body"

section \<open>Driving a worker\<close>

text \<open>The name and the text of the exceptions \<open>drive\<close> formats.\<close>

fun exn_name :: "exn \<Rightarrow> pystr" where
  "exn_name (HttpxTransportError c m) = c"
| "exn_name (WebSocketException c m) = c"
| "exn_name (ConnectionErr m) = ustr ''ConnectionError''"
| "exn_name TimeoutErr = ustr ''TimeoutError''"
| "exn_name (OSErr c m) = c"
| "exn_name e = []"

fun exn_msg :: "exn \<Rightarrow> pystr" where
  "exn_msg (HttpxTransportError c m) = m"
| "exn_msg (WebSocketException c m) = m"
| "exn_msg (ConnectionErr m) = m"
| "exn_msg (OSErr c m) = m"
| "exn_msg e = []"

fun is_transport :: "exn \<Rightarrow> bool" where
  "is_transport (HttpxTransportError c m) = True"
| "is_transport (WebSocketException c m) = True"
| "is_transport e = is_OSError e"

definition drive_except :: "exn \<Rightarrow> exn" where
  "drive_except e =
     (case e of
        ProtocolPinError m \<Rightarrow> Fail (FPin m)
      | _ \<Rightarrow> if is_transport e then Fail (FTransport (exn_name e) (exn_msg e)) else e)"

text \<open>\<open>drive\<close>; \<open>k\<close> is what a worker keeps from call to call (nothing for most).\<close>

definition drive :: "pyfloat \<Rightarrow> ('k \<Rightarrow> ('s, 'k) work) \<Rightarrow> 'k \<Rightarrow> ('s, 'k) work" where
  "drive deadline worker = until_deadline deadline (\<lambda>k. ctry (worker k) (\<lambda>e. craise (drive_except e)))"

section \<open>Requests and methods\<close>

fun prepare ::
  "codecs \<Rightarrow> config \<Rightarrow> (pystr \<times> bytes) list \<Rightarrow> (pystr \<times> bytes \<times> bytes \<times> hdict) list await" where
  "prepare cod cfg [] = Done []"
| "prepare cod cfg ((ctype, raw) # mix) =
     abind (compress cod cfg raw) (\<lambda>(body, enc).
       let h0 = [(ustr ''content-type'', ctype)];
           h1 = (case enc of Some e \<Rightarrow> if e \<noteq> [] then h0 @ [(ustr ''content-encoding'', e)] else h0 | None \<Rightarrow> h0);
           h2 = (case ACCEPT cfg of Some a \<Rightarrow> h1 @ [(ustr ''accept-encoding'', a)] | None \<Rightarrow> h1)
       in abind (prepare cod cfg mix) (\<lambda>ps. Done ((ctype, raw, body, h2) # ps)))"

definition get_hdrs :: "config \<Rightarrow> hdict" where
  "get_hdrs cfg = (case ACCEPT cfg of Some a \<Rightarrow> [(ustr ''accept-encoding'', a)] | None \<Rightarrow> [])"

definition echo_once ::
  "'s env \<Rightarrow> pystr \<times> bytes \<times> bytes \<times> hdict \<Rightarrow> pystr \<Rightarrow> ('s, unit) work" where
  "echo_once env p meth =
     (case p of (ctype, raw, body, hdrs) \<Rightarrow>
        cbind (request env meth (ustr ''/echo'') hdrs body) (\<lambda>(st, ct, b).
          if st \<noteq> 200 \<or> b \<noteq> raw then craise (Fail (FEcho meth st (length b) (length raw)))
          else if lower ct \<noteq> lower ctype then craise (Fail (FEchoType meth ctype ct))
          else bump 200))"

definition requests_turn ::
  "'s env \<Rightarrow> hdict \<Rightarrow> (pystr \<times> pystr \<times> bytes) list \<Rightarrow> (pystr \<times> bytes \<times> bytes \<times> hdict) list \<Rightarrow>
   nat \<Rightarrow> ('s, nat) work" where
  "requests_turn env ghdrs gets prepared k =
     (case gets ! (k mod length gets) of (path, want_ct, want_body) \<Rightarrow>
        cbind (request env (ustr ''GET'') path ghdrs []) (\<lambda>(st, ct, b).
          if st \<noteq> 200 then craise (Fail (FGetStatus path st))
          else if lower ct \<noteq> lower want_ct then craise (Fail (FGetType path want_ct ct))
          else if b \<noteq> want_body then craise (Fail (FGetBody path (length b) (length want_body)))
          else cbind (bump 200) (\<lambda>_.
            cbind (cseq [ustr ''POST'', ustr ''PUT''] (echo_once env (prepared ! (k mod length prepared)))) (\<lambda>_.
              creturn (Suc k)))))"

definition requests_once ::
  "'s env \<Rightarrow> config \<Rightarrow> pyfloat \<Rightarrow> (pystr \<times> pystr \<times> bytes) list \<Rightarrow>
   (pystr \<times> bytes \<times> bytes \<times> hdict) list \<Rightarrow> unit \<Rightarrow> ('s, unit) work" where
  "requests_once env cfg deadline gets prepared _ =
     with_session env
       (cbind (until_deadline deadline (requests_turn env (get_hdrs cfg) gets prepared) 0) (\<lambda>_. creturn ()))"

definition methods_turn ::
  "'s env \<Rightarrow> hdict \<Rightarrow> (pystr \<times> bytes \<times> bytes \<times> hdict) list \<Rightarrow> nat \<Rightarrow> ('s, nat) work" where
  "methods_turn env ghdrs prepared k =
     cbind (request env (ustr ''GET'') (ustr ''/plaintext'') ghdrs []) (\<lambda>(st, _, b).
       if st \<noteq> 200 \<or> b \<noteq> bstr ''Hello, World!'' then craise (Fail (FPlaintext st))
       else cbind (bump 200) (\<lambda>_.
         cbind (cseq [ustr ''POST'', ustr ''PUT'', ustr ''DELETE'', ustr ''PATCH'']
                  (echo_once env (prepared ! (k mod length prepared)))) (\<lambda>_.
           cbind (request env (ustr ''HEAD'') (ustr ''/echo'') ghdrs []) (\<lambda>(st, _, b).
             if st \<noteq> 200 \<or> b \<noteq> [] then craise (Fail (FHead st (length b)))
             else cbind (bump 200) (\<lambda>_.
               cbind (request env (ustr ''OPTIONS'') (ustr ''/echo'') [] []) (\<lambda>(st, _, _).
                 if st \<notin> {200, 204} then craise (Fail (FOptions st))
                 else cbind (bump st) (\<lambda>_. creturn (Suc k))))))))"

definition methods_once ::
  "'s env \<Rightarrow> config \<Rightarrow> pyfloat \<Rightarrow> (pystr \<times> bytes \<times> bytes \<times> hdict) list \<Rightarrow> unit \<Rightarrow> ('s, unit) work" where
  "methods_once env cfg deadline prepared _ =
     with_session env
       (cbind (until_deadline deadline (methods_turn env (get_hdrs cfg) prepared) 0) (\<lambda>_. creturn ()))"

section \<open>WebSockets\<close>

definition WS_OPEN_TIMEOUT :: "config \<Rightarrow> pyfloat" where
  "WS_OPEN_TIMEOUT cfg = max 60 (fmul (fmul (1 / 2) (fl (of_int (CLIENTS cfg)))) (fl (of_int (CONC cfg))))"

definition WS_RAMP :: "config \<Rightarrow> pyfloat" where
  "WS_RAMP cfg = min 5 (max 0 (fdiv (fl (of_int (SECONDS cfg))) 10))"

definition ws_ramp_delay :: "config \<Rightarrow> int \<Rightarrow> int \<Rightarrow> pyfloat" where
  "ws_ramp_delay cfg i conc =
     (if 1 < conc then fdiv (fmul (WS_RAMP cfg) (fl (of_int i))) (fl (of_int conc)) else 0)"

definition ramped ::
  "config \<Rightarrow> pyfloat \<Rightarrow> int \<Rightarrow> int \<Rightarrow> ('k \<Rightarrow> ('s, 'k) work) \<Rightarrow> 'k \<Rightarrow> ('s, 'k) work" where
  "ramped cfg deadline i conc worker k =
     (let d = ws_ramp_delay cfg i conc in
      cbind (if 0 < d then asyncio_sleep d else creturn ()) (\<lambda>_. drive deadline worker k))"

definition ws_msg_text :: "int \<Rightarrow> nat \<Rightarrow> pystr" where
  "ws_msg_text i n = ustr ''msg-'' @ py_str i @ ustr ''-'' @ py_str (int n)"

definition ws_h3_turn :: "'s env \<Rightarrow> int \<Rightarrow> nat \<Rightarrow> ('s, nat) work" where
  "ws_h3_turn env i n =
     (let msg = py_encode (ws_msg_text i n) in
      cbind (ccall (e_ws_send env OP_TEXT msg) (\<lambda>_. [])) (\<lambda>_.
        cbind (ccall (e_ws_recv env) (\<lambda>(op, pl). [WsEcho OP_TEXT msg op pl])) (\<lambda>(op, payload).
          if op \<noteq> OP_TEXT \<or> payload \<noteq> msg then craise (Fail (FWsEchoH3 op payload))
          else cbind (bump 200) (\<lambda>_. creturn (Suc n)))))"

definition ws_h3_once :: "'s env \<Rightarrow> pyfloat \<Rightarrow> int \<Rightarrow> unit \<Rightarrow> ('s, unit) work" where
  "ws_h3_once env deadline i _ =
     with_session env
       (cbind (ccall (e_ws_open env (ustr ''/ws'')) (\<lambda>_. [])) (\<lambda>status.
          if status \<noteq> 200 then craise (Fail (FWsHandshake status))
          else cbind (until_deadline deadline (ws_h3_turn env i) 0) (\<lambda>_. creturn ())))"

text \<open>\<open>str.replace\<close>: every occurrence, left to right, not overlapping.\<close>

function py_replace :: "pystr \<Rightarrow> pystr \<Rightarrow> pystr \<Rightarrow> pystr" where
  "py_replace old new s =
     (if old = [] \<or> s = [] then s
      else if take (length old) s = old then new @ py_replace old new (drop (length old) s)
      else hd s # py_replace old new (tl s))"
  by pat_completeness auto
termination by (relation "measure (\<lambda>(old, new, s). length s)") auto

declare py_replace.simps [simp del]

definition ws_url :: "config \<Rightarrow> pystr" where
  "ws_url cfg =
     py_replace (ustr ''http://'') (ustr ''ws://'') (py_replace (ustr ''https://'') (ustr ''wss://'') (BASE cfg))
     @ ustr ''/ws''"

definition ws_tls :: "config \<Rightarrow> bool" where
  "ws_tls cfg \<longleftrightarrow> take 6 (ws_url cfg) = ustr ''wss://''"

definition ws_turn :: "'s env \<Rightarrow> int \<Rightarrow> nat \<Rightarrow> ('s, nat) work" where
  "ws_turn env i n =
     (let msg = ws_msg_text i n in
      cbind (ccall (e_wst_send env msg) (\<lambda>_. [])) (\<lambda>_.
        cbind (ccall (e_wst_recv env) (\<lambda>m. [WsTextEcho msg m])) (\<lambda>m.
          if m \<noteq> msg then craise (Fail FWsEcho)
          else cbind (bump 200) (\<lambda>_. creturn (Suc n)))))"

definition ws_once :: "'s env \<Rightarrow> config \<Rightarrow> pyfloat \<Rightarrow> int \<Rightarrow> unit \<Rightarrow> ('s, unit) work" where
  "ws_once env cfg deadline i _ =
     cwith (ccall (e_wst_connect env (ws_url cfg) (ws_tls cfg) (WS_OPEN_TIMEOUT cfg)) (\<lambda>_. []))
       (ccall (e_wst_exit env) (\<lambda>_. []))
       (cbind (until_deadline deadline (ws_turn env i) 0) (\<lambda>_. creturn ()))"

section \<open>Server-sent events\<close>

text \<open>\<open>while b"\n" in buf\<close>: the complete lines of the buffer, and what is left of it.\<close>

function split_lines :: "bytes \<Rightarrow> bytes list \<times> bytes" where
  "split_lines buf =
     (case partition_on 10 buf of (line, found, rest) \<Rightarrow>
        if found then (let (ls, r) = split_lines rest in (line # ls, r)) else ([], buf))"
  by pat_completeness auto
termination
  by (relation "measure length") (simp_all, metis partition_on_shorter)

declare split_lines.simps [simp del]

definition decode_line :: "bytes \<Rightarrow> pystr" where
  "decode_line line = decode_utf8 (rstrip_on (\<lambda>c. c = 13) line)"

text \<open>\<open>read_lines\<close>: the lines each chunk completes go to \<open>f\<close> one by one.\<close>

fun each_line :: "(pystr \<Rightarrow> 'k \<Rightarrow> ('s, 'k) work) \<Rightarrow> bytes list \<Rightarrow> 'k \<Rightarrow> ('s, 'k) work" where
  "each_line f [] k = creturn k"
| "each_line f (line # ls) k =
     cbind (tell (RecvLine (decode_line line))) (\<lambda>_. cbind (f (decode_line line) k) (each_line f ls))"

fun read_lines ::
  "(pystr \<Rightarrow> 'k \<Rightarrow> ('s, 'k) work) \<Rightarrow> bytes \<Rightarrow> stream_item list \<Rightarrow> unit await \<Rightarrow> 'k \<Rightarrow> ('s, 'k) work" where
  "read_lines f buf [] fin k = cbind (of_await fin) (\<lambda>_. creturn k)"
| "read_lines f buf (SChunk chunk # items) fin k =
     (let (ls, buf') = split_lines (buf @ chunk)
      in cbind (each_line f ls k) (read_lines f buf' items fin))"
| "read_lines f buf (SStatus st # items) fin k = craise (PyErr TypeError)"

text \<open>\<open>st = await gen.__anext__(); if st != 200: raise Fail(...)\<close>; bytes never equal 200.\<close>

fun stream_status :: "(int \<Rightarrow> fail) \<Rightarrow> stream_item list \<Rightarrow> unit await \<Rightarrow> ('s, stream_item list) work" where
  "stream_status bad [] fin = cbind (of_await fin) (\<lambda>_. craise StopAsyncIteration)"
| "stream_status bad (SStatus st # items) fin =
     (if st \<noteq> 200 then craise (Fail (bad st)) else creturn items)"
| "stream_status bad (SChunk c # items) fin = craise (Fail (FStatusBytes c))"

definition open_stream ::
  "'s env \<Rightarrow> pystr \<Rightarrow> hdict \<Rightarrow> (int \<Rightarrow> fail) \<Rightarrow> ('s, stream_item list \<times> unit await) work" where
  "open_stream env path hdrs bad =
     cbind (ccall (\<lambda>s. let (r, s') = e_stream env (ustr ''GET'') path hdrs s in (Done r, s'))
              (\<lambda>_. [StreamStart path hdrs])) (\<lambda>(items, fin).
       cbind (stream_status bad items fin) (\<lambda>body. creturn (body, fin)))"

record sse_st =
  cur_id :: "int option"
  got :: int
  last_id :: "int option"
  progressed :: bool
  this_batch :: int

definition sse_total :: int where
  "sse_total = 100"

definition sse_batch :: int where
  "sse_batch = 20"

definition seqs_per_conn :: nat where
  "seqs_per_conn = 2000"

definition sse_line :: "pystr \<Rightarrow> sse_st \<Rightarrow> ('s, sse_st) work" where
  "sse_line line s =
     (if take 3 line = ustr ''id:'' then
        cbind (of_await (of_result (py_int (py_strip (drop 3 line))))) (\<lambda>i. creturn (s\<lparr>cur_id := Some i\<rparr>))
      else case cur_id s of
        Some c \<Rightarrow>
          if take 5 line = ustr ''data:'' then
            (if c \<noteq> got s then craise (Fail (FSseOrder c (got s)))
             else cbind (bump 200) (\<lambda>_.
               creturn \<lparr>cur_id = None, got = got s + 1, last_id = Some c, progressed = True,
                        this_batch = this_batch s + 1\<rparr>))
          else creturn s
      | None \<Rightarrow> creturn s)"

definition sse_hdrs :: "int option \<Rightarrow> hdict" where
  "sse_hdrs lst =
     (ustr ''accept'', ustr ''text/event-stream'')
       # (case lst of None \<Rightarrow> [] | Some i \<Rightarrow> [(ustr ''last-event-id'', py_str i)])"

text \<open>One turn of \<open>while got < total\<close>: one connection to the feed.\<close>

definition sse_connection :: "'s env \<Rightarrow> int \<times> int option \<Rightarrow> ('s, int \<times> int option) work" where
  "sse_connection env p =
     (case p of (g, lst) \<Rightarrow>
        cbind (open_stream env (ustr ''/sse'') (sse_hdrs lst) FSseStatus) (\<lambda>(items, fin).
          cbind (read_lines sse_line [] items fin
                   \<lparr>cur_id = None, got = g, last_id = lst, progressed = False, this_batch = 0\<rparr>) (\<lambda>s.
            if \<not> progressed s then craise (Fail FSseNoProgress)
            else if got s < sse_total \<and> this_batch s \<noteq> sse_batch
            then craise (Fail (FSseShortBatch (this_batch s) (got s)))
            else creturn (got s, last_id s))))"

text \<open>
  The loop has fuel: a connection that does not raise has raised \<open>got\<close> by at least one, so
  \<open>total\<close> turns are enough (\<open>sse_sequence_fuel\<close>).
\<close>

fun sse_loop :: "nat \<Rightarrow> 's env \<Rightarrow> int \<times> int option \<Rightarrow> ('s, unit) work" where
  "sse_loop 0 env p = (if fst p < sse_total then cwait else creturn ())"
| "sse_loop (Suc n) env p =
     (if fst p < sse_total then cbind (sse_connection env p) (sse_loop n env) else creturn ())"

definition sse_sequence :: "'s env \<Rightarrow> ('s, unit) work" where
  "sse_sequence env = sse_loop (nat sse_total) env (0, None)"

fun sse_sequences :: "nat \<Rightarrow> 's env \<Rightarrow> pyfloat \<Rightarrow> ('s, unit) work" where
  "sse_sequences 0 env deadline = creturn ()"
| "sse_sequences (Suc n) env deadline =
     cbind monotonic (\<lambda>t.
       if deadline \<le> t then creturn () else cbind (sse_sequence env) (\<lambda>_. sse_sequences n env deadline))"

definition sse_once :: "'s env \<Rightarrow> pyfloat \<Rightarrow> unit \<Rightarrow> ('s, unit) work" where
  "sse_once env deadline = until_deadline deadline (\<lambda>_. with_session env (sse_sequences seqs_per_conn env deadline))"

section \<open>Uploads\<close>

fun is_AttributeError :: "exn \<Rightarrow> bool" where
  "is_AttributeError (AttributeErr m) = True"
| "is_AttributeError (PyErr AttributeError) = True"
| "is_AttributeError e = False"

text \<open>A model exception \<open>PyErr AttributeError\<close> is \<open>None\<close> without an attribute other than \<open>call_soon\<close>.\<close>

fun teardown_race :: "exn \<Rightarrow> bool" where
  "teardown_race CancelledErr = True"
| "teardown_race (AttributeErr m) = sublist (ustr ''call_soon'') m"
| "teardown_race e = False"

text \<open>\<open>s.upload\<close> of a generator that notes every chunk it is asked to go on from.\<close>

definition upload ::
  "'s env \<Rightarrow> pystr \<Rightarrow> bytes list \<Rightarrow> (bytes \<Rightarrow> ev list) \<Rightarrow> pyfloat option \<Rightarrow> ('s, int) work" where
  "upload env sha chunks note timeout w =
     (let ((r, m), s') = e_upload env (ustr ''/upload'') [(ustr ''x-sha1'', sha)] chunks timeout (ext w)
      in (r, w\<lparr>ext := s',
               trace := trace w @ concat (map note (take m chunks)) @
                 (case r of Done st \<Rightarrow> [Uploaded sha chunks st] | _ \<Rightarrow> [])\<rparr>))"

definition body_note :: "config \<Rightarrow> bytes \<Rightarrow> ev list" where
  "body_note cfg c = (if IS_H3 cfg then [] else [Xfer (int (length c))])"

definition upload_probe :: "'s env \<Rightarrow> ('s, unit) work" where
  "upload_probe env =
     with_session env
       (cbind (upload env (replicate 40 48) [gen_chunk 0 4096] (\<lambda>_. []) None) (\<lambda>st.
          if st \<noteq> 400 then craise (Fail (FUploadProbe st)) else creturn ()))"

text \<open>The body of \<open>async with session()\<close>: whether the transfer was counted as abandoned, and \<open>slowest\<close>.\<close>

definition upload_timed ::
  "'s env \<Rightarrow> config \<Rightarrow> pystr \<Rightarrow> pyfloat \<Rightarrow> pyfloat \<Rightarrow> ('s, bool \<times> pyfloat) work" where
  "upload_timed env cfg sha deadline slowest =
     cbind monotonic (\<lambda>t0. cbind monotonic (\<lambda>t1.
       cbind (ctry (cbind (upload env sha (chunks_from (STREAM cfg) 0) (body_note cfg)
                             (Some (max 0 (fsub deadline t1)))) (\<lambda>st. creturn (Some st)))
                   (\<lambda>e. if e = TimeoutErr then cbind (tell Abandon) (\<lambda>_. creturn None) else craise e)) (\<lambda>r.
         case r of
           None \<Rightarrow> creturn (True, slowest)
         | Some st \<Rightarrow>
             if st = 400 then craise (Fail FUploadRejected)
             else if st \<noteq> 200 then craise (Fail (FUpload st))
             else cbind (bump 200) (\<lambda>_. cbind monotonic (\<lambda>t2.
               cbind (if IS_H3 cfg then tell (Xfer (STREAM cfg)) else creturn ()) (\<lambda>_.
                 creturn (False, max slowest (fsub t2 t0))))))))"

text \<open>
  The \<open>async with\<close> block: what left it, if anything did, and what the body had produced
  before the session's exit ran.
\<close>

definition upload_attempt ::
  "'s env \<Rightarrow> ('s, bool \<times> pyfloat) work \<Rightarrow> ('s, exn option \<times> (bool \<times> pyfloat) option) work" where
  "upload_attempt env body =
     cbind (csettle (ccall (e_open env) (\<lambda>_. []))) (\<lambda>entered.
       case entered of
         Inl e \<Rightarrow> creturn (Some e, None)
       | Inr _ \<Rightarrow>
           cbind (csettle body) (\<lambda>b.
             cbind (csettle (ccall (e_close env) (\<lambda>_. []))) (\<lambda>x.
               creturn
                 (case x of
                    Inl e \<Rightarrow> Some e
                  | Inr _ \<Rightarrow> (case b of Inl e \<Rightarrow> Some e | Inr _ \<Rightarrow> None),
                  case b of Inl _ \<Rightarrow> None | Inr p \<Rightarrow> Some p))))"

definition upload_once ::
  "'s env \<Rightarrow> config \<Rightarrow> pystr \<Rightarrow> pyfloat \<Rightarrow> pyfloat \<Rightarrow> ('s, pyfloat) work" where
  "upload_once env cfg sha deadline slowest =
     cbind monotonic (\<lambda>t.
       let left = fsub deadline t in
       if 0 < slowest \<and> left < slowest
       then cbind (asyncio_sleep (max 0 left)) (\<lambda>_. creturn slowest)
       else cbind (upload_attempt env (upload_timed env cfg sha deadline slowest)) (\<lambda>(err, res).
         let (counted, slowest') = (case res of None \<Rightarrow> (False, slowest) | Some p \<Rightarrow> p) in
         case err of
           None \<Rightarrow> creturn slowest'
         | Some e \<Rightarrow>
             if is_AttributeError e \<or> e = CancelledErr then
               cbind monotonic (\<lambda>t.
                 if t < deadline \<or> \<not> teardown_race e then craise e
                 else if \<not> counted then cbind (tell Abandon) (\<lambda>_. creturn slowest')
                 else creturn slowest')
             else craise e))"

section \<open>Downloads\<close>

text \<open>The chunks of the body: whether the transfer was abandoned, the hash and the length.\<close>

fun download_chunks ::
  "pyfloat \<Rightarrow> stream_item list \<Rightarrow> unit await \<Rightarrow> hasher \<Rightarrow> nat \<Rightarrow> ('s, bool \<times> hasher \<times> nat) work" where
  "download_chunks deadline [] fin h n = cbind (of_await fin) (\<lambda>_. creturn (False, h, n))"
| "download_chunks deadline (SChunk c # items) fin h n =
     cbind (tell (RecvChunk c)) (\<lambda>_.
       cbind (tell (Xfer (int (length c)))) (\<lambda>_.
         cbind monotonic (\<lambda>t.
           if deadline \<le> t then creturn (True, sha1_update h c, n + length c)
           else download_chunks deadline items fin (sha1_update h c) (n + length c))))"
| "download_chunks deadline (SStatus st # items) fin h n = craise (PyErr TypeError)"

definition download_transfer :: "'s env \<Rightarrow> config \<Rightarrow> pystr \<Rightarrow> pyfloat \<Rightarrow> ('s, bool) work" where
  "download_transfer env cfg want deadline =
     with_session env
       (cbind (open_stream env (ustr ''/download'') [] FDownloadStatus) (\<lambda>(items, fin).
          cbind (download_chunks deadline items fin sha1_new 0) (\<lambda>(abandon, h, n).
            if abandon then creturn True
            else if int n \<noteq> STREAM cfg \<or> hexdigest h \<noteq> want
            then craise (Fail (FDownloadMismatch n (hexdigest h) want))
            else cbind (bump 200) (\<lambda>_. creturn False))))"

definition download_once :: "'s env \<Rightarrow> config \<Rightarrow> pystr \<Rightarrow> pyfloat \<Rightarrow> unit \<Rightarrow> ('s, unit) work" where
  "download_once env cfg want deadline _ =
     ctry (cbind (download_transfer env cfg want deadline) (\<lambda>abandon.
             if abandon then tell Abandon else creturn ()))
       (\<lambda>e. if is_AttributeError e \<or> e = CancelledErr then
              cbind monotonic (\<lambda>t.
                if t < deadline \<or> \<not> teardown_race e then craise e else tell Abandon)
            else craise e)"

section \<open>The workloads\<close>

text \<open>
  What each \<open>w_*\<close> gathers: the workers, or the exception raised before any of them
  started. \<open>unit_worker\<close> forgets what a worker keeps for itself.
\<close>

definition unit_worker :: "('s, 'k) work \<Rightarrow> ('s, unit) work" where
  "unit_worker m = cbind m (\<lambda>_. creturn ())"

definition workers :: "int \<Rightarrow> (int \<Rightarrow> ('s, unit) work) \<Rightarrow> ('s, unit) work list" where
  "workers conc f = map f (map int [0..<nat conc])"

definition w_requests ::
  "codecs \<Rightarrow> config \<Rightarrow> bytes \<Rightarrow> bytes \<Rightarrow> 's env \<Rightarrow> pyfloat \<Rightarrow> int \<Rightarrow> ('s, unit) work list await" where
  "w_requests cod cfg r1 r2 env deadline conc =
     abind (prepare cod cfg (payload_mix r1 r2)) (\<lambda>prepared.
       Done (workers conc (\<lambda>_. drive deadline (requests_once env cfg deadline expected_gets prepared) ())))"

definition w_methods ::
  "codecs \<Rightarrow> config \<Rightarrow> bytes \<Rightarrow> bytes \<Rightarrow> 's env \<Rightarrow> pyfloat \<Rightarrow> ('s, unit) work list await" where
  "w_methods cod cfg r1 r2 env deadline =
     abind (prepare cod cfg (payload_mix r1 r2)) (\<lambda>prepared.
       Done (workers (CONC cfg) (\<lambda>_. drive deadline (methods_once env cfg deadline prepared) ())))"

definition w_ws :: "config \<Rightarrow> 's env \<Rightarrow> pyfloat \<Rightarrow> int \<Rightarrow> ('s, unit) work list" where
  "w_ws cfg env deadline conc =
     workers conc (\<lambda>i. ramped cfg deadline i conc
       (if IS_H3 cfg then ws_h3_once env deadline i else ws_once env cfg deadline i) ())"

definition w_sse :: "'s env \<Rightarrow> pyfloat \<Rightarrow> int \<Rightarrow> ('s, unit) work list" where
  "w_sse env deadline conc = workers conc (\<lambda>_. drive deadline (sse_once env deadline) ())"

text \<open>The negative probe of \<open>w_streamupload\<close> runs before its workers.\<close>

definition w_streamupload ::
  "config \<Rightarrow> 's env \<Rightarrow> pyfloat \<Rightarrow> int \<Rightarrow> ('s, ('s, unit) work list) work" where
  "w_streamupload cfg env deadline conc =
     cbind (upload_probe env) (\<lambda>_.
       creturn (workers conc (\<lambda>_.
         unit_worker (drive deadline (upload_once env cfg (expected_sha1 cfg) deadline) 0))))"

definition w_streamdownload :: "config \<Rightarrow> 's env \<Rightarrow> pyfloat \<Rightarrow> int \<Rightarrow> ('s, unit) work list" where
  "w_streamdownload cfg env deadline conc =
     workers conc (\<lambda>_. drive deadline (download_once env cfg (expected_sha1 cfg) deadline) ())"

end
