(* ===== verification/Stress_Report.thy ===== *)
theory Stress_Report
  imports Stress_Mix
begin

text \<open>
  The tallies of \<open>conformance/stress/client/stress_client.py\<close> and what is printed from
  them: \<open>bump\<close>, \<open>ok_ops\<close>, \<open>moved\<close>, the three diagnoses of \<open>no_progress\<close>, the report line with
  its throughput segments, the exception causes, and the two background tasks' output.
  A function that prints returns the lines. The text of an exception (\<open>str(e)\<close>, its class
  name) is the argument \<open>text\<close>.
\<close>

section \<open>Tallies\<close>

record stress = xfer_state +
  codes :: "int counter"
  ok_by :: "pystr counter"
  abandoned :: "pystr counter"
  rate_at :: pyfloat
  rate_bytes :: int
  ops_at :: pyfloat
  ops_count :: int
  mix_last :: "pystr counter"
  mix_at :: pyfloat

definition stress0 :: stress where
  "stress0 = \<lparr>xfer = 0, xfer_by = [], codes = [], ok_by = [], abandoned = [],
     rate_at = 0, rate_bytes = 0, ops_at = 0, ops_count = 0, mix_last = [], mix_at = 0\<rparr>"

definition IS_MIXED :: "config \<Rightarrow> bool" where
  "IS_MIXED cfg \<longleftrightarrow> WORKLOAD cfg = ustr ''mixed''"

definition is_2xx :: "int \<Rightarrow> bool" where
  "is_2xx c \<longleftrightarrow> 200 \<le> c \<and> c < 300"

text \<open>\<open>tag\<close> is \<open>TAG.get()\<close>.\<close>

definition bump_tally :: "config \<Rightarrow> pystr \<Rightarrow> int \<Rightarrow> int \<Rightarrow> stress \<Rightarrow> stress" where
  "bump_tally cfg tag status n s =
     (let s1 = s\<lparr>codes := cadd status n (codes s)\<rparr>
      in if is_2xx status \<and> IS_MIXED cfg then s1\<lparr>ok_by := cadd tag n (ok_by s1)\<rparr> else s1)"

definition abandon_tally :: "pystr \<Rightarrow> stress \<Rightarrow> stress" where
  "abandon_tally tag s = s\<lparr>abandoned := cadd tag 1 (abandoned s)\<rparr>"

definition ok_ops :: "stress \<Rightarrow> int" where
  "ok_ops s = sum_list (map snd (filter (\<lambda>(c, n). is_2xx c) (codes s)))"

definition moved :: "config \<Rightarrow> stress \<Rightarrow> pystr \<Rightarrow> int" where
  "moved cfg s tag = (if IS_MIXED cfg then cget (xfer_by s) tag else xfer s)"

definition no_progress :: "config \<Rightarrow> stress \<Rightarrow> pystr \<Rightarrow> pystr" where
  "no_progress cfg s tag =
     (let n = cget (abandoned s) tag in
      if n = 0 then ustr ''no successful iterations''
      else let bytes_moved = moved cfg s tag;
               head = ustr ''no transfer of '' @ py_str (STREAM cfg) @ ustr '' bytes completed within '' @
                 py_str (SECONDS cfg) @ ustr '' s on '' @ PROTO cfg @ ustr '' ('' @ py_str n @
                 ustr '' abandoned at the deadline, '' @ py_str bytes_moved @ ustr '' bytes moved)'' in
        if 0 < bytes_moved then
          head @ ustr ''; the transfers are too big for this run: lower '' @
          ustr ''VORTEX_STREAM_BYTES or raise VORTEX_SECONDS''
        else if tag = ustr ''streamupload'' \<and> IS_H3 cfg then
          head @ ustr ''; an h3 upload counts bytes only on completion, so the '' @
          ustr ''client cannot tell the two cases apart: either the transfers '' @
          ustr ''are too big for this run (lower VORTEX_STREAM_BYTES or raise '' @
          ustr ''VORTEX_SECONDS) or the server took nothing; check the server '' @ ustr ''log''
        else
          head @ ustr '': the server delivered nothing, a stall rather than a '' @
          ustr ''sizing problem; check the server log'')"

definition fmt_codes :: "stress \<Rightarrow> pystr" where
  "fmt_codes s =
     (let parts = map (\<lambda>(c, n). py_str c @ ustr ''x'' @ py_str n) (sort_key fst (codes s))
      in if parts \<noteq> [] then join_on (ustr '' '') parts else ustr ''0'')"

section \<open>Throughput segments\<close>

definition fmt_rate :: "config \<Rightarrow> pyfloat \<Rightarrow> stress \<Rightarrow> pystr \<times> stress" where
  "fmt_rate cfg now s =
     (let ops = ok_ops s;
          dt = fsub now (ops_at s); dn = ops - ops_count s;
          s' = s\<lparr>ops_at := now, ops_count := ops\<rparr>;
          rate = (if 0 < dt then fdiv (fl (of_int dn)) dt else 0)
      in (ustr '' | '' @ fmt_fixed 0 rate @ ustr '' '' @ UNIT cfg @ ustr ''/s'', s'))"

definition fmt_xfer :: "pyfloat \<Rightarrow> stress \<Rightarrow> pystr \<times> stress" where
  "fmt_xfer now s =
     (let dt = fsub now (rate_at s); db = xfer s - rate_bytes s;
          s' = s\<lparr>rate_at := now, rate_bytes := xfer s\<rparr>;
          rate = (if 0 < dt then fdiv (fdiv (fl (of_int db)) dt) (of_int MB) else 0)
      in (ustr '' | '' @ py_str (xfer s div MB) @ ustr ''MB xfer @ '' @ fmt_fixed 0 rate @ ustr ''MB/s'', s'))"

text \<open>\<open>b / MB\<close> does not overflow below \<open>2^1024\<close> bytes.\<close>

definition fmt_mb :: "int \<Rightarrow> pystr" where
  "fmt_mb b =
     (let mb = fl (of_int b / of_int MB)
      in if mb < 10 then fmt_fixed 1 mb @ ustr ''MB'' else py_str (b div MB) @ ustr ''MB'')"

definition MIX_SEG :: "config \<Rightarrow> pystr \<Rightarrow> int \<Rightarrow> pystr" where
  "MIX_SEG cfg t n =
     (if t = ustr ''requests'' then ustr ''req '' @ py_str n
      else if t = ustr ''ws'' then ustr ''ws '' @ py_str n @ ustr '' msgs''
      else if t = ustr ''sse'' then ustr ''sse '' @ py_str n @ ustr '' ev''
      else if t = ustr ''streamupload'' then
        ustr ''up '' @ py_str n @ ustr '' xfers '' @ fmt_mb (n * STREAM cfg)
      else ustr ''down '' @ py_str n @ ustr '' xfers '' @ fmt_mb (n * STREAM cfg))"

definition MIX_RATE :: "pystr list" where
  "MIX_RATE = [ustr ''requests'', ustr ''ws'', ustr ''sse'']"

fun mix_parts ::
  "config \<Rightarrow> (pystr \<times> int) list \<Rightarrow> pyfloat option \<Rightarrow> stress \<Rightarrow> pystr list \<times> stress" where
  "mix_parts cfg [] now s = ([], s)"
| "mix_parts cfg ((t, c) # slices) now s =
     (let n = cget (ok_by s) t;
          seg = MIX_SEG cfg t n;
          (seg', s') =
            (case now of
               None \<Rightarrow> (seg, s)
             | Some tm \<Rightarrow>
                 let d = n - cget (mix_last s) t; dt = fsub tm (mix_at s) in
                 (seg @ (if t \<in> set MIX_RATE
                    then ustr '' (+'' @ fmt_fixed 0 (if 0 < dt then fdiv (fl (of_int d)) dt else 0) @ ustr ''/s)''
                    else ustr '' (+'' @ py_str d @ ustr '')''),
                  s\<lparr>mix_last := AList.update t n (mix_last s)\<rparr>));
          (parts, s'') = mix_parts cfg slices now s'
      in (seg' # parts, s''))"

definition mix_segments ::
  "config \<Rightarrow> (pystr \<times> int) list \<Rightarrow> pyfloat option \<Rightarrow> stress \<Rightarrow> pystr \<times> stress" where
  "mix_segments cfg slices now s =
     (let (parts, s1) = mix_parts cfg slices now s
      in (join_on (ustr '' | '') parts,
          case now of None \<Rightarrow> s1 | Some tm \<Rightarrow> s1\<lparr>mix_at := tm\<rparr>))"

definition mix_tail :: "config \<Rightarrow> (pystr \<times> int) list \<Rightarrow> stress \<Rightarrow> pystr" where
  "mix_tail cfg slices s =
     (if IS_MIXED cfg then ustr '' ['' @ fst (mix_segments cfg slices None s) @ ustr '']'' else [])"

section \<open>The report line\<close>

definition opt_mb :: "int option \<Rightarrow> pystr" where
  "opt_mb v = (case v of None \<Rightarrow> ustr ''n/a'' | Some n \<Rightarrow> py_str (n div MB) @ ustr ''MB'')"

definition report_line ::
  "config \<Rightarrow> (pystr \<times> int) list \<Rightarrow> pyfloat \<Rightarrow> pyfloat \<Rightarrow> pystr \<Rightarrow>
   int option \<Rightarrow> int option \<Rightarrow> int option \<Rightarrow> stress \<Rightarrow> pystr \<times> stress" where
  "report_line cfg slices start now lead rss heap fds s =
     (let t = py_trunc (fsub now start);
          (seg, s') =
            (if IS_MIXED cfg then
               (let (m, s1) = mix_segments cfg slices (Some now) s in (ustr '' | '' @ m, s1))
             else if STREAMING cfg then fmt_xfer now s else fmt_rate cfg now s)
      in (ustr ''['' @ WORKLOAD cfg @ ustr '' '' @ PROTO cfg @ ustr '' '' @ SERVER cfg @ ustr ''] '' @
          lead @ fmt_codes s @ seg @ ustr '' | RSS '' @ opt_mb rss @ ustr '' | heap '' @ opt_mb heap @
          ustr '' | fds '' @ (case fds of None \<Rightarrow> ustr ''n/a'' | Some n \<Rightarrow> py_str n) @
          ustr '' | t='' @ py_str t @ ustr ''s'', s'))"

text \<open>
  The \<open>/stats\<close> sample: an \<open>Exception\<close> leaves the three figures unknown, anything else
  propagates.
\<close>

definition sampled ::
  "(int \<times> int \<times> int option) await \<Rightarrow> (int option \<times> int option \<times> int option) await" where
  "sampled r =
     (case r of
        Done (rss, heap, fds) \<Rightarrow> Done (Some rss, Some heap, fds)
      | Raised e \<Rightarrow> if is_Exception e then Done (None, None, None) else Raised e
      | Waiting \<Rightarrow> Waiting)"

text \<open>One turn of \<open>reporter\<close> after its sleep; \<open>stats\<close> is the outcome of the \<open>wait_for\<close>.\<close>

definition reporter_turn ::
  "config \<Rightarrow> (pystr \<times> int) list \<Rightarrow> pyfloat \<Rightarrow> pyfloat \<Rightarrow> (int \<times> int \<times> int option) await \<Rightarrow> stress \<Rightarrow>
   (pystr \<times> stress) await" where
  "reporter_turn cfg slices start now stats s =
     abind (sampled stats) (\<lambda>(rss, heap, fds). Done (report_line cfg slices start now [] rss heap fds s))"

text \<open>One turn of \<open>loop_watchdog\<close>: the clock before and after its one-second sleep.\<close>

definition watchdog_turn :: "pyfloat \<Rightarrow> pyfloat \<Rightarrow> pyfloat \<Rightarrow> pystr list" where
  "watchdog_turn start t0 t1 =
     (let lag = fsub (fsub t1 t0) 1
      in if 2 < lag
         then [ustr ''WARN client event-loop stalled '' @ fmt_fixed 1 lag @ ustr ''s (t='' @
               py_str (py_trunc (fsub t0 start)) @ ustr ''s)'']
         else [])"

section \<open>Causes\<close>

record exn_text =
  cls :: "exn \<Rightarrow> pystr"
  msg :: "exn \<Rightarrow> pystr"

fun leaf_causes :: "exn \<Rightarrow> exn list" where
  "leaf_causes (ExceptionGroup es) = concat (map leaf_causes es)"
| "leaf_causes e = [e]"

fun is_group :: "exn \<Rightarrow> bool" where
  "is_group (ExceptionGroup es) = True"
| "is_group e = False"

definition named_cause :: "exn_text \<Rightarrow> exn \<Rightarrow> pystr" where
  "named_cause text e = cls text e @ ustr '': '' @ msg text e"

text \<open>The verdict line of \<open>print_cause\<close>; the traceback follows it.\<close>

definition print_cause :: "config \<Rightarrow> (pystr \<times> int) list \<Rightarrow> exn_text \<Rightarrow> exn \<Rightarrow> stress \<Rightarrow> pystr" where
  "print_cause cfg slices text e s =
     (let leaves = leaf_causes e;
          d0 = join_on (ustr ''; '') (map (named_cause text) (take 3 leaves));
          d1 = (if 3 < length leaves then d0 @ ustr ''; (+'' @ py_str (int (length leaves) - 3) @ ustr '' more)'' else d0);
          d2 = (if is_group e then cls text e @ ustr ''['' @ d1 @ ustr '']'' else d1)
      in ustr ''FAIL '' @ WORKLOAD cfg @ ustr '': unexpected '' @ d2 @ ustr '' ('' @ fmt_codes s @ ustr '')'' @
         mix_tail cfg slices s)"

text \<open>\<open>watch_task\<close>: what the callback prints when the background task has ended.\<close>

definition watch_task :: "exn_text \<Rightarrow> pystr \<Rightarrow> unit await \<Rightarrow> pystr list" where
  "watch_task text name outcome =
     (case outcome of
        Raised e \<Rightarrow>
          if e = CancelledErr then []
          else [ustr ''WARN '' @ name @ ustr '' task died: '' @ named_cause text e]
      | _ \<Rightarrow> [])"

end
