(* ===== verification/Stress_Cell.thy ===== *)
theory Stress_Cell
  imports Stress_Work Stress_Report
begin

text \<open>
  A whole cell of \<open>conformance/stress/client/stress_client.py\<close>: the table of workloads, the mixed
  workload, \<open>main\<close> with its exit codes and printed lines, and how the concurrent workers'
  traces and the reporter's lines meet in the shared tallies. Scheduling is cooperative, so
  the shared state changes in whole events, in any interleaving of the workers' traces.
\<close>

section \<open>The table of workloads\<close>

type_synonym 's thread = "pystr \<times> ('s, unit) work"

definition WORKLOADS :: "pystr list" where
  "WORKLOADS = [ustr ''requests'', ustr ''methods'', ustr ''ws'', ustr ''sse'',
     ustr ''streamupload'', ustr ''streamdownload'', ustr ''mixed'']"

text \<open>
  One upload slice: the probe, then its worker. Both callers, the dedicated soak and the
  mixed one, run it with a single worker.
\<close>

definition upload_thread :: "config \<Rightarrow> 's env \<Rightarrow> pyfloat \<Rightarrow> ('s, unit) work" where
  "upload_thread cfg env deadline =
     cbind (w_streamupload cfg env deadline 1) (\<lambda>ws. cseq ws id)"

text \<open>The coroutines one call of a workload gathers; \<open>conc\<close> is absent for the default of each.\<close>

definition workload_threads ::
  "codecs \<Rightarrow> config \<Rightarrow> bytes \<Rightarrow> bytes \<Rightarrow> 's env \<Rightarrow> pyfloat \<Rightarrow> pystr \<Rightarrow> int option \<Rightarrow> ('s, unit) work list await" where
  "workload_threads cod cfg r1 r2 env deadline wl conc =
     (let c = (case conc of None \<Rightarrow> CONC cfg | Some n \<Rightarrow> n);
          c1 = (case conc of None \<Rightarrow> 1 | Some n \<Rightarrow> n) in
      if wl = ustr ''requests'' then w_requests cod cfg r1 r2 env deadline c
      else if wl = ustr ''methods'' then w_methods cod cfg r1 r2 env deadline
      else if wl = ustr ''ws'' then Done (w_ws cfg env deadline c)
      else if wl = ustr ''sse'' then Done (w_sse env deadline c)
      else if wl = ustr ''streamupload'' then Done (replicate (nat c1) (upload_thread cfg env deadline))
      else if wl = ustr ''streamdownload'' then Done (w_streamdownload cfg env deadline c1)
      else Raised (PyErr KeyError))"

fun w_mixed ::
  "codecs \<Rightarrow> config \<Rightarrow> bytes \<Rightarrow> bytes \<Rightarrow> 's env \<Rightarrow> pyfloat \<Rightarrow> (pystr \<times> int) list \<Rightarrow> 's thread list await" where
  "w_mixed cod cfg r1 r2 env deadline [] = Done []"
| "w_mixed cod cfg r1 r2 env deadline ((tag, n) # slices) =
     abind (workload_threads cod cfg r1 r2 env deadline tag (Some n)) (\<lambda>ws.
       abind (w_mixed cod cfg r1 r2 env deadline slices) (\<lambda>ts.
         Done (map (Pair tag) ws @ ts)))"

definition client_threads ::
  "codecs \<Rightarrow> config \<Rightarrow> (pystr \<times> int) list \<Rightarrow> bytes \<Rightarrow> bytes \<Rightarrow> 's env \<Rightarrow> pyfloat \<Rightarrow> 's thread list await" where
  "client_threads cod cfg slices r1 r2 env deadline =
     (if IS_MIXED cfg then w_mixed cod cfg r1 r2 env deadline slices
      else abind (workload_threads cod cfg r1 r2 env deadline (WORKLOAD cfg) None) (\<lambda>ws.
        Done (map (Pair (WORKLOAD cfg)) ws)))"

text \<open>\<open>[WORKLOADS[WORKLOAD]() for _ in range(CLIENTS)]\<close>\<close>

definition cell_threads ::
  "codecs \<Rightarrow> config \<Rightarrow> (pystr \<times> int) list \<Rightarrow> bytes \<Rightarrow> bytes \<Rightarrow> 's env \<Rightarrow> pyfloat \<Rightarrow> 's thread list await" where
  "cell_threads cod cfg slices r1 r2 env deadline =
     abind (client_threads cod cfg slices r1 r2 env deadline) (\<lambda>ts.
       Done (concat (replicate (nat (CLIENTS cfg)) ts)))"

section \<open>The shared tallies\<close>

fun apply_ev :: "config \<Rightarrow> pystr \<times> ev \<Rightarrow> stress \<Rightarrow> stress" where
  "apply_ev cfg (tag, Bump status n) s = bump_tally cfg tag status n s"
| "apply_ev cfg (tag, Xfer n) s = add_xfer (if IS_MIXED cfg then Some tag else None) n s"
| "apply_ev cfg (tag, Abandon) s = abandon_tally tag s"
| "apply_ev cfg (tag, _) s = s"

text \<open>What happens in a cell: an event of a worker, or a turn of the reporter.\<close>

datatype step = Ev pystr ev | Report pyfloat "(int \<times> int \<times> int option) await"

definition cell_step ::
  "config \<Rightarrow> (pystr \<times> int) list \<Rightarrow> pyfloat \<Rightarrow> step \<Rightarrow> stress \<times> pystr list \<Rightarrow> stress \<times> pystr list" where
  "cell_step cfg slices start st p =
     (case p of (s, lines) \<Rightarrow>
        (case st of
           Ev tag e \<Rightarrow> (apply_ev cfg (tag, e) s, lines)
         | Report now stats \<Rightarrow>
             (case reporter_turn cfg slices start now stats s of
                Done (line, s') \<Rightarrow> (s', lines @ [line])
              | _ \<Rightarrow> (s, lines))))"

text \<open>Every list of steps whose worker events interleave the given tagged traces.\<close>

inductive cell_log :: "(pystr \<times> ev list) list \<Rightarrow> step list \<Rightarrow> bool" where
  log_done: "\<forall>(tag, l) \<in> set tls. l = [] \<Longrightarrow> cell_log tls []"
| log_event: "cell_log (xs @ (tag, l) # ys) evs \<Longrightarrow> cell_log (xs @ (tag, e # l) # ys) (Ev tag e # evs)"
| log_report: "cell_log tls evs \<Longrightarrow> cell_log tls (Report now stats # evs)"

text \<open>
  The outcome of \<open>wait_for(gather(...))\<close>: done when every coroutine is; else the timeout, or the
  exception of one that raised.
\<close>

definition gather_outcome :: "unit await list \<Rightarrow> unit await \<Rightarrow> bool" where
  "gather_outcome rs g \<longleftrightarrow>
     (if list_all (\<lambda>r. r = Done ()) rs then g = Done ()
      else g = Raised TimeoutErr \<or> (case g of Raised e \<Rightarrow> Raised e \<in> set rs | _ \<Rightarrow> False))"

section \<open>main\<close>

fun is_interrupt :: "exn \<Rightarrow> bool" where
  "is_interrupt KeyboardInterrupt = True"
| "is_interrupt (SystemExit n) = True"
| "is_interrupt e = False"

definition somes :: "'a option list \<Rightarrow> 'a list" where
  "somes xs = map the (filter (\<lambda>x. x \<noteq> None) xs)"

definition group_opt :: "exn list \<Rightarrow> exn option" where
  "group_opt es = (if es = [] then None else Some (ExceptionGroup es))"

text \<open>\<open>eg.split((KeyboardInterrupt, SystemExit))\<close>: the matching part and the rest, nesting kept.\<close>

fun split_group :: "exn \<Rightarrow> exn option \<times> exn option" where
  "split_group (ExceptionGroup es) =
     (group_opt (somes (map (\<lambda>e. fst (split_group e)) es)),
      group_opt (somes (map (\<lambda>e. snd (split_group e)) es)))"
| "split_group e = (if is_interrupt e then (Some e, None) else (None, Some e))"

text \<open>
  The \<open>except\<close> arms of \<open>main\<close>: the lines printed, and the exit code or the exception that
  propagates.
\<close>

definition main_except ::
  "config \<Rightarrow> (pystr \<times> int) list \<Rightarrow> exn_text \<Rightarrow> exn \<Rightarrow> stress \<Rightarrow> pystr list \<times> int await" where
  "main_except cfg slices text e s =
     (case e of
        Fail f \<Rightarrow>
          ([ustr ''FAIL '' @ WORKLOAD cfg @ ustr '': '' @ msg text e @ ustr '' ('' @ fmt_codes s @ ustr '')'' @
            mix_tail cfg slices s], Done 1)
      | TimeoutErr \<Rightarrow>
          ([ustr ''FAIL '' @ WORKLOAD cfg @ ustr '': workers did not stop within deadline+60s '' @
            ustr ''(stall) ('' @ fmt_codes s @ ustr '')'' @ mix_tail cfg slices s], Done 1)
      | ExceptionGroup es \<Rightarrow>
          (case split_group e of (interrupts, rest) \<Rightarrow>
             case rest of
               None \<Rightarrow> ([], Raised e)
             | Some r \<Rightarrow>
                 ([print_cause cfg slices text r s],
                  case interrupts of Some i \<Rightarrow> Raised i | None \<Rightarrow> Done 1))
      | _ \<Rightarrow>
          if is_Exception e then ([print_cause cfg slices text e s], Done 1) else ([], Raised e))"

text \<open>What follows the \<open>try\<close> statement.\<close>

definition main_final ::
  "config \<Rightarrow> (pystr \<times> int) list \<Rightarrow> pyfloat \<Rightarrow> pyfloat \<Rightarrow> (int \<times> int \<times> int option) await \<Rightarrow> stress \<Rightarrow>
   pystr list \<times> int await" where
  "main_final cfg slices start now stats s =
     (case sampled stats of
        Raised e \<Rightarrow> ([], Raised e)
      | Waiting \<Rightarrow> ([], Waiting)
      | Done (rss, heap, fds) \<Rightarrow>
          (let total = ok_ops s;
               (line, s1) = report_line cfg slices start now (ustr ''final '') rss heap fds s in
           if IS_MIXED cfg then
             (let dead = map fst (filter (\<lambda>(t, _). cget (ok_by s1) t = 0) slices) in
              if dead \<noteq> [] then
                (line # map (\<lambda>t. ustr ''FAIL '' @ WORKLOAD cfg @ ustr '': '' @ t @ ustr '': '' @
                    no_progress cfg s1 t) dead, Done 1)
              else
                ([line, ustr ''== '' @ WORKLOAD cfg @ ustr '' '' @ SERVER cfg @ ustr '' '' @ PROTO cfg @
                  ustr '' passed ('' @ fst (mix_segments cfg slices None s1) @ ustr '') ==''], Done 0))
           else if total = 0 then
             ([line, ustr ''FAIL '' @ WORKLOAD cfg @ ustr '': '' @ no_progress cfg s1 (WORKLOAD cfg)], Done 1)
           else
             ([line, ustr ''== '' @ WORKLOAD cfg @ ustr '' '' @ SERVER cfg @ ustr '' '' @ PROTO cfg @
               ustr '' passed ('' @ py_str total @ ustr '' '' @ UNIT cfg @ ustr '') ==''], Done 0)))"

text \<open>\<open>_rate[0] = _ops[0] = _mix_at[0] = start\<close>\<close>

definition main_stamps :: "pyfloat \<Rightarrow> stress \<Rightarrow> stress" where
  "main_stamps start s = s\<lparr>rate_at := start, ops_at := start, mix_at := start\<rparr>"

definition cell_deadline :: "config \<Rightarrow> pyfloat \<Rightarrow> pyfloat" where
  "cell_deadline cfg start = fadd start (fl (of_int (SECONDS cfg)))"

text \<open>
  \<open>main\<close> on what happened while the workers ran: the steps of the cell, the outcome of the
  gather, the closing \<open>/stats\<close> sample and the clock at the final report.
\<close>

definition main ::
  "config \<Rightarrow> (pystr \<times> int) list \<Rightarrow> exn_text \<Rightarrow> pyfloat \<Rightarrow> step list \<Rightarrow> unit await \<Rightarrow>
   (int \<times> int \<times> int option) await \<Rightarrow> pyfloat \<Rightarrow> pystr list \<times> int await" where
  "main cfg slices text start evs gathered stats now =
     (if WORKLOAD cfg \<notin> set WORKLOADS
      then ([ustr ''unknown VORTEX_WORKLOAD: '' @ WORKLOAD cfg], Done 2)
      else
        (case fold (cell_step cfg slices start) evs (main_stamps start stress0, []) of (s, lines) \<Rightarrow>
           (case gathered of
              Done _ \<Rightarrow> (case main_final cfg slices start now stats s of (ls, r) \<Rightarrow> (lines @ ls, r))
            | Raised e \<Rightarrow> (case main_except cfg slices text e s of (ls, r) \<Rightarrow> (lines @ ls, r))
            | Waiting \<Rightarrow> (lines, Waiting))))"

end
