(* ===== verification/Stress_Audit.thy ===== *)
theory Stress_Audit
  imports Stress_Cell
begin

text \<open>
  What the workloads count. An audit reads a worker's trace and asks of every \<open>bump\<close> that the
  exchange before it is one the workload had to verify: the exact body and content type for
  the requests, the same message back for the WebSockets, the next event of the feed for SSE,
  the whole pattern's length and digest for the transfers. The contract of a worker's
  \<open>once\<close> is the locale \<open>verified_worker\<close>; every workload is an interpretation of it.
\<close>

section \<open>The audit\<close>

fun justified :: "(ev list \<Rightarrow> int \<Rightarrow> bool) \<Rightarrow> ev list \<Rightarrow> ev \<Rightarrow> bool" where
  "justified ok h (Bump st n) \<longleftrightarrow> n = 1 \<and> ok h st"
| "justified ok h e \<longleftrightarrow> True"

definition audited :: "(ev list \<Rightarrow> int \<Rightarrow> bool) \<Rightarrow> ev list \<Rightarrow> bool" where
  "audited ok l \<longleftrightarrow> (\<forall>i < length l. justified ok (take i l) (l ! i))"

fun ok_get :: "(pystr \<times> pystr \<times> bytes) list \<Rightarrow> ev \<Rightarrow> bool" where
  "ok_get gets (Exch m p h c (s, ct, b)) \<longleftrightarrow>
     m = ustr ''GET'' \<and> s = 200 \<and> (\<exists>(path, want_ct, want) \<in> set gets. p = path \<and> lower ct = lower want_ct \<and> b = want)"
| "ok_get gets e \<longleftrightarrow> False"

fun ok_echo :: "pystr list \<Rightarrow> (pystr \<times> bytes \<times> bytes \<times> hdict) list \<Rightarrow> ev \<Rightarrow> bool" where
  "ok_echo ms prepared (Exch m p h c (s, ct, b)) \<longleftrightarrow>
     m \<in> set ms \<and> p = ustr ''/echo'' \<and> s = 200 \<and>
     (\<exists>(ctype, raw, body, hdrs) \<in> set prepared. h = hdrs \<and> c = body \<and> b = raw \<and> lower ct = lower ctype)"
| "ok_echo ms prepared e \<longleftrightarrow> False"

definition ok_requests ::
  "(pystr \<times> pystr \<times> bytes) list \<Rightarrow> (pystr \<times> bytes \<times> bytes \<times> hdict) list \<Rightarrow> ev list \<Rightarrow> int \<Rightarrow> bool" where
  "ok_requests gets prepared t st \<longleftrightarrow>
     t \<noteq> [] \<and> st = 200 \<and> (ok_get gets (last t) \<or> ok_echo [ustr ''POST'', ustr ''PUT''] prepared (last t))"

fun ok_other :: "ev \<Rightarrow> int \<Rightarrow> bool" where
  "ok_other (Exch m p h c (s, ct, b)) st \<longleftrightarrow>
     m = ustr ''GET'' \<and> p = ustr ''/plaintext'' \<and> s = 200 \<and> b = bstr ''Hello, World!'' \<and> st = 200 \<or>
     m = ustr ''HEAD'' \<and> p = ustr ''/echo'' \<and> s = 200 \<and> b = [] \<and> st = 200 \<or>
     m = ustr ''OPTIONS'' \<and> p = ustr ''/echo'' \<and> s \<in> {200, 204} \<and> st = s"
| "ok_other e st \<longleftrightarrow> False"

definition ok_methods :: "(pystr \<times> bytes \<times> bytes \<times> hdict) list \<Rightarrow> ev list \<Rightarrow> int \<Rightarrow> bool" where
  "ok_methods prepared t st \<longleftrightarrow>
     t \<noteq> [] \<and> (ok_other (last t) st \<or>
       st = 200 \<and> ok_echo [ustr ''POST'', ustr ''PUT'', ustr ''DELETE'', ustr ''PATCH''] prepared (last t))"

fun ok_message :: "ev \<Rightarrow> bool" where
  "ok_message (WsEcho op1 sent op2 reply) \<longleftrightarrow> op1 = OP_TEXT \<and> op2 = OP_TEXT \<and> reply = sent"
| "ok_message (WsTextEcho sent reply) \<longleftrightarrow> reply = sent"
| "ok_message e \<longleftrightarrow> False"

definition ok_ws :: "ev list \<Rightarrow> int \<Rightarrow> bool" where
  "ok_ws t st \<longleftrightarrow> t \<noteq> [] \<and> st = 200 \<and> ok_message (last t)"

definition ok_upload :: "config \<Rightarrow> ev list \<Rightarrow> int \<Rightarrow> bool" where
  "ok_upload cfg t st \<longleftrightarrow>
     t \<noteq> [] \<and> st = 200 \<and> last t = Uploaded (expected_sha1 cfg) (chunks_from (STREAM cfg) 0) 200"

text \<open>The stream in progress: its path and headers, and what happened since it was opened.\<close>

fun seg_step :: "(pystr \<times> hdict \<times> ev list) option \<Rightarrow> ev \<Rightarrow> (pystr \<times> hdict \<times> ev list) option" where
  "seg_step acc (StreamStart p h) = Some (p, h, [])"
| "seg_step acc e = map_option (\<lambda>(p, h, l). (p, h, l @ [e])) acc"

definition segment :: "ev list \<Rightarrow> (pystr \<times> hdict \<times> ev list) option" where
  "segment t = foldl seg_step None t"

fun recv_chunk :: "ev \<Rightarrow> bytes" where
  "recv_chunk (RecvChunk c) = c"
| "recv_chunk e = []"

definition received :: "ev list \<Rightarrow> bytes" where
  "received l = concat (map recv_chunk l)"

definition ok_download :: "config \<Rightarrow> ev list \<Rightarrow> int \<Rightarrow> bool" where
  "ok_download cfg t st \<longleftrightarrow> st = 200 \<and>
     (case segment t of
        Some (p, h, l) \<Rightarrow> p = ustr ''/download'' \<and> int (length (received l)) = STREAM cfg \<and>
          sha1_hex (received l) = expected_sha1 cfg
      | None \<Rightarrow> False)"

text \<open>
  The feed: the id announced last and not used yet, the number of events counted on this
  connection, and where the connection resumed.
\<close>

fun pend_step :: "int option \<Rightarrow> ev \<Rightarrow> int option" where
  "pend_step p (RecvLine line) =
     (if take 3 line = ustr ''id:''
      then (case py_int (py_strip (drop 3 line)) of Inr i \<Rightarrow> Some i | Inl _ \<Rightarrow> p) else p)"
| "pend_step p (Bump st n) = None"
| "pend_step p e = p"

definition pending_id :: "ev list \<Rightarrow> int option" where
  "pending_id l = foldl pend_step None l"

fun bump_count :: "ev \<Rightarrow> int" where
  "bump_count (Bump st n) = n"
| "bump_count e = 0"

definition bumps :: "ev list \<Rightarrow> int" where
  "bumps l = sum_list (map bump_count l)"

definition resume :: "hdict \<Rightarrow> int" where
  "resume h =
     (case map_of h (ustr ''last-event-id'') of
        None \<Rightarrow> 0
      | Some s \<Rightarrow> (case nim_digits 0 s of Some v \<Rightarrow> v + 1 | None \<Rightarrow> 0))"

fun is_data_line :: "ev \<Rightarrow> bool" where
  "is_data_line (RecvLine line) \<longleftrightarrow> take 5 line = ustr ''data:''"
| "is_data_line e \<longleftrightarrow> False"

definition ok_sse :: "ev list \<Rightarrow> int \<Rightarrow> bool" where
  "ok_sse t st \<longleftrightarrow> st = 200 \<and>
     (case segment t of
        Some (p, h, l) \<Rightarrow> p = ustr ''/sse'' \<and> l \<noteq> [] \<and> is_data_line (last l) \<and>
          pending_id l = Some (resume h + bumps l)
      | None \<Rightarrow> False)"

text \<open>The audit of a workload, by its name.\<close>

definition ok_workload ::
  "config \<Rightarrow> (pystr \<times> bytes \<times> bytes \<times> hdict) list \<Rightarrow> pystr \<Rightarrow> ev list \<Rightarrow> int \<Rightarrow> bool" where
  "ok_workload cfg prepared wl =
     (if wl = ustr ''requests'' then ok_requests expected_gets prepared
      else if wl = ustr ''methods'' then ok_methods prepared
      else if wl = ustr ''ws'' then ok_ws
      else if wl = ustr ''sse'' then ok_sse
      else if wl = ustr ''streamupload'' then ok_upload cfg
      else ok_download cfg)"

section \<open>Rules\<close>

lemma audited_Nil [simp]: "audited ok []"
  by (simp add: audited_def)

lemma audited_snoc: "audited ok (t @ [e]) \<longleftrightarrow> audited ok t \<and> justified ok t e"
  unfolding audited_def by (auto simp: less_Suc_eq nth_append)

lemma segment_simps [simp]:
  "segment [] = None" "segment (t @ [e]) = seg_step (segment t) e"
  by (simp_all add: segment_def)

lemma pending_id_simps [simp]: "pending_id [] = None" "pending_id (l @ [e]) = pend_step (pending_id l) e"
  by (simp_all add: pending_id_def)

lemma bumps_simps [simp]: "bumps [] = 0" "bumps (l @ [e]) = bumps l + bump_count e"
  by (simp_all add: bumps_def)

lemma received_simps [simp]: "received [] = []" "received (l @ [e]) = received l @ recv_chunk e"
  by (simp_all add: received_def)

lemma nim_digits_append:
  "nim_digits v (xs @ ys) = (case nim_digits v xs of None \<Rightarrow> None | Some u \<Rightarrow> nim_digits u ys)"
  by (induction v xs rule: nim_digits.induct) auto

lemma nim_digits_dec: "nim_digits 0 (dec n) = Some (int n)"
proof (induction n rule: dec.induct)
  case (1 n)
  show ?case
  proof (cases "n < 10")
    case True
    then show ?thesis by (subst dec.simps) (simp add: is_adigit_def)
  next
    case False
    with 1 show ?thesis
      by (subst dec.simps) (simp add: nim_digits_append is_adigit_def zdiv_int zmod_int)
  qed
qed

named_theorems audit_intro \<open>the rules that walk a worker's body\<close>

lemma hoare_bump [audit_intro]:
  "(\<And>t. P t \<Longrightarrow> audited ok t \<and> ok t st) \<Longrightarrow> hoare P (bump st) (\<lambda>_. audited ok)"
  unfolding bump_def by (rule hoare_tell) (simp add: audited_snoc)

lemma hoare_bump_then [audit_intro]:
  "(\<And>t. P t \<Longrightarrow> audited ok t \<and> ok t st) \<Longrightarrow> (\<And>u. keeps (k u) (audited ok)) \<Longrightarrow>
   hoare P (cbind (bump st) k) (\<lambda>_. audited ok)"
  by (rule hoare_cbind [where R = "\<lambda>_. audited ok", OF hoare_bump]) auto

lemma hoare_stop [audit_intro]: "(\<And>t. P t \<Longrightarrow> audited ok t) \<Longrightarrow> hoare P (craise e) (\<lambda>_. audited ok)"
  by (rule hoare_craise)

lemma hoare_if [audit_intro]: "(b \<Longrightarrow> hoare P m Q) \<Longrightarrow> (\<not> b \<Longrightarrow> hoare P m' Q) \<Longrightarrow> hoare P (if b then m else m') Q"
  by simp

lemma keeps_quiet_tell [audit_intro]: "(\<And>h. justified ok h ev) \<Longrightarrow> keeps (tell ev) (audited ok)"
  by (rule keeps_tell) (simp add: audited_snoc)

text \<open>
  An awaited exchange followed by the checks on its result; the trace then ends with the
  note of the exchange.
\<close>

lemma keeps_exchange:
  assumes quiet: "\<And>h a. justified ok h (note a)"
    and f: "\<And>a. hoare (\<lambda>t. audited ok t \<and> (\<exists>h. t = h @ [note a])) (f a) (\<lambda>_. audited ok)"
  shows "keeps (cbind (ccall g (\<lambda>a. [note a])) f) (audited ok)"
proof (rule hoare_cbind [where R = "\<lambda>r t. audited ok t \<and> (\<forall>a. r = Done a \<longrightarrow> (\<exists>h. t = h @ [note a]))"])
  show "hoare (audited ok) (ccall g (\<lambda>a. [note a]))
      (\<lambda>r t. audited ok t \<and> (\<forall>a. r = Done a \<longrightarrow> (\<exists>h. t = h @ [note a])))"
    by (rule hoare_ccall) (auto simp: audited_snoc quiet)
next
  show "hoare (\<lambda>t. audited ok t \<and> (\<forall>a'. Done a = Done a' \<longrightarrow> (\<exists>h. t = h @ [note a'])))
      (f a) (\<lambda>_. audited ok)" for a
    by (rule hoare_weaken [OF f]) auto
qed auto

section \<open>The contract of a worker\<close>

definition fresh :: "pyfloat list \<Rightarrow> 's \<Rightarrow> ('s, ev) world" where
  "fresh ts s = \<lparr>clk = ts, ext = s, trace = []\<rparr>"

locale verified_worker =
  fixes ok :: "ev list \<Rightarrow> int \<Rightarrow> bool"
    and once :: "'k \<Rightarrow> ('s, 'k) work"
  assumes once_keeps: "keeps (once k) (audited ok)"
begin

lemma drive_keeps: "keeps (drive deadline once k) (audited ok)"
  unfolding drive_def by (intro runs_intro once_keeps)

lemma ramped_keeps: "keeps (ramped cfg deadline i conc once k) (audited ok)"
  unfolding ramped_def Let_def asyncio_sleep_def
  by (auto intro!: keeps_cbind drive_keeps keeps_quiet_tell keeps_basic)

lemma drive_audited: "audited ok (trace (snd (drive deadline once k (fresh ts s))))"
proof -
  obtain r w where d: "drive deadline once k (fresh ts s) = (r, w)" by fastforce
  have "audited ok (trace (fresh ts s))" by (simp add: fresh_def)
  from hoareD [OF drive_keeps this d] show ?thesis by (simp add: d)
qed

end

end
