(* ===== verification/Stress_Work_Props.thy ===== *)
theory Stress_Work_Props
  imports Stress_Audit
begin

text \<open>
  The workloads keep their audits: every workload's \<open>once\<close> is a \<open>verified_worker\<close>, so no
  worker of any cell counts an exchange it did not verify, whatever the server, the network
  and the clock do.
\<close>

section \<open>Requests and methods\<close>

declare cseq.simps [simp del]

lemma keeps_with_session: "keeps m (audited ok) \<Longrightarrow> keeps (with_session env m) (audited ok)"
  unfolding with_session_def by (intro runs_intro)

lemma echo_once_keeps:
  assumes p: "p \<in> set prepared" and m: "m \<in> set ms"
    and ok: "\<And>h e. ok_echo ms prepared e \<Longrightarrow> ok (h @ [e]) 200"
  shows "keeps (echo_once env p m) (audited ok)"
proof -
  obtain ctype raw body hdrs where q: "p = (ctype, raw, body, hdrs)" by (cases p) auto
  have "ok (h @ [Exch m (ustr ''/echo'') hdrs body (200, ct, raw)]) 200" if "lower ct = lower ctype" for h ct
    using that p m by (intro ok) (auto simp: q intro!: bexI [of _ p])
  then show ?thesis
    unfolding echo_once_def request_def q prod.case
    by (intro keeps_exchange) (auto split: prod.split intro!: audit_intro)
qed

lemma requests_once_keeps:
  assumes "gets \<noteq> []" and "prepared \<noteq> []"
  shows "keeps (requests_once env cfg dl gets prepared u) (audited (ok_requests gets prepared))"
proof -
  have g: "gets ! (k mod length gets) \<in> set gets" for k using assms(1) by simp
  have p: "prepared ! (k mod length prepared) \<in> set prepared" for k using assms(2) by simp
  have "keeps (requests_turn env h gets prepared k) (audited (ok_requests gets prepared))" for h k
  proof -
    obtain path ct want where q: "gets ! (k mod length gets) = (path, ct, want)"
      by (cases "gets ! (k mod length gets)") auto
    have e: "keeps (cseq [ustr ''POST'', ustr ''PUT''] (echo_once env (prepared ! (k mod length prepared))))
        (audited (ok_requests gets prepared))"
      by (rule keeps_cseq, rule echo_once_keeps [OF p, where ms = "[ustr ''POST'', ustr ''PUT'']"])
        (auto simp: ok_requests_def)
    show ?thesis unfolding requests_turn_def q prod.case request_def
      using g [of k] by (intro keeps_exchange)
        (auto split: prod.split intro!: audit_intro keeps_cbind e keeps_basic simp: ok_requests_def q
          intro: bexI [of _ "(path, ct, want)"])
  qed
  then show ?thesis unfolding requests_once_def by (intro keeps_with_session runs_intro)
qed

lemma methods_once_keeps:
  assumes "prepared \<noteq> []"
  shows "keeps (methods_once env cfg dl prepared u) (audited (ok_methods prepared))"
proof -
  let ?ms = "[ustr ''POST'', ustr ''PUT'', ustr ''DELETE'', ustr ''PATCH'']"
  have p: "prepared ! (k mod length prepared) \<in> set prepared" for k using assms by simp
  have e: "keeps (cseq ?ms (echo_once env (prepared ! (k mod length prepared)))) (audited (ok_methods prepared))" for k
    by (rule keeps_cseq, rule echo_once_keeps [OF p, where ms = ?ms]) (auto simp: ok_methods_def)
  have opt: "keeps (cbind (request env (ustr ''OPTIONS'') (ustr ''/echo'') [] []) (\<lambda>(st, _, _).
      if st \<notin> {200, 204} then craise (Fail (FOptions st))
      else cbind (bump st) (\<lambda>_. creturn k))) (audited (ok_methods prepared))" for k :: nat
    unfolding request_def
    by (intro keeps_exchange) (auto split: prod.split intro!: audit_intro keeps_basic simp: ok_methods_def)
  have head: "keeps (cbind (request env (ustr ''HEAD'') (ustr ''/echo'') h []) (\<lambda>(st, _, b).
      if st \<noteq> 200 \<or> b \<noteq> [] then craise (Fail (FHead st (length b)))
      else cbind (bump 200) (\<lambda>_. m))) (audited (ok_methods prepared))"
    if "keeps m (audited (ok_methods prepared))" for h and m :: "('a, nat) work"
    unfolding request_def using that
    by (intro keeps_exchange) (auto split: prod.split intro!: audit_intro simp: ok_methods_def)
  have "keeps (methods_turn env h prepared k) (audited (ok_methods prepared))" for h k
    unfolding methods_turn_def request_def [of env "ustr ''GET''"]
    using head [OF opt [of "Suc k"], of h] by (intro keeps_exchange)
      (auto split: prod.split intro!: audit_intro keeps_cbind [OF e] simp: ok_methods_def)
  then show ?thesis unfolding methods_once_def by (intro keeps_with_session runs_intro)
qed

section \<open>WebSockets\<close>

lemma ws_h3_once_keeps: "keeps (ws_h3_once env dl i u) (audited ok_ws)"
proof -
  have "keeps (ws_h3_turn env i n) (audited ok_ws)" for n
    unfolding ws_h3_turn_def Let_def case_prod_unfold
    by (intro keeps_cbind [OF keeps_basic(7)] keeps_exchange)
      (auto split: prod.split intro!: audit_intro keeps_basic simp: ok_ws_def)
  then show ?thesis unfolding ws_h3_once_def
    by (intro keeps_with_session keeps_cbind keeps_basic) (auto intro!: runs_intro)
qed

lemma ws_once_keeps: "keeps (ws_once env cfg dl i u) (audited ok_ws)"
proof -
  have "keeps (ws_turn env i n) (audited ok_ws)" for n
    unfolding ws_turn_def Let_def
    by (intro keeps_cbind [OF keeps_basic(7)] keeps_exchange)
      (auto intro!: audit_intro keeps_basic simp: ok_ws_def)
  then show ?thesis unfolding ws_once_def by (intro runs_intro)
qed

section \<open>Transfers\<close>

lemma audited_quiet:
  "audited ok t \<Longrightarrow> (\<And>h e. e \<in> set l \<Longrightarrow> justified ok h e) \<Longrightarrow> audited ok (t @ l)"
proof (induction l rule: rev_induct)
  case (snoc e l)
  then have "audited ok ((t @ l) @ [e])" by (simp only: audited_snoc) simp
  then show ?case by simp
qed simp

lemma hoare_upload:
  assumes "\<And>h c e. e \<in> set (note c) \<Longrightarrow> justified ok h e"
  shows "hoare (audited ok) (upload env sha chunks note tm)
    (\<lambda>r t. audited ok t \<and> (\<forall>st. r = Done st \<longrightarrow> (\<exists>h. t = h @ [Uploaded sha chunks st])))"
proof (rule hoareI)
  fix w r w' assume u: "upload env sha chunks note tm w = (r, w')" and t: "audited ok (trace w)"
  obtain m s' where e: "e_upload env (ustr ''/upload'') [(ustr ''x-sha1'', sha)] chunks tm (ext w) = ((r, m), s')"
    using u by (auto simp: upload_def Let_def split: prod.splits)
  let ?l = "concat (map note (take m chunks))"
  have q: "audited ok (trace w @ ?l)" by (rule audited_quiet [OF t]) (use assms in auto)
  have w': "trace w' = (trace w @ ?l) @ (case r of Done st \<Rightarrow> [Uploaded sha chunks st] | _ \<Rightarrow> [])"
    using u e by (auto simp: upload_def Let_def)
  show "audited ok (trace w') \<and> (\<forall>st. r = Done st \<longrightarrow> (\<exists>h. trace w' = h @ [Uploaded sha chunks st]))"
  proof (cases r)
    case (Done st)
    then have e2: "trace w' = (trace w @ ?l) @ [Uploaded sha chunks st]" using w' by simp
    show ?thesis unfolding e2 audited_snoc using q Done by simp
  qed (use w' q in simp_all)
qed

lemma hoare_until_timeout:
  "hoare (audited ok)
    (ctry (cbind (upload env sha chunks (body_note cfg) tm) (\<lambda>st. creturn (Some st)))
      (\<lambda>e. if e = TimeoutErr then cbind (tell Abandon) (\<lambda>_. creturn None) else craise e))
    (\<lambda>r t. audited ok t \<and> (\<forall>st. r = Done (Some st) \<longrightarrow> (\<exists>h. t = h @ [Uploaded sha chunks st])))"
proof (rule hoare_ctry)
  have n: "justified ok h e" if "e \<in> set (body_note cfg c)" for h e c
    using that by (auto simp: body_note_def split: if_splits)
  show "hoare (audited ok) (cbind (upload env sha chunks (body_note cfg) tm) (\<lambda>st. creturn (Some st)))
    (\<lambda>r t. audited ok t \<and> (\<forall>st. r = Done (Some st) \<longrightarrow> (\<exists>h. t = h @ [Uploaded sha chunks st])))"
    by (rule hoare_cbind [OF hoare_upload]) (auto intro: n hoare_creturn)
qed (auto intro!: hoare_if hoare_craise hoare_cbind [where R = "\<lambda>_. audited ok"] hoare_tell hoare_creturn
    simp: audited_snoc)

lemma upload_timed_keeps:
  "keeps (upload_timed env cfg (expected_sha1 cfg) dl sl) (audited (ok_upload cfg))"
  unfolding upload_timed_def
  by (intro keeps_cbind [OF keeps_basic(5)] hoare_cbind [OF hoare_until_timeout])
    (auto split: option.split intro!: audit_intro keeps_cbind keeps_basic hoare_creturn simp: ok_upload_def)

lemma upload_once_keeps:
  "keeps (upload_once env cfg (expected_sha1 cfg) dl sl) (audited (ok_upload cfg))"
proof -
  have "keeps (upload_attempt env (upload_timed env cfg (expected_sha1 cfg) dl sl)) (audited (ok_upload cfg))"
    unfolding upload_attempt_def
    by (intro keeps_cbind keeps_csettle keeps_basic)
      (auto split: sum.split intro!: keeps_cbind keeps_csettle keeps_basic upload_timed_keeps)
  then show ?thesis
    unfolding upload_once_def Let_def asyncio_sleep_def case_prod_unfold
    by (intro keeps_cbind [OF keeps_basic(5)])
      (auto split: option.split intro!: audit_intro keeps_cbind keeps_basic)
qed

definition download_inv :: "config \<Rightarrow> hasher \<Rightarrow> nat \<Rightarrow> ev list \<Rightarrow> bool" where
  "download_inv cfg h n t \<longleftrightarrow> audited (ok_download cfg) t \<and>
     (case segment t of Some (p, hs, l) \<Rightarrow> p = ustr ''/download'' \<and> received l = h \<and> n = length h | None \<Rightarrow> False)"

lemma download_invD: "download_inv cfg h n t \<Longrightarrow> audited (ok_download cfg) t"
  by (simp add: download_inv_def)

lemma hoare_download_chunks:
  "hoare (download_inv cfg h n) (download_chunks dl items fin h n)
    (\<lambda>r t. audited (ok_download cfg) t \<and> (\<forall>b h' n'. r = Done (b, h', n') \<longrightarrow> download_inv cfg h' n' t))"
proof (induction dl items fin h n rule: download_chunks.induct)
  case (1 dl fin h n)
  show ?case unfolding download_chunks.simps
    by (rule hoare_cbind [where R = "\<lambda>_. download_inv cfg h n"])
      (auto intro!: hoare_of_await hoare_creturn simp: download_inv_def)
next
  case (2 dl c items fin h n)
  let ?I = "download_inv cfg (sha1_update h c) (n + length c)"
  have t: "hoare (download_inv cfg h n) (tell (RecvChunk c)) (\<lambda>_. ?I)"
    by (rule hoare_tell) (auto simp: download_inv_def audited_snoc sha1_update_def split: option.splits)
  have x: "hoare ?I (tell (Xfer (int (length c)))) (\<lambda>_. ?I)"
    by (rule hoare_tell) (auto simp: download_inv_def audited_snoc split: option.splits)
  show ?case unfolding download_chunks.simps
    by (rule hoare_cbind [OF t], rule hoare_cbind [OF x], rule hoare_cbind [where R = "\<lambda>_. ?I"])
      (auto intro!: hoare_if hoare_monotonic hoare_creturn "2.IH" dest: download_invD)
next
  case (3 dl st items fin h n)
  show ?case by (auto intro!: hoare_craise simp: download_inv_def)
qed

lemma hoare_open_stream:
  "hoare (audited ok) (open_stream env path hdrs bad)
    (\<lambda>r t. audited ok t \<and> (\<forall>x. r = Done x \<longrightarrow> segment t = Some (path, hdrs, [])))"
proof -
  have st: "keeps (stream_status bad items fin) I" for items fin and I :: "ev list \<Rightarrow> bool"
    by (cases "(bad, items, fin)" rule: stream_status.cases)
      (auto intro!: keeps_cbind keeps_basic)
  let ?R = "\<lambda>t. audited ok t \<and> segment t = Some (path, hdrs, [])"
  show ?thesis unfolding open_stream_def
  proof (rule hoare_cbind [where R = "\<lambda>r t. audited ok t \<and> (\<forall>x. r = Done x \<longrightarrow> segment t = Some (path, hdrs, []))"])
    fix a :: "stream_item list \<times> unit await"
    obtain items fin where a: "a = (items, fin)" by fastforce
    have "keeps (cbind (stream_status bad items fin) (\<lambda>body. creturn (body, fin))) ?R"
      by (intro keeps_cbind st keeps_basic)
    then show "hoare (\<lambda>t. audited ok t \<and> (\<forall>x. Done a = Done x \<longrightarrow> segment t = Some (path, hdrs, [])))
        (case a of (items, fin) \<Rightarrow> cbind (stream_status bad items fin) (\<lambda>body. creturn (body, fin)))
        (\<lambda>r t. audited ok t \<and> (\<forall>x. r = Done x \<longrightarrow> segment t = Some (path, hdrs, [])))"
      unfolding a prod.case by (rule hoare_weaken) auto
  qed (auto intro!: hoare_ccall simp: audited_snoc)
qed

lemma download_transfer_keeps:
  "keeps (download_transfer env cfg (expected_sha1 cfg) dl) (audited (ok_download cfg))"
proof -
  let ?I = "audited (ok_download cfg)"
  have bump: "hoare (download_inv cfg h n) (cbind (bump 200) (\<lambda>_. creturn False)) (\<lambda>_. ?I)"
    if "int n = STREAM cfg" "hexdigest h = expected_sha1 cfg" for h n
    using that
    by (auto intro!: audit_intro keeps_basic simp: download_inv_def ok_download_def hexdigest_def split: option.splits)
  have body: "hoare (\<lambda>t. ?I t \<and> segment t = Some (ustr ''/download'', [], []))
      (cbind (download_chunks dl items fin sha1_new 0) (\<lambda>(abandon, h, n).
            if abandon then creturn True
            else if int n \<noteq> STREAM cfg \<or> hexdigest h \<noteq> expected_sha1 cfg
            then craise (Fail (FDownloadMismatch n (hexdigest h) (expected_sha1 cfg)))
            else cbind (bump 200) (\<lambda>_. creturn False))) (\<lambda>_. ?I)" for items fin
  proof (rule hoare_cbind)
    show "hoare (\<lambda>t. ?I t \<and> segment t = Some (ustr ''/download'', [], [])) (download_chunks dl items fin sha1_new 0)
        (\<lambda>r t. ?I t \<and> (\<forall>b h n. r = Done (b, h, n) \<longrightarrow> download_inv cfg h n t))"
      by (rule hoare_weaken [OF hoare_download_chunks]) (auto simp: download_inv_def sha1_new_def)
  qed (auto split: prod.split intro!: hoare_if hoare_craise hoare_creturn
      hoare_weaken [OF bump, where Q' = "\<lambda>_. ?I"])
  show ?thesis unfolding download_transfer_def
    by (intro keeps_with_session hoare_cbind [OF hoare_open_stream])
      (auto split: prod.split intro: hoare_weaken [OF body])
qed

lemma download_once_keeps:
  "keeps (download_once env cfg (expected_sha1 cfg) dl u) (audited (ok_download cfg))"
  unfolding download_once_def
  by (auto intro!: audit_intro keeps_ctry keeps_cbind download_transfer_keeps keeps_basic)

section \<open>The feed\<close>

definition linked :: "int \<Rightarrow> int option \<Rightarrow> bool" where
  "linked g lst \<longleftrightarrow> (case lst of None \<Rightarrow> g = 0 | Some i \<Rightarrow> 0 \<le> i \<and> g = i + 1)"

definition sse_inv :: "sse_st \<Rightarrow> ev list \<Rightarrow> bool" where
  "sse_inv s t \<longleftrightarrow> audited ok_sse t \<and> linked (got s) (last_id s) \<and>
     (case segment t of
        Some (p, h, l) \<Rightarrow> p = ustr ''/sse'' \<and> pending_id l = cur_id s \<and> resume h + bumps l = got s
      | None \<Rightarrow> False)"

abbreviation sse_post :: "sse_st await \<Rightarrow> ev list \<Rightarrow> bool" where
  "sse_post r t \<equiv> audited ok_sse t \<and> (\<forall>s. r = Done s \<longrightarrow> sse_inv s t)"

lemma resume_hdrs: "linked g lst \<Longrightarrow> resume (sse_hdrs lst) = g"
proof -
  assume l: "linked g lst"
  show ?thesis
  proof (cases lst)
    case (Some i)
    with l have i: "0 \<le> i" "g = i + 1" by (auto simp: linked_def)
    then have "nim_digits 0 (py_str i) = Some i" using nim_digits_dec [of "nat i"] by (simp add: py_str_def)
    with i Some show ?thesis by (simp add: resume_def sse_hdrs_def)
  qed (use l in \<open>simp add: resume_def sse_hdrs_def linked_def\<close>)
qed

lemma sse_inv_line:
  assumes "sse_inv s t"
  shows "audited ok_sse (t @ [RecvLine line])"
    and "take 3 line \<noteq> ustr ''id:'' \<Longrightarrow> sse_inv s (t @ [RecvLine line])"
    and "take 3 line = ustr ''id:'' \<Longrightarrow> py_int (py_strip (drop 3 line)) = Inr i \<Longrightarrow>
      sse_inv (s\<lparr>cur_id := Some i\<rparr>) (t @ [RecvLine line])"
  using assms by (auto simp: sse_inv_def audited_snoc split: option.splits)

lemma sse_inv_bump:
  assumes "sse_inv s (t @ [RecvLine line])" and "take 5 line = ustr ''data:''" and "cur_id s = Some (got s)"
  shows "sse_inv \<lparr>cur_id = None, got = got s + 1, last_id = Some (got s), progressed = True,
      this_batch = this_batch s + 1\<rparr> (t @ [RecvLine line] @ [Bump 200 1])"
proof -
  obtain p h l where seg: "segment t = Some (p, h, l)"
    using assms(1) by (cases "segment t") (auto simp: sse_inv_def)
  have "0 \<le> got s" using assms(1) by (auto simp: sse_inv_def linked_def split: option.splits)
  moreover have "ok_sse (t @ [RecvLine line]) 200"
    using assms seg by (simp add: sse_inv_def ok_sse_def)
  moreover have "audited ok_sse (t @ [RecvLine line])" using assms(1) by (simp add: sse_inv_def)
  ultimately have "audited ok_sse ((t @ [RecvLine line]) @ [Bump 200 1])" by (simp only: audited_snoc) simp
  moreover have "segment ((t @ [RecvLine line]) @ [Bump 200 1]) = Some (p, h, l @ [RecvLine line] @ [Bump 200 1])"
    unfolding segment_simps seg by simp
  moreover have "pending_id (l @ [RecvLine line] @ [Bump 200 1]) = None"
    "bumps (l @ [RecvLine line] @ [Bump 200 1]) = bumps l + 1"
    by (simp_all only: append_assoc [symmetric] pending_id_simps bumps_simps) simp_all
  ultimately show ?thesis using assms(1) seg \<open>0 \<le> got s\<close>
    by (simp add: sse_inv_def linked_def)
qed

lemma hoare_sse_line:
  "hoare (sse_inv s) (cbind (tell (RecvLine line)) (\<lambda>_. sse_line line s)) sse_post"
proof (rule hoareI)
  fix w r w' assume c: "cbind (tell (RecvLine line)) (\<lambda>_. sse_line line s) w = (r, w')" and I: "sse_inv s (trace w)"
  let ?w = "w\<lparr>trace := trace w @ [RecvLine line]\<rparr>"
  note l = sse_inv_line [OF I, of line]
  have run: "sse_line line s ?w = (r, w')" using c by (simp add: cbind_tell)
  show "sse_post r (trace w')"
  proof (cases "take 3 line = ustr ''id:''")
    case True
    show ?thesis
    proof (cases "py_int (py_strip (drop 3 line))")
      case (Inl e)
      with run True l(1) show ?thesis by (auto simp: sse_line_def cbind_def of_await_def)
    next
      case (Inr i)
      with run True l show ?thesis by (auto simp: sse_line_def cbind_def of_await_def creturn_def)
    qed
  next
    case False
    show ?thesis
    proof (cases "cur_id s = Some (got s) \<and> take 5 line = ustr ''data:''")
      case True
      with run False have "r = Done \<lparr>cur_id = None, got = got s + 1, last_id = Some (got s), progressed = True,
          this_batch = this_batch s + 1\<rparr>" "trace w' = trace w @ [RecvLine line] @ [Bump 200 1]"
        by (auto simp: sse_line_def bump_def cbind_tell creturn_def)
      with sse_inv_bump [OF l(2) [OF False]] True show ?thesis by (auto simp: sse_inv_def)
    next
      case no: False
      then have "w' = ?w \<and> (r = Done s \<or> (\<exists>e. r = Raised e))"
        using run False by (auto simp: sse_line_def creturn_def craise_def split: option.splits if_splits)
      with l(1, 2) False show ?thesis by auto
    qed
  qed
qed

lemma hoare_each_line: "hoare (sse_inv s) (each_line sse_line ls s) sse_post"
proof (induction ls arbitrary: s)
  case Nil
  show ?case by (auto intro!: hoare_creturn simp: sse_inv_def)
next
  case (Cons line ls)
  have eq: "each_line sse_line (line # ls) s =
      cbind (cbind (tell (RecvLine (decode_line line))) (\<lambda>_. sse_line (decode_line line) s)) (each_line sse_line ls)"
    by (simp add: cbind_assoc)
  show ?case unfolding eq
    by (rule hoare_cbind [OF hoare_sse_line]) (auto intro: hoare_weaken [OF Cons.IH])
qed

lemma hoare_read_lines: "hoare (sse_inv s) (read_lines sse_line buf items fin s) sse_post"
proof (induction "sse_line :: pystr \<Rightarrow> sse_st \<Rightarrow> ('a, sse_st) work" buf items fin s rule: read_lines.induct)
  case (1 buf fin s)
  show ?case unfolding read_lines.simps
    by (rule hoare_cbind [where R = "\<lambda>_. sse_inv s"])
      (auto intro!: hoare_of_await hoare_creturn simp: sse_inv_def)
next
  case (2 buf chunk items fin s)
  obtain ls buf' where sp: "split_lines (buf @ chunk) = (ls, buf')" by fastforce
  show ?case unfolding read_lines.simps sp Let_def prod.case
    by (rule hoare_cbind [OF hoare_each_line]) (auto intro: hoare_weaken [OF 2(1) [OF sp [symmetric] refl]])
next
  case (3 buf st items fin s)
  show ?case by (auto intro!: hoare_craise simp: sse_inv_def)
qed

lemma hoare_sse_connection:
  "hoare (\<lambda>t. audited ok_sse t \<and> linked (fst p) (snd p)) (sse_connection env p)
    (\<lambda>r t. audited ok_sse t \<and> (\<forall>q. r = Done q \<longrightarrow> linked (fst q) (snd q)))"
proof -
  obtain g lst where p: "p = (g, lst)" by fastforce
  let ?s = "\<lparr>cur_id = None, got = g, last_id = lst, progressed = False, this_batch = 0\<rparr>"
  let ?post = "\<lambda>r t. audited ok_sse t \<and> (\<forall>q. r = Done q \<longrightarrow> linked (fst q) (snd q))"
  have start: "hoare (\<lambda>t. audited ok_sse t \<and> linked g lst) (open_stream env (ustr ''/sse'') (sse_hdrs lst) FSseStatus)
      (\<lambda>r t. audited ok_sse t \<and> (\<forall>x. r = Done x \<longrightarrow> sse_inv ?s t))"
  proof (cases "linked g lst")
    case True
    then show ?thesis using resume_hdrs [OF True]
      by (intro hoare_weaken [OF hoare_open_stream]) (auto simp: sse_inv_def)
  qed (simp add: hoare_def)
  have rest: "hoare (sse_inv ?s) (cbind (read_lines sse_line [] items fin ?s) (\<lambda>s.
            if \<not> progressed s then craise (Fail FSseNoProgress)
            else if got s < sse_total \<and> this_batch s \<noteq> sse_batch
            then craise (Fail (FSseShortBatch (this_batch s) (got s)))
            else creturn (got s, last_id s))) ?post" for items fin
    by (rule hoare_cbind [OF hoare_read_lines])
      (auto intro!: hoare_if hoare_craise hoare_creturn simp: sse_inv_def)
  show ?thesis unfolding p sse_connection_def prod.case fst_conv snd_conv
    by (rule hoare_cbind [OF start]) (auto split: prod.split intro: hoare_weaken [OF rest])
qed

lemma sse_once_keeps: "keeps (sse_once env dl u) (audited ok_sse)"
proof -
  have loop: "hoare (\<lambda>t. audited ok_sse t \<and> linked (fst p) (snd p)) (sse_loop n env p) (\<lambda>_. audited ok_sse)"
    for n p and env :: "'a env"
  proof (induction n env p rule: sse_loop.induct)
    case (2 n env p)
    show ?case unfolding sse_loop.simps
      by (intro hoare_if hoare_cbind [OF hoare_sse_connection] hoare_creturn)
        (auto intro: hoare_weaken [OF "2.IH"])
  qed (auto intro!: hoare_cwait hoare_creturn)
  have seq: "keeps (sse_sequence env) (audited ok_sse)" for env :: "'a env"
    unfolding sse_sequence_def by (rule hoare_weaken [OF loop]) (auto simp: linked_def)
  have "keeps (sse_sequences n env dl) (audited ok_sse)" for n
    by (induction n env dl rule: sse_sequences.induct)
      (auto intro!: keeps_cbind keeps_basic seq hoare_if)
  then show ?thesis unfolding sse_once_def by (intro keeps_until_deadline keeps_with_session)
qed

section \<open>Every workload is a verified worker\<close>

lemma expected_gets_nonempty: "expected_gets \<noteq> []"
  by (simp add: expected_gets_def)

interpretation ws3: verified_worker ok_ws "ws_h3_once env dl i" for env :: "'s env" and dl i
  by unfold_locales (rule ws_h3_once_keeps)

interpretation ws1: verified_worker ok_ws "ws_once env cfg dl i" for env :: "'s env" and cfg dl i
  by unfold_locales (rule ws_once_keeps)

interpretation sse: verified_worker ok_sse "sse_once env dl" for env :: "'s env" and dl
  by unfold_locales (rule sse_once_keeps)

interpretation up: verified_worker "ok_upload cfg" "upload_once env cfg (expected_sha1 cfg) dl"
  for env :: "'s env" and cfg dl
  by unfold_locales (rule upload_once_keeps)

interpretation down: verified_worker "ok_download cfg" "download_once env cfg (expected_sha1 cfg) dl"
  for env :: "'s env" and cfg dl
  by unfold_locales (rule download_once_keeps)

text \<open>The request workloads need something to send; what \<open>prepare\<close> returns is never empty here.\<close>

definition some_prepared :: "(pystr \<times> bytes \<times> bytes \<times> hdict) list \<Rightarrow> (pystr \<times> bytes \<times> bytes \<times> hdict) list" where
  "some_prepared ps = (if ps = [] then [([], [], [], [])] else ps)"

interpretation req: verified_worker "ok_requests expected_gets (some_prepared ps)"
    "requests_once env cfg dl expected_gets (some_prepared ps)" for env :: "'s env" and cfg dl ps
  by unfold_locales (rule requests_once_keeps, simp_all add: expected_gets_nonempty some_prepared_def)

interpretation meth: verified_worker "ok_methods (some_prepared ps)" "methods_once env cfg dl (some_prepared ps)"
  for env :: "'s env" and cfg dl ps
  by unfold_locales (rule methods_once_keeps, simp add: some_prepared_def)

lemma prepare_nonempty: "prepare cod cfg mix = Done ps \<Longrightarrow> mix \<noteq> [] \<Longrightarrow> some_prepared ps = ps"
  by (cases "(cod, cfg, mix)" rule: prepare.cases)
    (auto simp: some_prepared_def abind_def Let_def split: await.splits prod.splits)

lemma payload_mix_nonempty: "payload_mix r1 r2 \<noteq> []"
  by (simp add: payload_mix_def)

lemma upload_probe_keeps: "keeps (upload_probe env) (audited ok)"
  unfolding upload_probe_def
  by (intro keeps_with_session hoare_cbind [OF hoare_upload]) (auto intro!: hoare_if hoare_craise hoare_creturn)

section \<open>A cell counts only what it verified\<close>

definition prepared_of ::
  "codecs \<Rightarrow> config \<Rightarrow> bytes \<Rightarrow> bytes \<Rightarrow> (pystr \<times> bytes \<times> bytes \<times> hdict) list" where
  "prepared_of cod cfg r1 r2 = (case prepare cod cfg (payload_mix r1 r2) of Done ps \<Rightarrow> ps | _ \<Rightarrow> [])"

lemma set_workers: "m \<in> set (workers conc f) \<longleftrightarrow> (\<exists>i \<in> set [0..<nat conc]. m = f (int i))"
  by (auto simp: workers_def)

lemma upload_thread_keeps: "keeps (upload_thread cfg env dl) (audited (ok_upload cfg))"
proof -
  let ?ws = "workers 1 (\<lambda>_. unit_worker (drive dl (upload_once env cfg (expected_sha1 cfg) dl) 0))"
  have "upload_thread cfg env dl = cbind (upload_probe env) (\<lambda>_. cseq ?ws id)"
    unfolding upload_thread_def w_streamupload_def cbind_assoc cbind_creturn_left ..
  moreover have "keeps m (audited (ok_upload cfg))" if "m \<in> set ?ws" for m
    using that by (auto simp: set_workers unit_worker_def intro!: keeps_cbind up.drive_keeps keeps_basic)
  ultimately show ?thesis by (simp add: keeps_cbind upload_probe_keeps keeps_cseq)
qed

lemma w_requests_keep:
  assumes "w_requests cod cfg r1 r2 env dl c = Done ms" and "m \<in> set ms"
  shows "keeps m (audited (ok_requests expected_gets (prepared_of cod cfg r1 r2)))"
proof -
  from assms(1) obtain ps where ps: "prepare cod cfg (payload_mix r1 r2) = Done ps"
    by (auto simp: w_requests_def abind_def split: await.splits)
  with assms have "m = drive dl (requests_once env cfg dl expected_gets ps) ()"
    by (auto simp: w_requests_def set_workers)
  with req.drive_keeps [of ps dl env cfg dl] prepare_nonempty [OF ps payload_mix_nonempty] show ?thesis
    by (simp add: prepared_of_def ps)
qed

lemma w_methods_keep:
  assumes "w_methods cod cfg r1 r2 env dl = Done ms" and "m \<in> set ms"
  shows "keeps m (audited (ok_methods (prepared_of cod cfg r1 r2)))"
proof -
  from assms(1) obtain ps where ps: "prepare cod cfg (payload_mix r1 r2) = Done ps"
    by (auto simp: w_methods_def abind_def split: await.splits)
  with assms have "m = drive dl (methods_once env cfg dl ps) ()"
    by (auto simp: w_methods_def set_workers)
  with meth.drive_keeps [of ps dl env cfg dl] prepare_nonempty [OF ps payload_mix_nonempty] show ?thesis
    by (simp add: prepared_of_def ps)
qed

lemma workload_threads_keep:
  assumes "workload_threads cod cfg r1 r2 env dl wl conc = Done ms" and "m \<in> set ms"
  shows "keeps m (audited (ok_workload cfg (prepared_of cod cfg r1 r2) wl))"
proof -
  consider "wl = ustr ''requests''" | "wl = ustr ''methods''" | "wl = ustr ''ws''" | "wl = ustr ''sse''"
    | "wl = ustr ''streamupload''" | "wl = ustr ''streamdownload''"
    using assms(1) by (auto simp: workload_threads_def Let_def split: if_splits)
  then show ?thesis
  proof cases
    case 1
    with assms show ?thesis by (auto simp: workload_threads_def ok_workload_def intro: w_requests_keep)
  next
    case 2
    with assms show ?thesis by (auto simp: workload_threads_def ok_workload_def intro: w_methods_keep)
  next
    case 3
    with assms show ?thesis
      by (auto simp: workload_threads_def Let_def ok_workload_def w_ws_def set_workers intro!: ws3.ramped_keeps ws1.ramped_keeps)
  next
    case 4
    with assms show ?thesis
      by (auto simp: workload_threads_def Let_def ok_workload_def w_sse_def set_workers intro!: sse.drive_keeps)
  next
    case 5
    with assms show ?thesis
      by (auto simp: workload_threads_def ok_workload_def Let_def intro!: upload_thread_keeps)
  next
    case 6
    with assms show ?thesis
      by (auto simp: workload_threads_def Let_def ok_workload_def w_streamdownload_def set_workers intro!: down.drive_keeps)
  qed
qed

lemma w_mixed_keep:
  "w_mixed cod cfg r1 r2 env dl slices = Done ts \<Longrightarrow> (tag, m) \<in> set ts \<Longrightarrow>
   keeps m (audited (ok_workload cfg (prepared_of cod cfg r1 r2) tag))"
proof (induction slices arbitrary: ts)
  case (Cons sl slices)
  obtain t n where sl: "sl = (t, n)" by fastforce
  from Cons.prems(1) obtain ws ts' where w: "workload_threads cod cfg r1 r2 env dl t (Some n) = Done ws"
    "w_mixed cod cfg r1 r2 env dl slices = Done ts'" "ts = map (Pair t) ws @ ts'"
    by (auto simp: sl abind_def split: await.splits)
  with Cons show ?case by (auto intro: workload_threads_keep)
qed simp

lemma cell_threads_keep:
  assumes "cell_threads cod cfg slices r1 r2 env dl = Done ts" and "(tag, m) \<in> set ts"
  shows "keeps m (audited (ok_workload cfg (prepared_of cod cfg r1 r2) tag))"
proof -
  from assms obtain us where us: "client_threads cod cfg slices r1 r2 env dl = Done us" "(tag, m) \<in> set us"
    by (auto simp: cell_threads_def abind_def split: await.splits)
  show ?thesis
  proof (cases "IS_MIXED cfg")
    case True
    with us show ?thesis by (auto simp: client_threads_def intro: w_mixed_keep)
  next
    case False
    with us obtain ws where "workload_threads cod cfg r1 r2 env dl (WORKLOAD cfg) None = Done ws"
      "tag = WORKLOAD cfg" "m \<in> set ws"
      by (auto simp: client_threads_def abind_def split: await.splits)
    then show ?thesis by (auto intro: workload_threads_keep)
  qed
qed

text \<open>C2: a soak counts only what it verified. Take any thread of any cell (single or mixed), any
  clock, any server and any network: every increment of the status tally in the thread's
  trace directly follows an exchange that its workload had to check and that passed the check
  (exact status, content type and bytes; the same message echoed; the next event id of the
  feed, counted from where the connection resumed; the full transfer length and digest).\<close>

theorem cell_counts_only_verified:
  assumes "cell_threads cod cfg slices r1 r2 env dl = Done ts" and "(tag, m) \<in> set ts"
  shows "audited (ok_workload cfg (prepared_of cod cfg r1 r2) tag) (trace (snd (m (fresh clocks s))))"
proof -
  obtain r w where d: "m (fresh clocks s) = (r, w)" by fastforce
  have "audited (ok_workload cfg (prepared_of cod cfg r1 r2) tag) (trace (fresh clocks s))" by (simp add: fresh_def)
  from hoareD [OF cell_threads_keep [OF assms] this d] show ?thesis by (simp add: d)
qed

text \<open>A server for the witnesses: its state is the last message, which it sends back.\<close>

definition echo_env :: "pystr env" where
  "echo_env =
     \<lparr>e_open = (\<lambda>s. (Done (), s)), e_close = (\<lambda>s. (Done (), s)),
      e_request = (\<lambda>m p h c s. (Done (404, [], []), s)), e_stream = (\<lambda>m p h s. (([], Done ()), s)),
      e_upload = (\<lambda>p h cs tm s. ((Done 400, 0), s)), e_ws_open = (\<lambda>p s. (Done 200, s)),
      e_ws_send = (\<lambda>op m s. (Done (), s)), e_ws_recv = (\<lambda>s. (Waiting, s)),
      e_wst_connect = (\<lambda>u tls tm s. (Done (), s)), e_wst_exit = (\<lambda>s. (Done (), s)),
      e_wst_send = (\<lambda>m s. (Done (), m)), e_wst_recv = (\<lambda>s. (Done s, s))\<rparr>"

definition sample_cfg :: "pystr \<Rightarrow> config" where
  "sample_cfg wl =
     \<lparr>WORKLOAD = wl, PROTO = ustr ''h1'', SERVER = ustr ''sync'', BASE = ustr ''http://s:80'', SECONDS = 5,
      CLIENTS = 1, CONC = 1, STREAM = 10, REPORT = 60, REQ_COMP = [], RESP_COMP = []\<rparr>"

definition sample_codecs :: codecs where
  "sample_codecs = \<lparr>gzip_compress = id, gzip_decompress = Inr, br_compress = id, br_decompress = Inr,
     zstd_compress = id, zstd_decompress = Inr\<rparr>"

text \<open>One WebSocket worker, one turn before the deadline: one message is counted.\<close>

theorem cell_counts_only_verified_witness:
  "\<exists>m. cell_threads sample_codecs (sample_cfg (ustr ''ws'')) [] [] [] echo_env 5 = Done [(ustr ''ws'', m)] \<and>
    bumps (trace (snd (m (fresh [0, 0, 9, 9] [])))) = 1 \<and>
    audited ok_ws (trace (snd (m (fresh [0, 0, 9, 9] []))))"
proof -
  let ?c = "sample_cfg (ustr ''ws'')"
  let ?m = "ramped ?c 5 0 1 (ws_once echo_env ?c 5 0) () :: (pystr, unit) work"
  have t: "cell_threads sample_codecs ?c [] [] [] echo_env 5 = Done [(ustr ''ws'', ?m)]"
    by (simp add: cell_threads_def client_threads_def workload_threads_def w_ws_def workers_def sample_cfg_def
        IS_MIXED_def IS_H3_def Let_def)
  have "bumps (trace (snd (?m (fresh [0, 0, 9, 9] [])))) = 1" by code_simp
  with cell_counts_only_verified [OF t, of "ustr ''ws''" ?m "[0, 0, 9, 9]" "[]"] t show ?thesis
    by (auto simp: ok_workload_def)
qed

end
