(* ===== verification/Stress_Feed_Props.thy ===== *)
theory Stress_Feed_Props
  imports Stress_Work_Props
begin

text \<open>
  The SSE workload against the server's feed: \<open>read_lines\<close> gives the same lines however the
  transport cuts the response, and a worker that talks to \<open>sseBody\<close> reads the whole feed, in
  order, over the five connections the server's batches force.
\<close>

section \<open>Lines do not depend on the chunks\<close>

lemma split_lines_none: "10 \<notin> set buf \<Longrightarrow> split_lines buf = ([], buf)"
  by (subst split_lines.simps) (simp add: partition_on_def)

lemma split_lines_line: "10 \<notin> set l \<Longrightarrow> split_lines (l @ 10 # r) = (l # fst (split_lines r), snd (split_lines r))"
  by (subst split_lines.simps) (simp add: partition_on_append Let_def case_prod_unfold)

lemma split_line_cases:
  fixes buf :: bytes
  obtains "10 \<notin> set buf" | l r where "buf = l @ 10 # r" and "10 \<notin> set l" and "length r < length buf"
  by (cases "10 \<in> set buf") (auto dest!: split_list_first)

lemma split_lines_append:
  "split_lines (a @ b) =
    (fst (split_lines a) @ fst (split_lines (snd (split_lines a) @ b)), snd (split_lines (snd (split_lines a) @ b)))"
proof (induction a rule: length_induct)
  case (1 a)
  show ?case
  proof (cases a rule: split_line_cases)
    case 1
    then show ?thesis by (simp add: split_lines_none)
  next
    case (2 l r)
    then have eq: "a @ b = l @ 10 # (r @ b)" by simp
    show ?thesis unfolding eq unfolding 2(1) split_lines_line [OF 2(2)]
      using "1.IH" 2(3) by simp
  qed
qed

lemma split_lines_rest: "10 \<notin> set (snd (split_lines buf))"
proof (induction buf rule: length_induct)
  case (1 buf)
  show ?case
  proof (cases buf rule: split_line_cases)
    case (2 l r)
    with 1 show ?thesis by (simp add: split_lines_line)
  qed (simp add: split_lines_none)
qed

lemma each_line_append: "each_line f (ls @ ls') k = cbind (each_line f ls k) (each_line f ls')"
proof (induction ls arbitrary: k)
  case (Cons l ls)
  have "each_line f (ls @ ls') = (\<lambda>k. cbind (each_line f ls k) (each_line f ls'))"
    by (rule ext) (rule Cons.IH)
  then show ?case by (simp add: cbind_assoc)
qed (simp add: cbind_creturn_left)

lemma read_lines_whole:
  "10 \<notin> set buf \<Longrightarrow> read_lines f buf (map SChunk cs) fin k =
    cbind (each_line f (fst (split_lines (buf @ concat cs))) k) (\<lambda>k. cbind (of_await fin) (\<lambda>_. creturn k))"
proof (induction cs arbitrary: buf k)
  case Nil
  then show ?case by (simp add: split_lines_none cbind_creturn_left)
next
  case (Cons c cs)
  let ?s = "split_lines (buf @ c)"
  have "split_lines (buf @ concat (c # cs)) = split_lines ((buf @ c) @ concat cs)" by simp
  also have "\<dots> = (fst ?s @ fst (split_lines (snd ?s @ concat cs)), snd (split_lines (snd ?s @ concat cs)))"
    by (rule split_lines_append)
  finally have "fst (split_lines (buf @ concat (c # cs))) = fst ?s @ fst (split_lines (snd ?s @ concat cs))" by simp
  moreover have "read_lines f (snd ?s) (map SChunk cs) fin = (\<lambda>k.
      cbind (each_line f (fst (split_lines (snd ?s @ concat cs))) k) (\<lambda>k. cbind (of_await fin) (\<lambda>_. creturn k)))"
    by (rule ext) (rule Cons.IH [OF split_lines_rest])
  ultimately show ?case by (simp add: Let_def case_prod_unfold each_line_append cbind_assoc)
qed

text \<open>Line framing is independent of the transport. However a response body is cut into chunks,
  \<open>read_lines\<close> behaves exactly as if it had arrived in one piece: the same lines reach the
  workload, in the same order, with the same outcome, in every world.\<close>

theorem read_lines_any_chunking:
  "read_lines f [] (map SChunk cs) fin k = read_lines f [] [SChunk (concat cs)] fin k"
  using read_lines_whole [of "[]" f cs fin k] read_lines_whole [of "[]" f "[concat cs]" fin k] by simp

section \<open>The events of the feed\<close>

text \<open>The lines of the event with id \<open>i\<close>, and what they leave in the trace.\<close>

definition event_lines :: "nat \<Rightarrow> bytes list" where
  "event_lines i = [bstr ''id: '' @ nim_str i, bstr ''data: event '' @ nim_str i, []]"

definition event_trace :: "nat \<Rightarrow> ev list" where
  "event_trace i = [RecvLine (ustr ''id: '' @ dec i), RecvLine (ustr ''data: event '' @ dec i), Bump 200 1, RecvLine []]"

lemma nim_str_byte: "w \<in> set (nim_str n) \<Longrightarrow> 48 \<le> unat w \<and> unat w \<le> 57"
  using dec_adigit [of _ n] by (fastforce simp: nim_str_def unat_of_nat_byte is_adigit_def)

lemma nim_str_no: "13 \<notin> set (nim_str n)" "10 \<notin> set (nim_str n)" "0 \<notin> set (nim_str n)"
  using nim_str_byte [of _ n] by fastforce+

lemma sse_data_plain: "10 \<notin> set d \<Longrightarrow> 13 \<notin> set d \<Longrightarrow> sse_data l d = bstr ''data: '' @ l @ d @ [10]"
  by (induction l d rule: sse_data.induct) auto

lemma sse_send_event:
  "sse_send (bstr ''event '' @ nim_str i) [] (nim_str i) 0
   = bstr ''id: '' @ nim_str i @ [10] @ bstr ''data: event '' @ nim_str i @ [10] @ [10]"
proof -
  have "sseSanitize (nim_str i) = nim_str i"
    using nim_str_no [of i] by (auto simp: sseSanitize_def intro!: filter_True)
  moreover have "sse_data [] (bstr ''event '' @ nim_str i) = bstr ''data: '' @ (bstr ''event '' @ nim_str i) @ [10]"
    using nim_str_no [of i] by (subst sse_data_plain) (auto simp: bstr_def)
  moreover have "nim_str i \<noteq> []" by (simp add: nim_str_def)
  ultimately show ?thesis by (simp add: sse_send_def sseSanitize_def bstr_def)
qed

lemma split_event:
  "split_lines (sse_send (bstr ''event '' @ nim_str i) [] (nim_str i) 0 @ r)
   = (event_lines i @ fst (split_lines r), snd (split_lines r))"
proof -
  have a: "10 \<notin> set (bstr ''id: '' @ nim_str i)" "10 \<notin> set (bstr ''data: event '' @ nim_str i)"
    using nim_str_no [of i] by (auto simp: bstr_def)
  have "sse_send (bstr ''event '' @ nim_str i) [] (nim_str i) 0 @ r
      = (bstr ''id: '' @ nim_str i) @ 10 # ((bstr ''data: event '' @ nim_str i) @ 10 # ([] @ 10 # r))"
    by (simp add: sse_send_event)
  then show ?thesis
    by (simp only: split_lines_line [OF a(1)] split_lines_line [OF a(2)] split_lines_line [of "[]"] list.set
        empty_iff not_False_eq_True fst_conv snd_conv) (simp add: event_lines_def)
qed

text \<open>One connection of the server: the ids from \<open>i\<close> on, a batch of them or up to the total.\<close>

definition batch_ids :: "nat \<Rightarrow> nat \<Rightarrow> nat list" where
  "batch_ids i sent = [i..<min 100 (i + (20 - sent))]"

lemma sse_events_lines:
  "split_lines (concat (sse_events (int i) sent)) = (concat (map event_lines (batch_ids i sent)), [])"
proof (induction "20 - sent" arbitrary: i sent)
  case 0
  then show ?case
    by (subst sse_events.simps) (simp add: sseBatch_def batch_ids_def split_lines_none)
next
  case (Suc n)
  show ?case
  proof (cases "i < 100")
    case False
    then show ?thesis
      by (subst sse_events.simps) (simp add: sseTotal_def batch_ids_def split_lines_none)
  next
    case True
    have id: "map of_nat (py_str (int i)) = nim_str i" by (rule nim_str_py)
    have "sse_events (int i) sent =
        sse_send (bstr ''event '' @ nim_str i) [] (nim_str i) 0 # sse_events (int (Suc i)) (Suc sent)"
      using True Suc.hyps(2) by (subst sse_events.simps) (simp add: sseTotal_def sseBatch_def id add.commute)
    moreover have "batch_ids i sent = i # batch_ids (Suc i) (Suc sent)"
    proof -
      have "min 100 (i + (20 - sent)) = min 100 (Suc i + (20 - Suc sent))" "i < min 100 (i + (20 - sent))"
        using True Suc.hyps(2) by auto
      then show ?thesis unfolding batch_ids_def by (metis upt_conv_Cons)
    qed
    ultimately show ?thesis using Suc.hyps(1) [of "Suc sent" "Suc i"] Suc.hyps(2) by (simp add: split_event)
  qed
qed

section \<open>Reading it\<close>

lemma decode_line_ascii:
  assumes "\<forall>w \<in> set bs. unat w < 128 \<and> w \<noteq> 13"
  shows "decode_line bs = map unat bs"
proof -
  have "rstrip_on (\<lambda>c. c = 13) bs = bs"
  proof (cases bs rule: rev_cases)
    case (snoc ys y)
    with assms show ?thesis by (simp add: rstrip_on_def)
  qed (simp add: rstrip_on_def)
  with assms show ?thesis by (simp add: decode_line_def decode_utf8_ascii)
qed

lemma unat_nim_str: "map unat (nim_str n) = dec n"
  using dec_adigit [of _ n] by (fastforce simp: nim_str_def unat_of_nat_byte is_adigit_def intro: map_idI)

lemma decode_event_line:
  assumes "s = ''id: '' \<or> s = ''data: event ''"
  shows "decode_line (bstr s @ nim_str i) = ustr s @ dec i"
proof -
  have "\<forall>w \<in> set (bstr s @ nim_str i). unat w < 128 \<and> w \<noteq> 13"
    using assms nim_str_byte [of _ i] nim_str_no [of i] by (fastforce simp: bstr_def)
  from decode_line_ascii [OF this] show ?thesis
    using assms by (auto simp: unat_nim_str) (auto simp: bstr_def ustr_def)
qed

lemma small_decimal: "i < 100 \<Longrightarrow> int i < 10 ^ int_max_str_digits"
proof -
  assume "i < 100"
  then have "int i < 10 ^ 2" by simp
  also have "(10 :: int) ^ 2 \<le> 10 ^ int_max_str_digits"
    by (rule power_increasing) (simp_all add: int_max_str_digits_def)
  finally show ?thesis .
qed

lemma parse_event_id: "i < 100 \<Longrightarrow> py_int (py_strip (32 # dec i)) = Inr (int i)"
proof -
  assume i: "i < 100"
  have "py_strip (32 # dec i) = py_strip (dec i)"
    by (simp add: py_strip_def strip_on_def uspace_def)
  then have "py_strip (32 # dec i) = py_str (int i)"
    using py_strip_py_str [of "int i"] by (simp add: py_str_def)
  with py_int_py_str [of "int i"] small_decimal [OF i] show ?thesis by simp
qed

text \<open>The state after the events of a batch.\<close>

definition sse_after :: "nat \<Rightarrow> nat \<Rightarrow> sse_st \<Rightarrow> sse_st" where
  "sse_after i n s = (if n = 0 then s
     else \<lparr>cur_id = None, got = int (i + n), last_id = Some (int (i + n) - 1), progressed = True,
           this_batch = this_batch s + int n\<rparr>)"

lemma read_event:
  assumes "i < 100" and "got s = int i"
  shows "each_line sse_line (event_lines i) s w =
    (Done (sse_after i 1 s), w\<lparr>trace := trace w @ event_trace i\<rparr>)"
proof -
  have "decode_line [] = []" by (simp add: decode_line_ascii)
  moreover have "take 3 (ustr ''id: '' @ dec i) = ustr ''id:''" "drop 3 (ustr ''id: '' @ dec i) = 32 # dec i"
    "take 3 (ustr ''data: event '' @ dec i) \<noteq> ustr ''id:''" "take 5 (ustr ''data: event '' @ dec i) = ustr ''data:''"
    by (simp_all add: ustr_def)
  ultimately show ?thesis using assms parse_event_id [OF assms(1)]
    by (simp add: event_lines_def decode_event_line cbind_tell sse_line_def cbind_def of_await_def creturn_def
        bump_def tell_def event_trace_def sse_after_def)
qed

lemma read_batch:
  assumes "i + n \<le> 100" and "got s = int i"
  shows "each_line sse_line (concat (map event_lines [i..<i + n])) s w =
    (Done (sse_after i n s), w\<lparr>trace := trace w @ concat (map event_trace [i..<i + n])\<rparr>)"
  using assms(1)
proof (induction n)
  case 0
  then show ?case by (simp add: creturn_def sse_after_def)
next
  case (Suc n)
  let ?s = "sse_after i n s"
  have g: "got ?s = int (i + n)" using assms(2) by (simp add: sse_after_def)
  have "each_line sse_line (concat (map event_lines [i..<i + Suc n])) s w
      = cbind (each_line sse_line (concat (map event_lines [i..<i + n])) s) (each_line sse_line (event_lines (i + n))) w"
    by (simp add: each_line_append)
  also have "\<dots> = each_line sse_line (event_lines (i + n)) ?s (w\<lparr>trace := trace w @ concat (map event_trace [i..<i + n])\<rparr>)"
    using Suc by (simp add: cbind_def)
  also have "\<dots> = (Done (sse_after (i + n) 1 ?s),
      w\<lparr>trace := trace w @ concat (map event_trace [i..<i + n]) @ event_trace (i + n)\<rparr>)"
    using read_event [OF _ g, of "w\<lparr>trace := trace w @ concat (map event_trace [i..<i + n])\<rparr>"] Suc.prems by simp
  also have "sse_after (i + n) 1 ?s = sse_after i (Suc n) s" by (simp add: sse_after_def)
  finally show ?case by simp
qed

section \<open>A whole sequence\<close>

lemma of_await_Done: "of_await (Done a) = creturn a"
  by (rule ext) (simp add: of_await_def creturn_def)

text \<open>
  The feed as a session delivers it: what \<open>sseBody\<close> writes for the request's
  \<open>last-event-id\<close>, cut into chunks in any way that may depend on the request and the state.
\<close>

definition resumed_at :: "hdict \<Rightarrow> pystr" where
  "resumed_at h = (case map_of h (ustr ''last-event-id'') of None \<Rightarrow> [] | Some v \<Rightarrow> v)"

definition serves_feed :: "'s env \<Rightarrow> (hdict \<Rightarrow> 's \<Rightarrow> bytes \<Rightarrow> bytes list) \<Rightarrow> ('s \<Rightarrow> 's) \<Rightarrow> bool" where
  "serves_feed env cutter next \<longleftrightarrow>
     (\<forall>h s b. concat (cutter h s b) = b) \<and>
     (\<forall>h s. e_stream env (ustr ''GET'') (ustr ''/sse'') h s =
        ((SStatus 200 # map SChunk (cutter h s (concat (sseBody (resumed_at h)))), Done ()), next s))"

definition last_of :: "nat \<Rightarrow> int option" where
  "last_of i = (if i = 0 then None else Some (int i - 1))"

definition connection_trace :: "nat \<Rightarrow> ev list" where
  "connection_trace i =
     StreamStart (ustr ''/sse'') (sse_hdrs (last_of i)) # concat (map event_trace [i..<i + 20])"

lemma nim_parseInt_dec: "int n < 2 ^ 63 \<Longrightarrow> nim_parseInt (dec n) = Some (int n)"
proof -
  assume n: "int n < 2 ^ 63"
  obtain c r where d: "dec n = c # r" using dec_neq_Nil [of n] by (cases "dec n") auto
  have "is_adigit c" using dec_adigit [of c n] d by simp
  moreover have "split_sign (dec n) = (False, dec n)" using split_sign_dec [of n "[]"] by simp
  ultimately show ?thesis using n nim_digits_dec [of n] by (simp add: nim_parseInt_def d)
qed

lemma sseBody_resumed:
  assumes "i \<le> 100"
  shows "sseBody (resumed_at (sse_hdrs (last_of i))) = sse_events (int i) 0"
proof (cases i)
  case 0
  then show ?thesis by (simp add: last_of_def resumed_at_def sse_hdrs_def sseBody_def)
next
  case (Suc j)
  then have "py_str (int i - 1) = dec j" by (simp add: py_str_def)
  with Suc assms nim_parseInt_dec [of j] show ?thesis
    by (simp add: last_of_def resumed_at_def sse_hdrs_def sseBody_def add.commute)
qed

lemma sse_connection_reads:
  assumes "serves_feed env cutter next" and "i + 20 \<le> 100"
  shows "sse_connection env (int i, last_of i) w =
    (Done (int (i + 20), last_of (i + 20)),
     w\<lparr>ext := next (ext w), trace := trace w @ connection_trace i\<rparr>)"
proof -
  let ?h = "sse_hdrs (last_of i)"
  let ?s = "\<lparr>cur_id = None, got = int i, last_id = last_of i, progressed = False, this_batch = 0\<rparr>"
  let ?cs = "cutter ?h (ext w) (concat (sse_events (int i) 0))"
  let ?w = "w\<lparr>ext := next (ext w), trace := trace w @ [StreamStart (ustr ''/sse'') ?h]\<rparr>"
  have e: "e_stream env (ustr ''GET'') (ustr ''/sse'') ?h (ext w) = ((SStatus 200 # map SChunk ?cs, Done ()), next (ext w))"
    using assms(1) sseBody_resumed [of i] assms(2) by (simp add: serves_feed_def)
  have cs: "concat ?cs = concat (sse_events (int i) 0)" using assms(1) by (simp add: serves_feed_def)
  have ids: "batch_ids i 0 = [i..<i + 20]" using assms(2) by (simp add: batch_ids_def min_def)
  have "read_lines sse_line [] (map SChunk ?cs) (Done ()) ?s ?w =
      cbind (each_line sse_line (concat (map event_lines [i..<i + 20])) ?s) creturn ?w"
    by (subst read_lines_whole) (simp_all add: cs ids sse_events_lines of_await_Done cbind_creturn_left)
  also have "\<dots> = (Done (sse_after i 20 ?s), ?w\<lparr>trace := trace ?w @ concat (map event_trace [i..<i + 20])\<rparr>)"
    using read_batch [of i 20 ?s ?w] assms(2) by (simp add: cbind_def creturn_def)
  finally have r: "read_lines sse_line [] (map SChunk ?cs) (Done ()) ?s ?w =
      (Done (sse_after i 20 ?s), w\<lparr>ext := next (ext w), trace := trace w @ connection_trace i\<rparr>)"
    by (simp add: connection_trace_def)
  have o: "open_stream env (ustr ''/sse'') ?h FSseStatus w = (Done (map SChunk ?cs, Done ()), ?w)"
    by (simp add: open_stream_def ccall_def e cbind_def creturn_def Let_def)
  show ?thesis unfolding sse_connection_def prod.case
    by (subst cbind_eval(1) [where m = "open_stream env (ustr ''/sse'') ?h FSseStatus", OF o], unfold prod.case, subst cbind_eval(1) [where m = "read_lines sse_line [] (map SChunk ?cs) (Done ()) ?s", OF r])
      (simp add: sse_after_def sse_total_def sse_batch_def creturn_def last_of_def)
qed

lemma sse_loop_reads:
  assumes "serves_feed env cutter next"
  shows "k \<le> 5 \<Longrightarrow> 5 - k \<le> n \<Longrightarrow> sse_loop n env (int (20 * k), last_of (20 * k)) w =
    (Done (), w\<lparr>ext := (next ^^ (5 - k)) (ext w),
                trace := trace w @ concat (map (\<lambda>j. connection_trace (20 * j)) [k..<5])\<rparr>)"
proof (induction n arbitrary: k w)
  case 0
  then show ?case by (simp add: sse_total_def creturn_def)
next
  case (Suc n)
  show ?case
  proof (cases "k = 5")
    case True
    then show ?thesis by (simp add: sse_total_def creturn_def)
  next
    case False
    with Suc.prems have k: "k < 5" "5 - k = Suc (5 - Suc k)" "20 * k + 20 = 20 * Suc k" by auto
    have c: "sse_connection env (int (20 * k), last_of (20 * k)) w =
        (Done (int (20 * Suc k), last_of (20 * Suc k)),
         w\<lparr>ext := next (ext w), trace := trace w @ connection_trace (20 * k)\<rparr>)"
      using sse_connection_reads [OF assms, of "20 * k" w] k by simp
    have "sse_loop (Suc n) env (int (20 * k), last_of (20 * k)) w =
        sse_loop n env (int (20 * Suc k), last_of (20 * Suc k))
          (w\<lparr>ext := next (ext w), trace := trace w @ connection_trace (20 * k)\<rparr>)"
      unfolding sse_loop.simps using k(1) cbind_eval(1) [where m = "sse_connection env (int (20 * k), last_of (20 * k))", OF c, of "sse_loop n env"]
      by (simp add: sse_total_def)
    also have "\<dots> = (Done (), w\<lparr>ext := (next ^^ (5 - Suc k)) (next (ext w)),
        trace := trace w @ connection_trace (20 * k) @ concat (map (\<lambda>j. connection_trace (20 * j)) [Suc k..<5])\<rparr>)"
      using Suc.IH [of "Suc k"] Suc.prems k(1) by simp
    also have "\<dots> = (Done (), w\<lparr>ext := (next ^^ (5 - k)) (ext w),
        trace := trace w @ concat (map (\<lambda>j. connection_trace (20 * j)) [k..<5])\<rparr>)"
      using k by (simp add: upt_conv_Cons [OF k(1)] funpow_swap1)
    finally show ?thesis .
  qed
qed

section \<open>The fuel of the loop\<close>

definition advanced :: "sse_st \<Rightarrow> sse_st \<Rightarrow> bool" where
  "advanced s s' \<longleftrightarrow> got s \<le> got s' \<and> (progressed s' \<longrightarrow> progressed s \<or> got s < got s')"

lemma sse_line_advances: "sse_line line s w = (Done s', w') \<Longrightarrow> advanced s s'"
  by (auto simp: sse_line_def cbind_def of_await_def creturn_def craise_def bump_def tell_def advanced_def
      split: option.splits if_splits await.splits)

lemma each_line_advances: "each_line sse_line ls s w = (Done s', w') \<Longrightarrow> advanced s s'"
proof (induction ls arbitrary: s w)
  case (Cons l ls)
  then obtain s1 w1 where "sse_line (decode_line l) s (w\<lparr>trace := trace w @ [RecvLine (decode_line l)]\<rparr>) = (Done s1, w1)"
    "each_line sse_line ls s1 w1 = (Done s', w')"
    by (auto simp: cbind_def tell_def split: prod.splits await.splits)
  with Cons.IH sse_line_advances show ?case unfolding advanced_def by fastforce
qed (simp add: creturn_def advanced_def)

lemma read_lines_advances: "read_lines sse_line buf items fin s w = (Done s', w') \<Longrightarrow> advanced s s'"
proof (induction items arbitrary: buf s w)
  case Nil
  then show ?case by (auto simp: cbind_def of_await_def creturn_def advanced_def split: await.splits)
next
  case (Cons it items)
  show ?case
  proof (cases it)
    case (SChunk c)
    with Cons.prems obtain s1 w1 where
      "each_line sse_line (fst (split_lines (buf @ c))) s w = (Done s1, w1)"
      "read_lines sse_line (snd (split_lines (buf @ c))) items fin s1 w1 = (Done s', w')"
      by (auto simp: cbind_def Let_def case_prod_unfold split: await.splits) (metis prod.collapse)
    with Cons.IH each_line_advances show ?thesis unfolding advanced_def by fastforce
  qed (use Cons.prems in \<open>simp add: craise_def\<close>)
qed

lemma sse_connection_advances:
  "sse_connection env p w = (Done q, w') \<Longrightarrow> fst p < fst q"
  by (cases p) (auto simp: sse_connection_def cbind_def creturn_def craise_def advanced_def
      dest!: read_lines_advances split: prod.splits await.splits if_splits)

text \<open>\<open>sse_sequence\<close> has enough fuel: with more it does the same.\<close>

lemma sse_loop_fuel:
  "sse_total - fst p \<le> int n \<Longrightarrow> n \<le> m \<Longrightarrow> sse_loop n env p w = sse_loop m env p w"
proof (induction n arbitrary: m p w)
  case 0
  then show ?case by (cases m) simp_all
next
  case (Suc n)
  then obtain m' where m: "m = Suc m'" by (cases m) auto
  have "cbind (sse_connection env p) (sse_loop n env) w = cbind (sse_connection env p) (sse_loop m' env) w"
  proof (rule cbind_cong_run)
    fix q w1 assume "sse_connection env p w = (Done q, w1)"
    from sse_connection_advances [OF this] show "sse_loop n env q w1 = sse_loop m' env q w1"
      using Suc.prems m by (intro Suc.IH) auto
  qed
  then show ?case by (simp add: m)
qed

lemma sse_sequence_fuel: "100 \<le> n \<Longrightarrow> sse_loop n env (0, None) w = sse_sequence env w"
  unfolding sse_sequence_def using sse_loop_fuel [of "(0, None)" 100 n env w] by (simp add: sse_total_def)

section \<open>The property\<close>

fun is_start :: "ev \<Rightarrow> bool" where
  "is_start (StreamStart p h) \<longleftrightarrow> True"
| "is_start e \<longleftrightarrow> False"

lemma filter_events:
  "filter (\<lambda>e. \<not> is_start e) (concat (map event_trace js)) = concat (map event_trace js)"
  "filter is_start (concat (map event_trace js)) = []"
  "bumps (concat (map event_trace js)) = int (length js)"
  by (induction js) (simp_all add: event_trace_def bumps_def)

lemma concat_batches:
  "concat (map (\<lambda>j. concat (map f [20 * j..<20 * j + 20])) [0..<n]) = concat (map f [0..<20 * n])"
proof (induction n)
  case (Suc n)
  have "[0..<20 * Suc n] = [0..<20 * n] @ [20 * n..<20 * n + 20]"
    using upt_add_eq_append [of 0 "20 * n" 20] by (simp add: add.commute)
  with Suc show ?case by (simp del: upt_Suc add: upt_Suc_append)
qed simp

lemma bumps_append: "bumps (xs @ ys) = bumps xs + bumps ys"
  by (simp add: bumps_def)

lemma connections_trace:
  "filter (\<lambda>e. \<not> is_start e) (concat (map (\<lambda>j. connection_trace (20 * j)) [0..<n])) = concat (map event_trace [0..<20 * n])"
  "filter is_start (concat (map (\<lambda>j. connection_trace (20 * j)) [0..<n])) =
    map (\<lambda>j. StreamStart (ustr ''/sse'') (sse_hdrs (last_of (20 * j)))) [0..<n]"
  "bumps (concat (map (\<lambda>j. connection_trace (20 * j)) [0..<n])) = 20 * int n"
proof -
  show "filter (\<lambda>e. \<not> is_start e) (concat (map (\<lambda>j. connection_trace (20 * j)) [0..<n])) = concat (map event_trace [0..<20 * n])"
    unfolding concat_batches [symmetric] filter_concat map_map comp_def connection_trace_def
    by (simp add: filter_events)
  show "filter is_start (concat (map (\<lambda>j. connection_trace (20 * j)) [0..<n])) =
      map (\<lambda>j. StreamStart (ustr ''/sse'') (sse_hdrs (last_of (20 * j)))) [0..<n]"
    by (induction n) (simp_all add: connection_trace_def filter_events)
  show "bumps (concat (map (\<lambda>j. connection_trace (20 * j)) [0..<n])) = 20 * int n"
    by (induction n) (simp_all add: connection_trace_def bumps_append bumps_def [of "_ # _"] filter_events(3) [unfolded bumps_def])
qed

text \<open>C3: the SSE workload accepts the server it was written for. Against the feed that \<open>sseBody\<close>
  produces, in any cutting of the responses into chunks, one sequence always completes: it
  opens exactly five connections, resumed after the events 19, 39, 59 and 79, it reads the events 0 to 99
  in order, and it counts every one of them exactly once.\<close>

theorem sse_reads_whole_feed:
  assumes "serves_feed env cutter next"
  shows "\<exists>l s'. sse_sequence env w = (Done (), w\<lparr>ext := s', trace := trace w @ l\<rparr>) \<and>
    filter (\<lambda>e. \<not> is_start e) l = concat (map event_trace [0..<100]) \<and>
    filter is_start l =
      map (\<lambda>lst. StreamStart (ustr ''/sse'') (sse_hdrs lst)) [None, Some 19, Some 39, Some 59, Some 79] \<and>
    bumps l = 100"
proof (intro exI conjI)
  let ?l = "concat (map (\<lambda>j. connection_trace (20 * j)) [0..<5])"
  show "sse_sequence env w = (Done (), w\<lparr>ext := (next ^^ 5) (ext w), trace := trace w @ ?l\<rparr>)"
    using sse_loop_reads [OF assms, of 0 100 w] by (simp add: sse_sequence_def sse_total_def last_of_def)
  show "filter is_start ?l = map (\<lambda>lst. StreamStart (ustr ''/sse'') (sse_hdrs lst)) [None, Some 19, Some 39, Some 59, Some 79]"
    unfolding connections_trace(2) by (simp add: upt_conv_Cons last_of_def)
qed (use connections_trace(1, 3) [of 5] in simp_all)

text \<open>A feed whose responses arrive byte by byte.\<close>

definition feed_env :: "nat env" where
  "feed_env =
     \<lparr>e_open = (\<lambda>s. (Done (), s)), e_close = (\<lambda>s. (Done (), s)),
      e_request = (\<lambda>m p h c s. (Done (404, [], []), s)),
      e_stream = (\<lambda>m p h s. ((SStatus 200 # map SChunk (map (\<lambda>b. [b]) (concat (sseBody (resumed_at h)))), Done ()), Suc s)),
      e_upload = (\<lambda>p h cs tm s. ((Done 400, 0), s)), e_ws_open = (\<lambda>p s. (Done 200, s)),
      e_ws_send = (\<lambda>op m s. (Done (), s)), e_ws_recv = (\<lambda>s. (Waiting, s)),
      e_wst_connect = (\<lambda>u tls tm s. (Done (), s)), e_wst_exit = (\<lambda>s. (Done (), s)),
      e_wst_send = (\<lambda>m s. (Done (), s)), e_wst_recv = (\<lambda>s. (Waiting, s))\<rparr>"

theorem sse_reads_whole_feed_witness:
  "\<exists>l s'. sse_sequence feed_env (fresh [] 0) = (Done (), fresh [] 0\<lparr>ext := s', trace := l\<rparr>) \<and> bumps l = 100"
proof -
  have "serves_feed feed_env (\<lambda>h s b. map (\<lambda>x. [x]) b) Suc"
    by (simp add: serves_feed_def feed_env_def)
  from sse_reads_whole_feed [OF this, of "fresh [] 0"] show ?thesis by (auto simp: fresh_def)
qed

end
