(* ===== verification/Stress_Cell_Props.thy ===== *)
theory Stress_Cell_Props
  imports Stress_Feed_Props
begin

text \<open>
  A cell as a whole. The shared tallies refine order-free sums over the workers' traces
  (the contract of one tally is the locale \<open>tally\<close>, one interpretation per counter), every
  state of a cell is well formed, an exit code of 0 means verified work by every slice, and
  interrupts are neither swallowed nor mixed up with failures.
\<close>

section \<open>What a tally promises\<close>

text \<open>A sum over the tagged traces, whatever their order.\<close>

definition thread_sum :: "(pystr \<Rightarrow> ev \<Rightarrow> int) \<Rightarrow> (pystr \<times> ev list) list \<Rightarrow> int" where
  "thread_sum weight tls = (\<Sum>(tag, l)\<leftarrow>tls. \<Sum>e\<leftarrow>l. weight tag e)"

locale tally =
  fixes run :: "step \<Rightarrow> 's \<Rightarrow> 's" and wf :: "'s \<Rightarrow> bool" and count :: "'s \<Rightarrow> int"
    and weight :: "pystr \<Rightarrow> ev \<Rightarrow> int"
  assumes run_wf: "wf s \<Longrightarrow> wf (run st s)"
    and run_event: "wf s \<Longrightarrow> count (run (Ev tag e) s) = count s + weight tag e"
    and run_report: "wf s \<Longrightarrow> count (run (Report now stats) s) = count s"
begin

lemma fold_wf: "wf s \<Longrightarrow> wf (fold run evs s)"
  by (induction evs arbitrary: s) (auto intro: run_wf)

text \<open>In whichever order the events arrive, with reports anywhere between them.\<close>

lemma any_order: "cell_log tls evs \<Longrightarrow> wf s \<Longrightarrow> count (fold run evs s) = count s + thread_sum weight tls"
proof (induction arbitrary: s rule: cell_log.induct)
  case (log_done tls)
  then have "map (\<lambda>(tag, l). \<Sum>e\<leftarrow>l. weight tag e) tls = map (\<lambda>_. 0) tls" by (intro map_cong) auto
  then have "thread_sum weight tls = (\<Sum>_\<leftarrow>tls. 0)" by (simp only: thread_sum_def)
  then show ?case by simp
next
  case (log_event xs tag l ys evs e)
  then show ?case by (simp add: run_wf run_event thread_sum_def)
next
  case (log_report tls evs now stats)
  then show ?case by (simp add: run_wf run_report)
qed

end

section \<open>Reports leave the tallies alone\<close>

definition tallies :: "stress \<Rightarrow> int \<times> pystr counter \<times> int counter \<times> pystr counter \<times> pystr counter" where
  "tallies s = (xfer s, xfer_by s, codes s, ok_by s, abandoned s)"

lemma mix_parts_tallies: "tallies (snd (mix_parts cfg slices now s)) = tallies s"
  by (induction cfg slices now s rule: mix_parts.induct)
    (auto simp: Let_def tallies_def split: prod.splits option.splits)

lemma report_line_tallies:
  "tallies (snd (report_line cfg slices start now lead rss heap fds s)) = tallies s"
  using mix_parts_tallies [of cfg slices "Some now" s]
  by (auto simp: report_line_def mix_segments_def fmt_rate_def fmt_xfer_def tallies_def Let_def split: prod.splits)

lemma report_step_tallies: "tallies (fst (cell_step cfg slices start (Report now stats) p)) = tallies (fst p)"
proof -
  obtain s lines where p: "p = (s, lines)" by fastforce
  show ?thesis
    using report_line_tallies [of cfg slices start now "[]" _ _ _ s]
    by (auto simp: p cell_step_def reporter_turn_def abind_def split: await.splits prod.splits) (metis snd_conv)+
qed

lemma event_step: "cell_step cfg slices start (Ev tag e) p = (apply_ev cfg (tag, e) (fst p), snd p)"
  by (cases p) (simp add: cell_step_def)

lemma tallies_eqD:
  assumes "tallies s = tallies s'"
  shows "xfer s = xfer s'" "xfer_by s = xfer_by s'" "codes s = codes s'" "ok_by s = ok_by s'"
    "abandoned s = abandoned s'" "ok_ops s = ok_ops s'"
  using assms by (simp_all add: tallies_def ok_ops_def)

lemmas report_keeps = tallies_eqD [OF report_step_tallies]

section \<open>The counters\<close>

definition keyed :: "stress \<Rightarrow> bool" where
  "keyed s \<longleftrightarrow> distinct (map fst (codes s)) \<and> distinct (map fst (ok_by s)) \<and>
     distinct (map fst (abandoned s)) \<and> distinct (map fst (xfer_by s))"

lemma keyedD: "keyed s \<Longrightarrow> distinct (map fst (codes s))"
  by (simp add: keyed_def)

lemma apply_ev_tallies:
  "xfer (apply_ev cfg (tag, e) s) = xfer s + (case e of Xfer n \<Rightarrow> n | _ \<Rightarrow> 0)"
  "xfer_by (apply_ev cfg (tag, e) s) =
     (case e of Xfer n \<Rightarrow> if IS_MIXED cfg then cadd tag n (xfer_by s) else xfer_by s | _ \<Rightarrow> xfer_by s)"
  "codes (apply_ev cfg (tag, e) s) = (case e of Bump st n \<Rightarrow> cadd st n (codes s) | _ \<Rightarrow> codes s)"
  "ok_by (apply_ev cfg (tag, e) s) =
     (case e of Bump st n \<Rightarrow> if is_2xx st \<and> IS_MIXED cfg then cadd tag n (ok_by s) else ok_by s | _ \<Rightarrow> ok_by s)"
  "abandoned (apply_ev cfg (tag, e) s) = (case e of Abandon \<Rightarrow> cadd tag 1 (abandoned s) | _ \<Rightarrow> abandoned s)"
  by (cases e; simp add: bump_tally_def abandon_tally_def add_xfer_def Let_def)+

lemma ok_ops_csum: "ok_ops s = csum is_2xx (codes s)"
  by (simp add: ok_ops_def csum_def)

lemma keyed_step: "keyed (fst p) \<Longrightarrow> keyed (fst (cell_step cfg slices start st p))"
  by (cases st)
    (auto simp: keyed_def event_step report_keeps apply_ev_tallies distinct_cadd split: ev.splits)

text \<open>The weights of an event in the six counts.\<close>

definition w_status :: "int \<Rightarrow> pystr \<Rightarrow> ev \<Rightarrow> int" where
  "w_status c tag e = (case e of Bump st n \<Rightarrow> if st = c then n else 0 | _ \<Rightarrow> 0)"

definition w_ok :: "pystr \<Rightarrow> ev \<Rightarrow> int" where
  "w_ok tag e = (case e of Bump st n \<Rightarrow> if is_2xx st then n else 0 | _ \<Rightarrow> 0)"

definition w_moved :: "pystr \<Rightarrow> ev \<Rightarrow> int" where
  "w_moved tag e = (case e of Xfer n \<Rightarrow> n | _ \<Rightarrow> 0)"

definition w_left :: "pystr \<Rightarrow> ev \<Rightarrow> int" where
  "w_left tag e = (case e of Abandon \<Rightarrow> 1 | _ \<Rightarrow> 0)"

definition only :: "bool \<Rightarrow> pystr \<Rightarrow> (pystr \<Rightarrow> ev \<Rightarrow> int) \<Rightarrow> pystr \<Rightarrow> ev \<Rightarrow> int" where
  "only b t w tag e = (if b \<and> tag = t then w tag e else 0)"

lemmas weight_defs = w_status_def w_ok_def w_moved_def w_left_def only_def

interpretation by_status: tally "cell_step cfg slices start" "\<lambda>p. keyed (fst p)" "\<lambda>p. cget (codes (fst p)) c" "w_status c"
  by unfold_locales
    (auto simp: keyed_step event_step report_keeps apply_ev_tallies weight_defs split: ev.splits)

interpretation ok_all: tally "cell_step cfg slices start" "\<lambda>p. keyed (fst p)" "\<lambda>p. ok_ops (fst p)" w_ok
  by unfold_locales
    (auto simp: keyed_step event_step report_keeps ok_ops_csum apply_ev_tallies weight_defs csum_cadd keyedD split: ev.splits)

interpretation ok_tag: tally "cell_step cfg slices start" "\<lambda>p. keyed (fst p)" "\<lambda>p. cget (ok_by (fst p)) t"
    "only (IS_MIXED cfg) t w_ok"
  by unfold_locales
    (auto simp: keyed_step event_step report_keeps apply_ev_tallies weight_defs split: ev.splits)

interpretation left_tag: tally "cell_step cfg slices start" "\<lambda>p. keyed (fst p)" "\<lambda>p. cget (abandoned (fst p)) t"
    "only True t w_left"
  by unfold_locales
    (auto simp: keyed_step event_step report_keeps apply_ev_tallies weight_defs split: ev.splits)

interpretation moved_all: tally "cell_step cfg slices start" "\<lambda>p. keyed (fst p)" "\<lambda>p. xfer (fst p)" w_moved
  by unfold_locales
    (auto simp: keyed_step event_step report_keeps apply_ev_tallies weight_defs split: ev.splits)

interpretation moved_tag: tally "cell_step cfg slices start" "\<lambda>p. keyed (fst p)" "\<lambda>p. cget (xfer_by (fst p)) t"
    "only (IS_MIXED cfg) t w_moved"
  by unfold_locales
    (auto simp: keyed_step event_step report_keeps apply_ev_tallies weight_defs split: ev.splits)

section \<open>The abstract cell\<close>

text \<open>
  What a cell promises to count, as plain functions: replies per status, successes in all
  and per workload, transfers given up at the deadline, bytes moved in all and per workload.
\<close>

record counts =
  n_status :: "int \<Rightarrow> int"
  n_ok :: int
  n_ok_of :: "pystr \<Rightarrow> int"
  n_left_of :: "pystr \<Rightarrow> int"
  n_moved :: int
  n_moved_of :: "pystr \<Rightarrow> int"

definition abs_counts :: "stress \<Rightarrow> counts" where
  "abs_counts s = \<lparr>n_status = cget (codes s), n_ok = ok_ops s, n_ok_of = cget (ok_by s),
     n_left_of = cget (abandoned s), n_moved = xfer s, n_moved_of = cget (xfer_by s)\<rparr>"

definition counted :: "config \<Rightarrow> (pystr \<times> ev list) list \<Rightarrow> counts" where
  "counted cfg tls = \<lparr>n_status = (\<lambda>c. thread_sum (w_status c) tls), n_ok = thread_sum w_ok tls,
     n_ok_of = (\<lambda>t. thread_sum (only (IS_MIXED cfg) t w_ok) tls),
     n_left_of = (\<lambda>t. thread_sum (only True t w_left) tls), n_moved = thread_sum w_moved tls,
     n_moved_of = (\<lambda>t. thread_sum (only (IS_MIXED cfg) t w_moved) tls)\<rparr>"

text \<open>The state \<open>main\<close> ends its workers with.\<close>

definition cell_end :: "config \<Rightarrow> (pystr \<times> int) list \<Rightarrow> pyfloat \<Rightarrow> step list \<Rightarrow> stress \<times> pystr list" where
  "cell_end cfg slices start evs = fold (cell_step cfg slices start) evs (main_stamps start stress0, [])"

lemma keyed_start: "keyed (fst (main_stamps start stress0, []))"
  by (simp add: keyed_def main_stamps_def stress0_def)

lemma abs_counts_end:
  assumes "cell_log tls evs"
  shows "abs_counts (fst (cell_end cfg slices start evs)) = counted cfg tls"
proof -
  note run = by_status.any_order ok_all.any_order ok_tag.any_order left_tag.any_order moved_all.any_order moved_tag.any_order
  show ?thesis
    unfolding cell_end_def abs_counts_def counted_def run [OF assms keyed_start]
    by (simp add: main_stamps_def stress0_def ok_ops_def)
qed

text \<open>C4: the shared counters of a cell implement order-free sums. However the event loop interleaves
  the workers and wherever the reporter prints in between, the final counters hold for each
  status, each workload and in total exactly the sums over the workers' own traces: no update is lost,
  none is counted twice and reporting changes none.\<close>

theorem cell_counters_refine_sums:
  assumes "cell_log tls evs"
  shows "abs_counts (fst (fold (cell_step cfg slices start) evs (main_stamps start stress0, []))) = counted cfg tls"
  using abs_counts_end [OF assms] by (simp add: cell_end_def)

lemma sample_log:
  "cell_log [(ustr ''ws'', [Bump 200 1, Bump 200 1]), (ustr ''sse'', [Xfer 7, Bump 503 1])]
     [Ev (ustr ''ws'') (Bump 200 1), Ev (ustr ''sse'') (Xfer 7), Report 1 (Raised TimeoutErr),
      Ev (ustr ''sse'') (Bump 503 1), Ev (ustr ''ws'') (Bump 200 1)]"
proof -
  let ?w = "ustr ''ws''" and ?s = "ustr ''sse''"
  have "cell_log [(?w, []), (?s, [])] []" by (rule log_done) simp
  from log_event [where xs = "[]", simplified, OF this]
  have "cell_log [(?w, [Bump 200 1]), (?s, [])] [Ev ?w (Bump 200 1)]" by simp
  from log_event [where xs = "[(?w, [Bump 200 1])]" and ys = "[]", simplified, OF this]
  have "cell_log [(?w, [Bump 200 1]), (?s, [Bump 503 1])] [Ev ?s (Bump 503 1), Ev ?w (Bump 200 1)]" by simp
  from log_report [OF this]
  have "cell_log [(?w, [Bump 200 1]), (?s, [Bump 503 1])]
    [Report 1 (Raised TimeoutErr), Ev ?s (Bump 503 1), Ev ?w (Bump 200 1)]" by simp
  from log_event [where xs = "[(?w, [Bump 200 1])]" and ys = "[]", simplified, OF this]
  have "cell_log [(?w, [Bump 200 1]), (?s, [Xfer 7, Bump 503 1])]
    [Ev ?s (Xfer 7), Report 1 (Raised TimeoutErr), Ev ?s (Bump 503 1), Ev ?w (Bump 200 1)]" by simp
  from log_event [where xs = "[]", simplified, OF this] show ?thesis by simp
qed

theorem cell_counters_refine_sums_witness:
  "let s = fst (fold (cell_step (sample_cfg (ustr ''mixed'')) [(ustr ''ws'', 1), (ustr ''sse'', 1)] 0)
      [Ev (ustr ''ws'') (Bump 200 1), Ev (ustr ''sse'') (Xfer 7), Report 1 (Raised TimeoutErr),
       Ev (ustr ''sse'') (Bump 503 1), Ev (ustr ''ws'') (Bump 200 1)] (main_stamps 0 stress0, []))
   in n_status (abs_counts s) 200 = 2 \<and> n_status (abs_counts s) 503 = 1 \<and> n_ok (abs_counts s) = 2 \<and>
      n_ok_of (abs_counts s) (ustr ''ws'') = 2 \<and> n_ok_of (abs_counts s) (ustr ''sse'') = 0 \<and>
      n_moved_of (abs_counts s) (ustr ''sse'') = 7"
  unfolding cell_counters_refine_sums [OF sample_log] Let_def
  by (simp add: counted_def thread_sum_def weight_defs is_2xx_def IS_MIXED_def sample_cfg_def)

section \<open>Well-formed states\<close>

text \<open>
  Distinct keys, no negative count, the per-workload counters summing to the shared ones in
  the mixed workload and empty in the others, and every reporting mark behind its counter, so
  that no printed rate is negative.
\<close>

definition wf_stress :: "config \<Rightarrow> stress \<Rightarrow> bool" where
  "wf_stress cfg s \<longleftrightarrow>
     keyed s \<and> distinct (map fst (mix_last s)) \<and>
     (\<forall>k. 0 \<le> cget (codes s) k) \<and> (\<forall>t. 0 \<le> cget (ok_by s) t) \<and> (\<forall>t. 0 \<le> cget (abandoned s) t) \<and>
     (\<forall>t. 0 \<le> cget (xfer_by s) t) \<and>
     ops_count s \<le> ok_ops s \<and> rate_bytes s \<le> xfer s \<and> (\<forall>t. cget (mix_last s) t \<le> cget (ok_by s) t) \<and>
     (if IS_MIXED cfg then csum (\<lambda>_. True) (ok_by s) = ok_ops s \<and> csum (\<lambda>_. True) (xfer_by s) = xfer s
      else ok_by s = [] \<and> xfer_by s = [])"

fun amount_ok :: "step \<Rightarrow> bool" where
  "amount_ok (Ev tag (Bump st n)) \<longleftrightarrow> 0 \<le> n"
| "amount_ok (Ev tag (Xfer n)) \<longleftrightarrow> 0 \<le> n"
| "amount_ok st \<longleftrightarrow> True"

lemma apply_ev_marks:
  "ops_count (apply_ev cfg (tag, e) s) = ops_count s" "rate_bytes (apply_ev cfg (tag, e) s) = rate_bytes s"
  "mix_last (apply_ev cfg (tag, e) s) = mix_last s"
  by (cases e; simp add: bump_tally_def abandon_tally_def add_xfer_def Let_def)+

lemma wf_event:
  assumes "wf_stress cfg (fst p)" and "amount_ok (Ev tag e)"
  shows "wf_stress cfg (fst (cell_step cfg slices start (Ev tag e) p))"
proof -
  have k: "keyed (apply_ev cfg (tag, e) (fst p))"
    using keyed_step [of p cfg slices start "Ev tag e"] assms(1) by (simp add: wf_stress_def event_step)
  from assms show ?thesis
    unfolding wf_stress_def event_step fst_conv
    using k by (cases e)
      (auto simp: apply_ev_tallies apply_ev_marks ok_ops_csum csum_cadd keyed_def add_increasing2 simp del: apply_ev.simps)
qed

lemma mix_parts_marks:
  assumes "\<And>t. cget (mix_last s) t \<le> cget (ok_by s) t" and "distinct (map fst (mix_last s))"
  shows "(\<forall>t. cget (mix_last (snd (mix_parts cfg slices now s))) t \<le> cget (ok_by s) t) \<and>
    distinct (map fst (mix_last (snd (mix_parts cfg slices now s)))) \<and>
    ops_count (snd (mix_parts cfg slices now s)) = ops_count s \<and>
    rate_bytes (snd (mix_parts cfg slices now s)) = rate_bytes s"
  using assms
proof (induction cfg slices now s rule: mix_parts.induct)
  case (2 cfg t c slices now s)
  then show ?case
    by (cases now) (fastforce simp: Let_def case_prod_unfold cget_def update_conv' distinct_update)+
qed simp

lemma wf_report_line:
  assumes "wf_stress cfg s"
  shows "wf_stress cfg (snd (report_line cfg slices start now lead rss heap fds s))" (is "wf_stress cfg ?s")
proof -
  note same = tallies_eqD [OF report_line_tallies [of cfg slices start now lead rss heap fds s]]
  have "(\<forall>t. cget (mix_last ?s) t \<le> cget (ok_by s) t) \<and> distinct (map fst (mix_last ?s)) \<and>
      ops_count ?s \<le> ok_ops s \<and> rate_bytes ?s \<le> xfer s"
    using assms mix_parts_marks [of s cfg slices "Some now"]
    by (auto simp: wf_stress_def report_line_def mix_segments_def fmt_rate_def fmt_xfer_def Let_def case_prod_unfold)
  with assms show ?thesis by (simp add: wf_stress_def keyed_def same)
qed

lemma wf_step:
  assumes "wf_stress cfg (fst p)" and "amount_ok st"
  shows "wf_stress cfg (fst (cell_step cfg slices start st p))"
proof (cases st)
  case (Report now stats)
  obtain s lines where p: "p = (s, lines)" by fastforce
  show ?thesis
    using assms(1) wf_report_line [of cfg s slices start now "[]"]
    by (auto simp: p Report cell_step_def reporter_turn_def abind_def split: await.splits prod.splits) (metis snd_conv)+
qed (use assms wf_event in auto)

lemma wf_start: "wf_stress cfg (main_stamps start stress0)"
  by (simp add: wf_stress_def keyed_def main_stamps_def stress0_def ok_ops_def)



section \<open>The verdict\<close>

lemma main_except_never_passes: "snd (main_except cfg slices text e s) \<noteq> Done 0"
  by (cases e) (auto simp: main_except_def split: option.splits prod.splits)

lemma main_final_passes:
  "snd (main_final cfg slices start now stats s) = Done 0 \<longleftrightarrow>
   (\<exists>x. sampled stats = Done x) \<and>
   (if IS_MIXED cfg then \<forall>(t, n) \<in> set slices. cget (ok_by s) t \<noteq> 0 else ok_ops s \<noteq> 0)"
proof (cases "sampled stats")
  case (Done x)
  obtain rss heap fds where x: "x = (rss, heap, fds)" by (cases x)
  obtain line s1 where l: "report_line cfg slices start now (ustr ''final '') rss heap fds s = (line, s1)" by fastforce
  have "ok_by s1 = ok_by s"
    using tallies_eqD(4) [OF report_line_tallies [of cfg slices start now "ustr ''final ''" rss heap fds s]] l by simp
  then show ?thesis by (auto simp: main_final_def Done x l Let_def filter_empty_conv)
qed (simp_all add: main_final_def)

lemma main_passes:
  "snd (main cfg slices text start evs g stats now) = Done 0 \<longleftrightarrow>
   WORKLOAD cfg \<in> set WORKLOADS \<and> g = Done () \<and> (\<exists>x. sampled stats = Done x) \<and>
   (let c = abs_counts (fst (cell_end cfg slices start evs)) in
    if IS_MIXED cfg then \<forall>(t, n) \<in> set slices. n_ok_of c t \<noteq> 0 else n_ok c \<noteq> 0)"
proof -
  obtain s lines where e: "cell_end cfg slices start evs = (s, lines)" by fastforce
  note main = main_def [folded cell_end_def]
  show ?thesis
  proof (cases "WORKLOAD cfg \<in> set WORKLOADS")
    case True
    then show ?thesis
      using main_final_passes [of cfg slices start now stats s] main_except_never_passes [of cfg slices "text" _ s]
      by (cases g) (simp_all add: main e abs_counts_def case_prod_unfold Let_def)
  qed (simp add: main)
qed

text \<open>A counted success of a trace, with the audit's evidence for it.\<close>

definition verified_success :: "(ev list \<Rightarrow> int \<Rightarrow> bool) \<Rightarrow> ev list \<Rightarrow> bool" where
  "verified_success ok l \<longleftrightarrow> (\<exists>i st. i < length l \<and> l ! i = Bump st 1 \<and> is_2xx st \<and> ok (take i l) st)"

lemma audited_success:
  assumes "audited ok l" and "(\<Sum>e\<leftarrow>l. w_ok tag e) \<noteq> 0"
  shows "verified_success ok l"
proof -
  from assms(2) obtain e where e: "e \<in> set l" "w_ok tag e \<noteq> 0"
    by (induction l) (auto split: if_splits, fastforce)
  then obtain st n where st: "e = Bump st n" "is_2xx st" by (auto simp: w_ok_def split: ev.splits if_splits)
  from e(1) obtain i where i: "i < length l" "l ! i = Bump st n" using st by (auto simp: in_set_conv_nth)
  with assms(1) have "n = 1" "ok (take i l) st" by (force simp: audited_def)+
  with i st show ?thesis by (auto simp: verified_success_def)
qed

lemma thread_sum_nonzero:
  assumes "thread_sum weight tls \<noteq> 0"
  shows "\<exists>(tag, l) \<in> set tls. (\<Sum>e\<leftarrow>l. weight tag e) \<noteq> 0"
  using assms by (induction tls) (auto simp: thread_sum_def)

lemma only_sum: "(\<Sum>e\<leftarrow>l. only b t weight tag e) \<noteq> 0 \<Longrightarrow> tag = t \<and> (\<Sum>e\<leftarrow>l. weight tag e) \<noteq> 0"
  by (cases "b \<and> tag = t") (auto simp: only_def)

text \<open>The threads of a cell, each run in a world of its own: its clock readings, and the network as
  it meets it.\<close>

definition cell_runs ::
  "'s thread list \<Rightarrow> (pyfloat list \<times> 's) list \<Rightarrow> (pystr \<times> unit await \<times> ('s, ev) world) list" where
  "cell_runs ts seeds = map2 (\<lambda>(tag, m) (clocks, s). (tag, m (fresh clocks s))) ts seeds"

lemma cell_runs_audited:
  assumes "cell_threads cod cfg slices r1 r2 env dl = Done ts" and "(tag, r, w) \<in> set (cell_runs ts seeds)"
  shows "audited (ok_workload cfg (prepared_of cod cfg r1 r2) tag) (trace w)"
    and "\<not> IS_MIXED cfg \<Longrightarrow> tag = WORKLOAD cfg"
proof -
  from assms(2) obtain m clocks s where m: "(tag, m) \<in> set ts" "m (fresh clocks s) = (r, w)"
    by (auto simp: cell_runs_def set_zip) (metis nth_mem)
  show "audited (ok_workload cfg (prepared_of cod cfg r1 r2) tag) (trace w)"
    by (rule hoareD [OF cell_threads_keep [OF assms(1) m(1)] _ m(2)]) (simp add: fresh_def)
  show "tag = WORKLOAD cfg" if "\<not> IS_MIXED cfg"
    using assms(1) m(1) that by (auto simp: cell_threads_def client_threads_def abind_def split: await.splits if_splits)
qed

text \<open>C1: exit code 0 is earned. If a cell's \<open>main\<close> returns 0, then every worker ran to its deadline without
  an error, and every slice of the mix (or the workload, when it is not a mixed cell) has
  a worker with at least one counted success that its workload verified, whatever the server, the network, the
  clocks, the interleaving and the reports were.\<close>

theorem passing_cell_did_verified_work:
  assumes threads: "cell_threads cod cfg slices r1 r2 env dl = Done ts"
    and steps: "cell_log (map (\<lambda>(tag, r, w). (tag, trace w)) (cell_runs ts seeds)) evs"
    and gather: "gather_outcome (map (\<lambda>(tag, r, w). r) (cell_runs ts seeds)) g"
    and passed: "snd (main cfg slices text start evs g stats now) = Done 0"
  shows "(\<forall>(tag, r, w) \<in> set (cell_runs ts seeds). r = Done ()) \<and>
    (\<forall>t \<in> (if IS_MIXED cfg then set (map fst slices) else {WORKLOAD cfg}).
       \<exists>(tag, r, w) \<in> set (cell_runs ts seeds).
         tag = t \<and> verified_success (ok_workload cfg (prepared_of cod cfg r1 r2) t) (trace w))"
proof (intro conjI ballI)
  let ?runs = "cell_runs ts seeds" and ?tls = "map (\<lambda>(tag, r, w). (tag, trace w)) (cell_runs ts seeds)"
  note run = cell_runs_audited [OF threads]
  have g: "g = Done ()" and c: "if IS_MIXED cfg then \<forall>(t, n) \<in> set slices. thread_sum (only True t w_ok) ?tls \<noteq> 0
      else thread_sum w_ok ?tls \<noteq> 0"
    using passed unfolding main_passes abs_counts_end [OF steps] by (auto simp: counted_def)
  show "case x of (tag, r, w) \<Rightarrow> r = Done ()" if "x \<in> set ?runs" for x
    using gather that by (auto simp: g gather_outcome_def list_all_iff split: if_splits)
  show "\<exists>(tag, r, w) \<in> set ?runs. tag = t \<and> verified_success (ok_workload cfg (prepared_of cod cfg r1 r2) t) (trace w)"
    if t: "t \<in> (if IS_MIXED cfg then set (map fst slices) else {WORKLOAD cfg})" for t
  proof -
    have "thread_sum (only (IS_MIXED cfg) t w_ok) ?tls \<noteq> 0 \<or> \<not> IS_MIXED cfg \<and> thread_sum w_ok ?tls \<noteq> 0"
      using c t by (fastforce split: if_splits)
    then obtain tag r w where x: "(tag, r, w) \<in> set ?runs"
      "tag = t \<and> (\<Sum>e\<leftarrow>trace w. w_ok tag e) \<noteq> 0 \<or> \<not> IS_MIXED cfg \<and> (\<Sum>e\<leftarrow>trace w. w_ok tag e) \<noteq> 0"
      by (auto dest!: thread_sum_nonzero only_sum)
    then have "tag = t" "(\<Sum>e\<leftarrow>trace w. w_ok tag e) \<noteq> 0" using t run(2) [OF x(1)] by auto
    with x(1) audited_success [OF run(1) [OF x(1)]] show ?thesis by blast
  qed
qed

lemma cell_log_single: "cell_log [(tag, l)] (map (Ev tag) l)"
proof (induction l)
  case Nil
  show ?case by (auto intro: log_done)
next
  case (Cons e l)
  from log_event [where xs = "[]" and ys = "[]", simplified, OF this] show ?case by simp
qed

theorem passing_cell_did_verified_work_witness:
  "\<exists>m evs. cell_threads sample_codecs (sample_cfg (ustr ''ws'')) [] [] [] echo_env 5 = Done [(ustr ''ws'', m)] \<and>
    snd (main (sample_cfg (ustr ''ws'')) [] \<lparr>cls = \<lambda>_. [], msg = \<lambda>_. []\<rparr> 0 evs (Done ()) (Raised TimeoutErr) 9) = Done 0 \<and>
    verified_success ok_ws (trace (snd (m (fresh [0, 0, 9, 9] []))))"
proof -
  let ?c = "sample_cfg (ustr ''ws'')" and ?text = "\<lparr>cls = \<lambda>_. [], msg = \<lambda>_. []\<rparr>"
  let ?m = "ramped ?c 5 0 1 (ws_once echo_env ?c 5 0) () :: (pystr, unit) work"
  let ?w = "snd (?m (fresh [0, 0, 9, 9] []))" and ?runs = "cell_runs [(ustr ''ws'', ?m)] [([0, 0, 9, 9], [])]"
  have t: "cell_threads sample_codecs ?c [] [] [] echo_env 5 = Done [(ustr ''ws'', ?m)]"
    by (simp add: cell_threads_def client_threads_def workload_threads_def w_ws_def workers_def sample_cfg_def
        IS_MIXED_def IS_H3_def Let_def)
  have d: "fst (?m (fresh [0, 0, 9, 9] [])) = Done ()" and n: "(\<Sum>e\<leftarrow>trace ?w. w_ok [] e) \<noteq> 0" by code_simp+
  have r: "?runs = [(ustr ''ws'', Done (), ?w)]" using d by (simp add: cell_runs_def prod_eq_iff)
  have l: "cell_log (map (\<lambda>(tag, r, w). (tag, trace w)) ?runs) (map (Ev (ustr ''ws'')) (trace ?w))"
    unfolding r by (simp add: cell_log_single)
  have o: "gather_outcome (map (\<lambda>(tag, r, w). r) ?runs) (Done ())" unfolding r by (simp add: gather_outcome_def)
  have ok: "n_ok (counted ?c (map (\<lambda>(tag, r, w). (tag, trace w)) ?runs)) \<noteq> 0"
    using n unfolding r by (simp add: counted_def thread_sum_def w_ok_def)
  have p: "snd (main ?c [] ?text 0 (map (Ev (ustr ''ws'')) (trace ?w)) (Done ()) (Raised TimeoutErr) 9) = Done 0"
    unfolding main_passes abs_counts_end [OF l] using ok
    by (simp add: WORKLOADS_def sample_cfg_def IS_MIXED_def sampled_def)
  from passing_cell_did_verified_work [OF t l o p] have "verified_success ok_ws (trace ?w)"
    unfolding r by (auto simp: ok_workload_def sample_cfg_def IS_MIXED_def)
  with t p show ?thesis by blast
qed

section \<open>Interrupts\<close>

text \<open>Python has no empty exception group.\<close>

fun no_empty_group :: "exn \<Rightarrow> bool" where
  "no_empty_group (ExceptionGroup es) \<longleftrightarrow> es \<noteq> [] \<and> (\<forall>e \<in> set es. no_empty_group e)"
| "no_empty_group e \<longleftrightarrow> True"

definition opt_leaves :: "exn option \<Rightarrow> exn list" where
  "opt_leaves r = (case r of None \<Rightarrow> [] | Some e \<Rightarrow> leaf_causes e)"

lemma leaf_causes_group_opt: "opt_leaves (group_opt (somes rs)) = concat (map opt_leaves rs)"
proof -
  have "concat (map leaf_causes (somes rs)) = concat (map opt_leaves rs)"
    by (induction rs) (auto simp: somes_def opt_leaves_def)
  then show ?thesis by (auto simp: group_opt_def opt_leaves_def)
qed

lemma split_group_leaves:
  "opt_leaves (fst (split_group e)) = filter is_interrupt (leaf_causes e) \<and>
   opt_leaves (snd (split_group e)) = filter (\<lambda>x. \<not> is_interrupt x) (leaf_causes e)"
proof (induction e rule: split_group.induct)
  case (1 es)
  then show ?case by (simp add: leaf_causes_group_opt filter_concat comp_def cong: map_cong)
qed (simp_all add: opt_leaves_def)

lemma somes_empty: "somes rs = [] \<longleftrightarrow> (\<forall>r \<in> set rs. r = None)"
  by (auto simp: somes_def filter_empty_conv)

lemma split_group_none:
  "no_empty_group e \<Longrightarrow>
   (fst (split_group e) = None \<longleftrightarrow> filter is_interrupt (leaf_causes e) = []) \<and>
   (snd (split_group e) = None \<longleftrightarrow> filter (\<lambda>x. \<not> is_interrupt x) (leaf_causes e) = [])"
  by (induction e rule: split_group.induct) (auto simp: group_opt_def somes_empty filter_empty_conv)

lemma split_group_some: "no_empty_group e \<Longrightarrow> fst (split_group e) \<noteq> None \<or> snd (split_group e) \<noteq> None"
proof (induction e rule: split_group.induct)
  case (1 es)
  then have "es \<noteq> []" "\<And>e. e \<in> set es \<Longrightarrow> fst (split_group e) \<noteq> None \<or> snd (split_group e) \<noteq> None" by auto
  then obtain e where "e \<in> set es" "fst (split_group e) \<noteq> None \<or> snd (split_group e) \<noteq> None"
    using hd_in_set by blast
  then show ?case by (auto simp: group_opt_def somes_empty)
qed auto

text \<open>C23: a failing cell keeps failures and interrupts apart. Whatever group of exceptions ends the
  workers, nested however: the interrupts in it (Ctrl-C, \<open>SystemExit\<close>) are re-raised, all of them and nothing else;
  without any, \<open>main\<close> returns 1; and a failure line is printed exactly when something other than an interrupt
  failed, naming those causes only.\<close>

theorem group_failures_and_interrupts:
  assumes "no_empty_group (ExceptionGroup es)"
  defines "leaves \<equiv> leaf_causes (ExceptionGroup es)"
  shows "case main_except cfg slices text (ExceptionGroup es) s of (lines, r) \<Rightarrow>
    (if filter is_interrupt leaves = [] then r = Done 1
     else \<exists>i. r = Raised i \<and> leaf_causes i = filter is_interrupt leaves) \<and>
    (if filter (\<lambda>x. \<not> is_interrupt x) leaves = [] then lines = []
     else \<exists>rest. lines = [print_cause cfg slices text rest s] \<and>
       leaf_causes rest = filter (\<lambda>x. \<not> is_interrupt x) leaves)"
proof -
  obtain i r where s: "split_group (ExceptionGroup es) = (i, r)" by fastforce
  note n = split_group_none [OF assms(1), folded leaves_def, unfolded s fst_conv snd_conv]
  note l = split_group_leaves [of "ExceptionGroup es", folded leaves_def, unfolded s fst_conv snd_conv opt_leaves_def]
  have m: "main_except cfg slices text (ExceptionGroup es) s = (case r of
      None \<Rightarrow> ([], Raised (ExceptionGroup es))
    | Some r \<Rightarrow> ([print_cause cfg slices text r s], case i of Some i \<Rightarrow> Raised i | None \<Rightarrow> Done 1))"
    by (simp add: main_except_def s del: split_group.simps)
  show ?thesis
  proof (cases r)
    case None
    then have all: "filter (\<lambda>x. \<not> is_interrupt x) leaves = []" using n by simp
    then have "filter is_interrupt leaves = leaves" by (auto simp: filter_empty_conv filter_id_conv)
    moreover have "leaves \<noteq> []"
    proof
      assume "leaves = []"
      then have "i = None" using n by simp
      with None s split_group_some [OF assms(1)] show False by simp
    qed
    ultimately show ?thesis using None all by (simp add: m leaves_def)
  next
    case (Some r')
    then show ?thesis using n l by (cases i) (auto simp: m)
  qed
qed

theorem group_failures_and_interrupts_witness:
  "no_empty_group (ExceptionGroup [PyErr ValueError, ExceptionGroup [KeyboardInterrupt]]) \<and>
   (\<exists>i. snd (main_except (sample_cfg (ustr ''ws'')) [] \<lparr>cls = \<lambda>_. [], msg = \<lambda>_. []\<rparr>
       (ExceptionGroup [PyErr ValueError, ExceptionGroup [KeyboardInterrupt]]) stress0) = Raised i \<and>
     leaf_causes i = [KeyboardInterrupt])"
proof -
  have w: "no_empty_group (ExceptionGroup [PyErr ValueError, ExceptionGroup [KeyboardInterrupt]])" by simp
  from group_failures_and_interrupts [OF w] show ?thesis
    using w by (force simp: case_prod_unfold)
qed

end
