(* ===== verification/Transport_Props.thy ===== *)
theory Transport_Props
  imports Stress_Server
begin

text \<open>
  Properties of the shared transport: the transfers are the agreed byte pattern, on the
  client and on the server; the typed GET bodies agree; request compression is undone
  by the matching decoding; the server's statistics are read back exactly; and no
  response of an unpinned protocol gets through.
\<close>

section \<open>Transfers\<close>

lemma body_gen_chunks [simp]: "fst (body_gen cfg tag s) = chunks_from (STREAM cfg) 0"
  by (simp add: body_gen_def Let_def)

lemma xfer_add_xfer [simp]: "xfer (add_xfer tag n s) = xfer s + n"
  by (simp add: add_xfer_def Let_def split: option.split)

lemma xfer_by_add_xfer [simp]:
  "cget (xfer_by (add_xfer tag n s)) t = cget (xfer_by s) t + (if tag = Some t then n else 0)"
  by (auto simp: add_xfer_def Let_def split: option.split)

lemma xfer_chunks:
  "xfer (foldl (\<lambda>s c. add_xfer tag (int (length c)) s) s cs) = xfer s + int (length (concat cs))"
  by (induction cs arbitrary: s) auto

lemma chunks_from_bounded:
  "list_all (\<lambda>c. c \<noteq> [] \<and> length c \<le> 64 * 1024) (chunks_from stream (int off))"
proof (induction stream "int off" arbitrary: off rule: chunks_from.induct)
  case (1 stream off)
  show ?case
  proof (cases "int off < stream")
    case False
    then show ?thesis by (subst chunks_from.simps) simp
  next
    case True
    define n where "n = min CHUNK (stream - int off)"
    have n: "0 < n" "n \<le> 64 * 1024" using True by (simp_all add: n_def CHUNK_def)
    have "list_all (\<lambda>c. c \<noteq> [] \<and> length c \<le> 64 * 1024) (chunks_from stream (int off + n))"
      using "1.hyps" [OF True n_def, of "off + nat n"] n by simp
    moreover have "gen_chunk (int off) n = pattern off (nat n)" by (simp add: gen_chunk_pattern)
    moreover have "pattern off (nat n) \<noteq> []" using n(1) by (simp add: pattern_def)
    ultimately show ?thesis using True n
      by (subst chunks_from.simps) (simp add: n_def [symmetric] Let_def)
  qed
qed

lemma chunks_from_0: "concat (chunks_from stream 0) = pattern 0 (nat stream)"
  using chunks_from_pattern [of 0 stream] by simp

lemma expected_sha1_pattern: "expected_sha1 cfg = sha1_hex (pattern 0 (nat (STREAM cfg)))"
  by (simp add: expected_sha1_def hexdigest_def sha1_update_chunks sha1_new_def chunks_from_0)

lemma lower_hex_digit: "n < 16 \<Longrightarrow> lower_char (hex_digit n) = hex_digit n"
  by (simp add: hex_digit_def lower_char_def)

lemma lower_hex32: "lower (hex32 w) = hex32 w"
proof -
  have "unat (drop_bit (4 * i) w AND 0xf) < 16" for i
  proof -
    have "drop_bit (4 * i) w AND 0xf = take_bit 4 (drop_bit (4 * i) w)"
      using take_bit_eq_mask [of 4 "drop_bit (4 * i) w"] by (simp add: mask_eq_exp_minus_1)
    then have "unat (drop_bit (4 * i) w AND 0xf) = take_bit 4 (unat (drop_bit (4 * i) w))"
      by (simp only: unsigned_take_bit_eq)
    then show ?thesis by (simp add: take_bit_eq_mod)
  qed
  then show ?thesis by (simp add: hex32_def lower_def lower_hex_digit)
qed

lemma lower_sha1_hex: "lower (sha1_hex m) = sha1_hex m"
proof -
  have "lower (xs @ ys) = lower xs @ lower ys" for xs ys by (simp add: lower_def)
  then show ?thesis
    by (simp add: sha1_hex_def case_prod_unfold Let_def lower_hex32 del: append_assoc)
qed

section \<open>Statistics\<close>

lemma split_runs_all: "\<forall>x \<in> set xs. P x \<Longrightarrow> split_runs P xs = []"
  by (subst split_runs.simps) simp

lemma split_runs_word:
  assumes "\<forall>x \<in> set xs. \<not> P x" and "xs \<noteq> []"
  shows "split_runs P xs = [xs]"
proof -
  have "dropWhile P xs = xs" using assms by (cases xs) auto
  moreover have "takeWhile (\<lambda>x. \<not> P x) xs = xs"
    using assms by (simp add: takeWhile_eq_all_conv)
  moreover have "split_runs P (dropWhile (\<lambda>x. \<not> P x) xs) = []"
  proof -
    have "dropWhile (\<lambda>x. \<not> P x) xs = []" unfolding dropWhile_eq_Nil_conv using assms(1) .
    then show ?thesis by (simp only: split_runs_all list.set ball_empty)
  qed
  ultimately show ?thesis using assms by (subst split_runs.simps) (simp add: Let_def)
qed

lemma split_runs_sep:
  assumes "\<forall>x \<in> set xs. \<not> P x" and "xs \<noteq> []" and "P c"
  shows "split_runs P (xs @ c # r) = xs # split_runs P (c # r)"
proof -
  have "dropWhile P (xs @ c # r) = xs @ c # r" using assms by (cases xs) auto
  moreover have "takeWhile (\<lambda>x. \<not> P x) (xs @ c # r) = xs" and "dropWhile (\<lambda>x. \<not> P x) (xs @ c # r) = c # r"
    using assms by (induction xs) auto
  ultimately show ?thesis using assms by (subst split_runs.simps) (simp add: Let_def)
qed

lemma split_runs_skip: "P c \<Longrightarrow> split_runs P (c # xs) = split_runs P xs"
  by (subst (1 2) split_runs.simps) simp

lemma nim_str_not_space: "w \<in> set (nim_str n) \<Longrightarrow> \<not> aspace (unat w)"
  using dec_adigit [of _ n] by (fastforce simp: nim_str_def is_adigit_def aspace_def unat_of_nat_byte)

lemma nim_str_neq_Nil [simp]: "nim_str n \<noteq> []"
  by (simp add: nim_str_def)

lemma split_stats:
  "py_bytes_split (nim_str a @ [32] @ nim_str b @ [32] @ nim_str c) = [nim_str a, nim_str b, nim_str c]"
proof -
  have P: "aspace (unat (32 :: byte))" by (simp add: aspace_def)
  have n: "\<forall>w \<in> set (nim_str k). \<not> aspace (unat w)" for k using nim_str_not_space by blast
  show ?thesis unfolding py_bytes_split_def
    using P n by (simp add: split_runs_sep split_runs_word split_runs_skip)
qed

lemma py_int_bytes_nim_str:
  assumes "int n < 10 ^ int_max_str_digits"
  shows "py_int_bytes (nim_str n) = Inr (int n)"
proof -
  have "map unat (nim_str n) = py_str (int n)"
    using dec_adigit [of _ n]
    by (fastforce simp: nim_str_def py_str_def unat_of_nat_byte is_adigit_def intro: map_idI)
  with int_of_ascii_py_str [of "int n"] assms show ?thesis by (simp add: py_int_bytes_def)
qed

section \<open>Properties\<close>

text \<open>C36: a transfer is the agreed pattern. For every configured size, the chunks of \<open>body_gen\<close> are
  non-empty, at most 64 KiB, and concatenate to the bytes \<open>i mod 256\<close> for \<open>i\<close> below the size;
  \<open>expected_sha1\<close> is the SHA-1 of exactly those bytes; and reading the body counts its size
  once on HTTP/1 and HTTP/2 and nothing on HTTP/3.\<close>

theorem transfer_is_the_pattern:
  "concat (fst (body_gen cfg tag s)) = map (\<lambda>i. of_nat (i mod 256)) [0..<nat (STREAM cfg)] \<and>
   list_all (\<lambda>c. c \<noteq> [] \<and> length c \<le> 64 * 1024) (fst (body_gen cfg tag s)) \<and>
   expected_sha1 cfg = sha1_hex (concat (fst (body_gen cfg tag s))) \<and>
   xfer (snd (body_gen cfg tag s)) = xfer s + (if IS_H3 cfg then 0 else max 0 (STREAM cfg))"
  using chunks_from_bounded [of "STREAM cfg" 0]
  by (simp add: chunks_from_0 expected_sha1_pattern body_gen_def Let_def xfer_chunks)
    (simp add: pattern_def)


text \<open>C38: the upload check. With the digest the client sends, the server answers 200 exactly when
  the bytes it received have the SHA-1 of the client's body, however they were cut, else 400.\<close>

theorem upload_check_is_exact:
  "hUpload (expected_sha1 cfg) received
   = (if sha1_hex (concat received) = sha1_hex (concat (fst (body_gen cfg tag s))) then 200 else 400)"
  by (simp add: hUpload_def expected_sha1_pattern lower_sha1_hex hexdigest_def sha1_update_chunks
      sha1_new_def chunks_from_0)

text \<open>C39: the GET contract. Every entry of \<open>expected_gets\<close> is what the server's handler answers for
  that path: status 200, that content type and exactly that body.\<close>

theorem expected_gets_match_server:
  "list_all (\<lambda>(path, ct, body). echoBody (ustr ''GET'') path req_ct req_body = Some (200, ct, body))
     expected_gets"
  using genChunk_pattern [of 8192 0]
  by (simp add: expected_gets_def echoBody_def xml_body_server csv_body_server htmlBody_def
      gen_chunk_pattern dlChunk_def)

text \<open>request compression is undone by the decoding its label names, for any codecs whose
  decompression inverts their compression: \<open>decode_body\<close> gives back the raw body.\<close>

theorem compress_then_decode:
  assumes "\<And>x. gzip_decompress cod (gzip_compress cod x) = Inr x"
    and "\<And>x. br_decompress cod (br_compress cod x) = Inr x"
    and "\<And>x. zstd_decompress cod (zstd_compress cod x) = Inr x"
    and "compress cod cfg raw = Done (body, enc)"
  shows "decode_body cod body enc = Inr raw"
  using assms by (auto simp: compress_def decode_body_def split: if_splits)

theorem compress_then_decode_witness:
  "decode_body
     \<lparr>gzip_compress = rev, gzip_decompress = (\<lambda>x. Inr (rev x)), br_compress = id, br_decompress = Inr,
      zstd_compress = id, zstd_decompress = Inr\<rparr> [3, 2, 1] (Some (ustr ''gzip'')) = Inr [1, 2, 3]"
  by (rule compress_then_decode [where raw = "[1, 2, 3]" and
        cfg = "\<lparr>WORKLOAD = [], PROTO = [], SERVER = [], BASE = [], SECONDS = 0, CLIENTS = 0, CONC = 0,
          STREAM = 0, REPORT = 0, REQ_COMP = ustr ''gzip'', RESP_COMP = []\<rparr>"])
    (simp_all add: compress_def)

text \<open>Statistics: what the server prints on \<open>/stats\<close> is read back exactly by
  \<open>get_server_stats\<close> (for numbers within the decimal limit of \<open>int\<close>).\<close>

theorem server_stats_roundtrip:
  assumes "int rss < 10 ^ int_max_str_digits" and "int heap < 10 ^ int_max_str_digits"
    and "int fds < 10 ^ int_max_str_digits"
  shows "get_server_stats (Done (statsBody rss heap fds)) = Done (int rss, int heap, Some (int fds))"
  using split_stats [of rss heap fds] py_int_bytes_nim_str [OF assms(1)]
    py_int_bytes_nim_str [OF assms(2)] py_int_bytes_nim_str [OF assms(3)]
  by (simp add: get_server_stats_def statsBody_def)

theorem server_stats_roundtrip_witness:
  "get_server_stats (Done (200, [], bstr ''7 8 9'')) = Done (7, 8, Some 9)"
proof -
  have "(10 :: int) ^ 1 \<le> 10 ^ int_max_str_digits"
    by (rule power_increasing) (simp_all add: int_max_str_digits_def)
  then have "int k < 10 ^ int_max_str_digits" if "k < 10" for k
    using that unfolding power_one_right by linarith
  from server_stats_roundtrip [OF this [of 7] this [of 8] this [of 9]] show ?thesis
    by (simp add: get_server_stats_def statsBody_def nim_str_def dec.simps bstr_def)
qed

text \<open>C40: no silent downgrade. When the run is pinned to HTTP/1.1 or HTTP/2, whatever a session
  call returns to a workload came from a response of exactly that version; a response of any
  other version raises the pin error, for every kind of call.\<close>

theorem pinned_calls_never_downgrade:
  assumes "map_of PIN_VERSION (PROTO cfg) = Some want"
    and "hx m (BASE cfg @ path) hdrs body = Done r" and "http_version r \<noteq> want"
  shows "\<exists>e. httpx_request cfg hx m path hdrs body = Raised (ProtocolPinError e) \<and>
    (m = ustr ''GET'' \<longrightarrow> body = [] \<longrightarrow> httpx_get cfg hx path hdrs = Raised (ProtocolPinError e)) \<and>
    (body = [] \<longrightarrow> httpx_stream cfg hx m path hdrs = ([], Raised (ProtocolPinError e))) \<and>
    (m = ustr ''POST'' \<longrightarrow> (\<forall>cs. concat cs = body \<longrightarrow>
       httpx_upload cfg hx path hdrs cs = Raised (ProtocolPinError e)))"
  using assms
  by (auto simp: httpx_request_def httpx_get_def httpx_stream_def httpx_upload_def pin_check_def)

definition downgraded :: httpx_resp where
  "downgraded = \<lparr>http_version = ustr ''HTTP/1.1'', status_code = 200, content_type = None, content = [],
     body_chunks = [], body_end = Done ()\<rparr>"

theorem pinned_calls_never_downgrade_witness:
  "\<exists>e. httpx_stream
     \<lparr>WORKLOAD = [], PROTO = ustr ''h2'', SERVER = [], BASE = [], SECONDS = 0, CLIENTS = 0, CONC = 0,
      STREAM = 0, REPORT = 0, REQ_COMP = [], RESP_COMP = []\<rparr>
     (\<lambda>m url hdrs body. Done downgraded) (ustr ''GET'') (ustr ''/sse'') [] = ([], Raised (ProtocolPinError e))"
  using pinned_calls_never_downgrade
    [of "\<lparr>WORKLOAD = [], PROTO = ustr ''h2'', SERVER = [], BASE = [], SECONDS = 0, CLIENTS = 0, CONC = 0,
      STREAM = 0, REPORT = 0, REQ_COMP = [], RESP_COMP = []\<rparr>" "ustr ''HTTP/2''"
      "\<lambda>m url hdrs body. Done downgraded" "ustr ''GET''" "ustr ''/sse''" "[]" "[]" downgraded]
  by (auto simp: PIN_VERSION_def downgraded_def)

end
