(* ===== verification/Stress_Transfer_Props.thy ===== *)
theory Stress_Transfer_Props
  imports Stress_Feed_Props Transport_Props
begin

text \<open>
  The streaming workloads: how a call accounts for its transfer, on every path out of it, and
  that a transfer against the server's own handlers is verified and counted.
\<close>

section \<open>The account of a transfer\<close>

definition abandons :: "ev list \<Rightarrow> int" where
  "abandons l = int (length (filter (\<lambda>e. e = Abandon) l))"

lemma abandons_simps [simp]:
  "abandons [] = 0" "abandons (l @ l') = abandons l + abandons l'" "abandons (e # l) = (if e = Abandon then 1 else 0) + abandons l"
  by (simp_all add: abandons_def)

lemma bumps_more [simp]: "bumps (l @ l') = bumps l + bumps l'" "bumps (e # l) = bump_count e + bumps l"
  by (simp_all add: bumps_def)

definition acct :: "int \<Rightarrow> int \<Rightarrow> ev list \<Rightarrow> bool" where
  "acct a b t \<longleftrightarrow> abandons t = a \<and> bumps t = b"

definition upto_one :: "int \<Rightarrow> int \<Rightarrow> ev list \<Rightarrow> bool" where
  "upto_one a b t \<longleftrightarrow> a \<le> abandons t \<and> abandons t \<le> a + 1 \<and> b \<le> bumps t \<and> bumps t \<le> b + 1"

lemma upto_one_acct: "acct a b t \<Longrightarrow> upto_one a b t" "acct (a + 1) b t \<Longrightarrow> upto_one a b t"
    "acct a (b + 1) t \<Longrightarrow> upto_one a b t" "acct (a + 1) (b + 1) t \<Longrightarrow> upto_one a b t"
  by (simp_all add: acct_def upto_one_def)

lemma acct_tell: "e \<noteq> Abandon \<Longrightarrow> bump_count e = 0 \<Longrightarrow> acct a b t \<Longrightarrow> acct a b (t @ [e])"
  by (simp add: acct_def)

lemma acct_quiet: "(\<And>e. e \<in> set l \<Longrightarrow> e \<noteq> Abandon \<and> bump_count e = 0) \<Longrightarrow> abandons l = 0 \<and> bumps l = 0"
  by (induction l) (auto simp: abandons_def bumps_def)

lemma hoare_csettle:
  assumes "hoare P m R"
  shows "hoare P (csettle m) (\<lambda>r t. case r of Done (Inr a) \<Rightarrow> R (Done a) t | Done (Inl e) \<Rightarrow> R (Raised e) t
    | Raised e \<Rightarrow> False | Waiting \<Rightarrow> R Waiting t)"
  unfolding csettle_def
  by (rule hoare_ctry [where R = "\<lambda>r t. case r of Done (Inr a) \<Rightarrow> R (Done a) t | Done (Inl e) \<Rightarrow> False
      | Raised e \<Rightarrow> R (Raised e) t | Waiting \<Rightarrow> R Waiting t"])
    (auto intro!: hoare_cbind [OF assms] hoare_creturn split: sum.splits)

text \<open>A timed upload accounts for exactly one outcome when it returns, for none when it raises.\<close>

definition timed_post :: "int \<Rightarrow> int \<Rightarrow> (bool \<times> pyfloat) await \<Rightarrow> ev list \<Rightarrow> bool" where
  "timed_post a b r t \<longleftrightarrow>
     (case r of
        Done (counted, _) \<Rightarrow> if counted then acct (a + 1) b t else acct a (b + 1) t
      | Raised e \<Rightarrow> acct a b t
      | Waiting \<Rightarrow> upto_one a b t)"

lemma keeps_acct_upload:
  assumes "\<And>c e. e \<in> set (note c) \<Longrightarrow> e \<noteq> Abandon \<and> bump_count e = 0"
  shows "keeps (upload env sha chunks note tm) (acct a b)"
proof (rule hoareI)
  fix w r w' assume u: "upload env sha chunks note tm w = (r, w')" and t: "acct a b (trace w)"
  have "abandons (concat (map note cs)) = 0" "bumps (concat (map note cs)) = 0" for cs
    using acct_quiet [of "concat (map note cs)"] assms by auto
  with u t show "acct a b (trace w')"
    by (auto simp: upload_def Let_def acct_def split: prod.splits await.splits)
qed

lemma hoare_upload_timed:
  "hoare (acct a b) (upload_timed env cfg sha dl sl) (timed_post a b)"
proof -
  have n: "e \<noteq> Abandon \<and> bump_count e = 0" if "e \<in> set (body_note cfg c)" for c e
    using that by (auto simp: body_note_def split: if_splits)
  let ?R = "\<lambda>r t. case r of Done None \<Rightarrow> acct (a + 1) b t | _ \<Rightarrow> acct a b t"
  have up: "hoare (acct a b) (ctry (cbind (upload env sha cs (body_note cfg) tm) (\<lambda>st. creturn (Some st)))
        (\<lambda>e. if e = TimeoutErr then cbind (tell Abandon) (\<lambda>_. creturn None) else craise e)) ?R" for cs tm
    by (rule hoare_ctry [where R = "\<lambda>r t. acct a b t \<and> r \<noteq> Done None"])
      (auto intro!: hoare_cbind [where R = "\<lambda>_. acct a b", OF keeps_acct_upload [OF n]]
        hoare_cbind [where R = "\<lambda>r t. r = Done () \<and> acct (a + 1) b t" and m = "tell Abandon"]
        hoare_creturn hoare_craise hoare_tell simp: acct_def split: option.splits await.splits)
  have fin: "hoare (acct a b) (cbind (bump 200) (\<lambda>_. cbind monotonic (\<lambda>t2.
               cbind (if IS_H3 cfg then tell (Xfer (STREAM cfg)) else creturn ()) (\<lambda>_.
                 creturn (False, max sl (fsub t2 t0)))))) (timed_post a b)" for t0
    unfolding bump_def
    by (intro hoare_cbind [where R = "\<lambda>r t. acct a (b + 1) t \<and> (\<forall>e. r \<noteq> Raised e)"] hoare_tell hoare_monotonic hoare_if hoare_creturn)
      (auto simp: timed_post_def upto_one_acct acct_tell, auto simp: acct_def)
  show ?thesis unfolding upload_timed_def
    by (intro hoare_cbind [where R = "\<lambda>_. acct a b" and m = monotonic] hoare_cbind [OF up] keeps_basic)
      (use fin in \<open>auto intro!: hoare_creturn hoare_craise simp: timed_post_def upto_one_acct split: option.split\<close>)
qed


text \<open>After the session's exit, whatever left it.\<close>

lemma hoare_upload_attempt:
  "hoare (acct a b) (upload_attempt env (upload_timed env cfg sha dl sl))
    (\<lambda>r t. case r of
       Done (err, None) \<Rightarrow> acct a b t \<and> err \<noteq> None
     | Done (err, Some (counted, _)) \<Rightarrow> if counted then acct (a + 1) b t else acct a (b + 1) t
     | _ \<Rightarrow> upto_one a b t)"
proof -
  let ?settled = "\<lambda>r t. case r of Done (Inr p) \<Rightarrow> timed_post a b (Done p) t | Done (Inl e) \<Rightarrow> acct a b t
    | Raised e \<Rightarrow> False | Waiting \<Rightarrow> upto_one a b t"
  have body: "hoare (acct a b) (csettle (upload_timed env cfg sha dl sl)) ?settled"
    by (rule hoare_weaken [OF hoare_csettle [OF hoare_upload_timed]])
      (auto simp: timed_post_def split: await.splits sum.splits)
  have close: "keeps (csettle (ccall (e_close env) (\<lambda>_. []))) I" for I :: "ev list \<Rightarrow> bool" by (intro runs_intro)
  show ?thesis unfolding upload_attempt_def
    by (rule hoare_cbind [where R = "\<lambda>_. acct a b"], intro runs_intro)
      (auto split: sum.splits intro!: hoare_creturn hoare_cbind [OF body] hoare_cbind [OF close]
        simp: timed_post_def upto_one_acct, auto simp: upto_one_acct split: if_splits)
qed

text \<open>The handler that follows the session: it abandons unless that was already tallied.\<close>

lemma hoare_upload_handler:
  assumes "\<And>t. P t \<Longrightarrow> upto_one a b t" and "\<And>t. \<not> counted \<Longrightarrow> P t \<Longrightarrow> abandons t = a"
  shows "hoare P (cbind monotonic (\<lambda>t. if t < dl \<or> \<not> teardown_race e then craise e
      else if \<not> counted then cbind (tell Abandon) (\<lambda>_. creturn s) else creturn s)) (\<lambda>_. upto_one a b)"
proof (rule hoare_cbind [where R = "\<lambda>_. P"], rule keeps_basic)
  show "hoare P (if t < dl \<or> \<not> teardown_race e then craise e
      else if \<not> counted then cbind (tell Abandon) (\<lambda>_. creturn s) else creturn s) (\<lambda>_. upto_one a b)" for t
    using assms
    by (intro hoare_if hoare_craise hoare_creturn hoare_cbind [where R = "\<lambda>_. upto_one a b"] hoare_tell)
      (auto simp: upto_one_def)
qed (use assms(1) in auto)

lemma hoare_upload_settled:
  assumes "\<And>t. P t \<Longrightarrow> upto_one a b t" and "\<And>t. \<not> counted \<Longrightarrow> P t \<Longrightarrow> abandons t = a"
  shows "hoare P
   (case err of
      None \<Rightarrow> creturn s
    | Some e \<Rightarrow>
        if is_AttributeError e \<or> e = CancelledErr then
          cbind monotonic (\<lambda>t.
            if t < dl \<or> \<not> teardown_race e then craise e
            else if \<not> counted then cbind (tell Abandon) (\<lambda>_. creturn s)
            else creturn s)
        else craise e) (\<lambda>_. upto_one a b)"
proof (cases err)
  case None
  then show ?thesis using assms(1) by (auto intro: hoare_creturn)
next
  case (Some e)
  show ?thesis unfolding Some option.case
    using assms(1) by (intro hoare_if hoare_upload_handler [OF assms] hoare_craise) auto
qed

lemma hoare_upload_once:
  "hoare (acct a b) (upload_once env cfg sha dl sl) (\<lambda>_. upto_one a b)"
proof -
  have skip: "hoare (acct a b) (cbind (tell (Slept d)) (\<lambda>_. creturn s)) (\<lambda>_. upto_one a b)" for d and s :: pyfloat
    by (auto intro!: hoare_cbind [where R = "\<lambda>_. acct a b"] hoare_tell hoare_creturn simp: upto_one_acct acct_tell)
  show ?thesis unfolding upload_once_def asyncio_sleep_def Let_def
  proof (rule hoare_cbind [where R = "\<lambda>_. acct a b", OF keeps_basic(5)], intro hoare_if skip hoare_cbind [OF hoare_upload_attempt])
    fix x :: "exn option \<times> (bool \<times> pyfloat) option"
    obtain err res where x: "x = (err, res)" by fastforce
    obtain counted s where c: "(case res of None \<Rightarrow> (False, sl) | Some p \<Rightarrow> p) = (counted, s)" by fastforce
    let ?P = "\<lambda>t. case Done x of
         Done (err, None) \<Rightarrow> acct a b t \<and> err \<noteq> None
       | Done (err, Some (counted, _)) \<Rightarrow> if counted then acct (a + 1) b t else acct a (b + 1) t
       | _ \<Rightarrow> upto_one a b t"
    have P: "upto_one a b t" "\<not> counted \<Longrightarrow> abandons t = a" if "?P t" for t
      using that c by (auto simp: x upto_one_acct acct_def upto_one_def split: option.splits if_splits)
    show "hoare ?P (case x of (err, res) \<Rightarrow> case (case res of None \<Rightarrow> (False, sl) | Some p \<Rightarrow> p) of
        (counted, slowest') \<Rightarrow>
         (case err of
           None \<Rightarrow> creturn slowest'
         | Some e \<Rightarrow>
             if is_AttributeError e \<or> e = CancelledErr then
               cbind monotonic (\<lambda>t.
                 if t < dl \<or> \<not> teardown_race e then craise e
                 else if \<not> counted then cbind (tell Abandon) (\<lambda>_. creturn slowest')
                 else creturn slowest')
             else craise e)) (\<lambda>_. upto_one a b)"
      unfolding x c prod.case by (rule hoare_upload_settled) (use P in \<open>auto simp: x\<close>)
  qed (auto simp: upto_one_acct)
qed

lemma hoare_with_session:
  assumes body: "hoare P body R" and R: "\<And>r t. R r t \<Longrightarrow> Q r t"
    and bad: "\<And>r t e. R r t \<Longrightarrow> Q (Raised e) t" "\<And>r t. R r t \<Longrightarrow> Q Waiting t"
      "\<And>t e. P t \<Longrightarrow> Q (Raised e) t" "\<And>t. P t \<Longrightarrow> Q Waiting t"
  shows "hoare P (with_session env body) Q"
  unfolding with_session_def by (rule hoare_cwith [where R = R]) (use assms in \<open>auto intro: keeps_basic\<close>)

definition transfer_post :: "int \<Rightarrow> int \<Rightarrow> bool await \<Rightarrow> ev list \<Rightarrow> bool" where
  "transfer_post a b r t \<longleftrightarrow> abandons t = a \<and> b \<le> bumps t \<and> bumps t \<le> b + 1 \<and>
     (r = Done False \<longrightarrow> bumps t = b + 1)"

lemma download_chunks_acct: "keeps (download_chunks dl items fin h n) (acct a b)"
  by (induction dl items fin h n rule: download_chunks.induct)
    (auto intro!: keeps_cbind keeps_basic keeps_tell simp: acct_tell)

lemma open_stream_acct: "keeps (open_stream env path hdrs bad) (acct a b)"
proof -
  have "keeps (stream_status bad items fin) I" for items fin and I :: "ev list \<Rightarrow> bool"
    by (cases "(bad, items, fin)" rule: stream_status.cases) (auto intro!: keeps_cbind keeps_basic)
  then show ?thesis unfolding open_stream_def
    by (auto intro!: keeps_cbind keeps_basic keeps_ccall simp: acct_tell split: prod.split)
qed

lemma hoare_download_transfer:
  "hoare (acct a b) (download_transfer env cfg want dl) (transfer_post a b)"
proof -
  have bump: "hoare (acct a b) (cbind (bump 200) (\<lambda>_. creturn False)) (transfer_post a b)"
    unfolding bump_def
    by (rule hoare_cbind [where R = "\<lambda>_. acct a (b + 1)"])
      (auto intro!: hoare_tell hoare_creturn simp: acct_def transfer_post_def)
  show ?thesis unfolding download_transfer_def
    by (rule hoare_with_session [where R = "transfer_post a b"],
        rule hoare_cbind [OF open_stream_acct], clarify, rule hoare_cbind [OF download_chunks_acct])
      (auto intro!: hoare_if hoare_creturn hoare_craise bump simp: transfer_post_def acct_def)
qed

definition call_post :: "int \<Rightarrow> int \<Rightarrow> unit await \<Rightarrow> ev list \<Rightarrow> bool" where
  "call_post a b r t \<longleftrightarrow> upto_one a b t \<and> (r = Done () \<longrightarrow> a + b < abandons t + bumps t)"

lemma hoare_download_once:
  "hoare (acct a b) (download_once env cfg want dl u) (call_post a b)"
proof -
  let ?R = "\<lambda>r t. upto_one a b t \<and> (case r of Done _ \<Rightarrow> a + b < abandons t + bumps t | _ \<Rightarrow> abandons t = a)"
  have race: "hoare (?R (Raised e)) (cbind monotonic (\<lambda>t.
      if t < dl \<or> \<not> teardown_race e then craise e else tell Abandon)) (call_post a b)" for e
    by (rule hoare_cbind [where R = "\<lambda>_. ?R (Raised e)"])
      (auto intro!: hoare_if hoare_craise hoare_tell keeps_basic simp: call_post_def upto_one_def)
  show ?thesis unfolding download_once_def
  proof (rule hoare_ctry [where R = ?R])
    show "hoare (acct a b) (cbind (download_transfer env cfg want dl) (\<lambda>abandon.
        if abandon then tell Abandon else creturn ())) ?R"
      by (rule hoare_cbind [OF hoare_download_transfer])
        (auto intro!: hoare_tell hoare_creturn simp: transfer_post_def upto_one_def)
    show "hoare (?R (Raised e)) (if is_AttributeError e \<or> e = CancelledErr then cbind monotonic (\<lambda>t.
        if t < dl \<or> \<not> teardown_race e then craise e else tell Abandon) else craise e) (call_post a b)" for e
      by (intro hoare_if race hoare_craise) (auto simp: call_post_def)
  qed (auto simp: call_post_def)
qed

text \<open>C22: a transfer is accounted for at most once. Whatever the server, the network, the clock and the
  session's teardown do, one call of the upload or the download worker counts at most one success and at most
  one abandonment; a download call that returns has counted one or the other.\<close>

theorem transfer_accounted_once:
  "(case upload_once env cfg sha dl slowest w of (r, w') \<Rightarrow>
      abandons (trace w) \<le> abandons (trace w') \<and> abandons (trace w') \<le> abandons (trace w) + 1 \<and>
      bumps (trace w) \<le> bumps (trace w') \<and> bumps (trace w') \<le> bumps (trace w) + 1) \<and>
   (case download_once env cfg want dl () w of (r, w') \<Rightarrow>
      abandons (trace w) \<le> abandons (trace w') \<and> abandons (trace w') \<le> abandons (trace w) + 1 \<and>
      bumps (trace w) \<le> bumps (trace w') \<and> bumps (trace w') \<le> bumps (trace w) + 1 \<and>
      (case r of Done _ \<Rightarrow> abandons (trace w) + bumps (trace w) < abandons (trace w') + bumps (trace w') | _ \<Rightarrow> True))"
proof -
  have i: "acct (abandons (trace w)) (bumps (trace w)) (trace w)" by (simp add: acct_def)
  obtain r w' where u: "upload_once env cfg sha dl slowest w = (r, w')" by fastforce
  obtain r2 w2 where d: "download_once env cfg want dl () w = (r2, w2)" by fastforce
  from hoareD [OF hoare_upload_once i u] hoareD [OF hoare_download_once i d] show ?thesis
    by (auto simp: u d upto_one_def call_post_def split: await.split)
qed

section \<open>Transfers with the server\<close>

text \<open>
  The server's handlers behind a network that delivers: sessions open and close, an upload reaches
  \<open>hUpload\<close> in any cutting, a download is the pump's stream in any cutting.
\<close>

definition opens :: "'s env \<Rightarrow> bool" where
  "opens env \<longleftrightarrow> (\<forall>s. \<exists>s1. e_open env s = (Done (), s1)) \<and> (\<forall>s. \<exists>s1. e_close env s = (Done (), s1))"

definition serves_upload :: "'s env \<Rightarrow> bool" where
  "serves_upload env \<longleftrightarrow> opens env \<and> (\<forall>hdrs cs tm s. \<exists>rcvd pulled s1. concat rcvd = concat cs \<and>
     e_upload env (ustr ''/upload'') hdrs cs tm s =
       ((Done (hUpload (case map_of hdrs (ustr ''x-sha1'') of Some v \<Rightarrow> v | None \<Rightarrow> []) rcvd), pulled), s1))"

definition serves_download :: "config \<Rightarrow> 's env \<Rightarrow> bool" where
  "serves_download cfg env \<longleftrightarrow> opens env \<and> (\<forall>s. \<exists>chunks s1. [] \<notin> set chunks \<and>
     concat chunks = concat (dlPump dlChunk (nat (STREAM cfg)) 0) \<and>
     e_stream env (ustr ''GET'') (ustr ''/download'') [] s = ((SStatus 200 # map SChunk chunks, Done ()), s1))"

lemma hUpload_own: "concat rcvd = concat (chunks_from (STREAM cfg) 0) \<Longrightarrow> hUpload (expected_sha1 cfg) rcvd = 200"
  by (simp add: hUpload_def expected_sha1_pattern lower_sha1_hex hexdigest_def sha1_update_chunks sha1_new_def chunks_from_0)

lemma opensD: "opens env \<Longrightarrow> \<exists>s1. e_open env s = (Done (), s1)" "opens env \<Longrightarrow> \<exists>s1. e_close env s = (Done (), s1)"
  by (simp_all add: opens_def)

lemma serves_uploadD:
  "serves_upload env \<Longrightarrow> \<exists>rcvd pulled s1. concat rcvd = concat cs \<and>
     e_upload env (ustr ''/upload'') hdrs cs tm s =
       ((Done (hUpload (case map_of hdrs (ustr ''x-sha1'') of Some v \<Rightarrow> v | None \<Rightarrow> []) rcvd), pulled), s1)"
  by (simp add: serves_upload_def)

lemma download_chunks_reads:
  assumes "length cs \<le> length (clk w)" and "\<forall>t \<in> set (clk w). t < dl"
  shows "download_chunks dl (map SChunk cs) (Done ()) h n w =
    (Done (False, foldl sha1_update h cs, n + length (concat cs)),
     w\<lparr>clk := drop (length cs) (clk w),
       trace := trace w @ concat (map (\<lambda>c. [RecvChunk c, Xfer (int (length c))]) cs)\<rparr>)"
  using assms
proof (induction cs arbitrary: h n w)
  case (Cons c cs)
  then obtain t ts where "clk w = t # ts" by (cases "clk w") auto
  with Cons show ?case
    by (simp add: cbind_def tell_def monotonic_def not_le [symmetric])
qed (simp add: cbind_def of_await_def creturn_def)

lemma chunk_count: "[] \<notin> set cs \<Longrightarrow> length cs \<le> length (concat cs)"
proof (induction cs)
  case (Cons c cs)
  then have "1 \<le> length c" by (cases c) auto
  with Cons show ?case by simp
qed simp

lemma acct_received:
  "abandons (concat (map (\<lambda>c. [RecvChunk c, Xfer (int (length c))]) cs)) = 0"
  "bumps (concat (map (\<lambda>c. [RecvChunk c, Xfer (int (length c))]) cs)) = 0"
  by (induction cs) simp_all

lemma download_served:
  assumes "serves_download cfg env" and "0 \<le> STREAM cfg" and "nat (STREAM cfg) \<le> length (clk w)"
    and "\<forall>t \<in> set (clk w). t < dl"
  shows "\<exists>w'. download_once env cfg (expected_sha1 cfg) dl () w = (Done (), w') \<and>
    bumps (trace w') = bumps (trace w) + 1 \<and> abandons (trace w') = abandons (trace w)"
proof -
  have op: "opens env" using assms(1) by (simp add: serves_download_def)
  obtain s where o: "e_open env (ext w) = (Done (), s)" using opensD(1) [OF op] by blast
  obtain cs s1 where cs: "[] \<notin> set cs" "concat cs = pattern 0 (nat (STREAM cfg))"
      "e_stream env (ustr ''GET'') (ustr ''/download'') [] s = ((SStatus 200 # map SChunk cs, Done ()), s1)"
    using assms(1) dlPump_pattern [of dlChunk "nat (STREAM cfg)" 0]
    by (auto simp: serves_download_def dlChunk_def) metis
  obtain s2 where c: "e_close env s1 = (Done (), s2)" using opensD(2) [OF op] by blast
  let ?w = "w\<lparr>ext := s1, trace := trace w @ [StreamStart (ustr ''/download'') []]\<rparr>"
  have n: "length cs \<le> length (clk ?w)" using chunk_count [OF cs(1)] assms(3) by (simp add: cs(2) length_pattern)
  have d: "hexdigest (foldl sha1_update sha1_new cs) = expected_sha1 cfg"
    by (simp add: hexdigest_def sha1_update_chunks sha1_new_def cs(2) expected_sha1_pattern)
  show ?thesis
    using o cs(3) c download_chunks_reads [of cs ?w dl sha1_new 0, OF n] assms(2, 4) d
    by (simp add: download_once_def download_transfer_def with_session_def open_stream_def cwith_def ctry_def
        cbind_def ccall_def creturn_def bump_def tell_def cs(2) length_pattern acct_received)
qed

lemma upload_served:
  assumes "serves_upload env" and "clk w = t # t0 # t1 # t2 # ts"
  shows "\<exists>w'. upload_once env cfg (expected_sha1 cfg) dl 0 w = (Done (max 0 (fsub t2 t0)), w') \<and>
    bumps (trace w') = bumps (trace w) + 1 \<and> abandons (trace w') = abandons (trace w)"
proof -
  let ?cs = "chunks_from (STREAM cfg) 0" and ?h = "[(ustr ''x-sha1'', expected_sha1 cfg)]"
  have op: "opens env" using assms(1) by (simp add: serves_upload_def)
  obtain s where o: "e_open env (ext w) = (Done (), s)" using opensD(1) [OF op] by blast
  obtain rc pulled s1 where up: "concat rc = concat ?cs"
      "e_upload env (ustr ''/upload'') ?h ?cs (Some (max 0 (fsub dl t1))) s = ((Done (hUpload (expected_sha1 cfg) rc), pulled), s1)"
    using serves_uploadD [OF assms(1), of ?cs ?h "Some (max 0 (fsub dl t1))" s] by auto
  obtain s2 where c: "e_close env s1 = (Done (), s2)" using opensD(2) [OF op] by blast
  have q: "abandons (concat (map (body_note cfg) l)) = 0" "bumps (concat (map (body_note cfg) l)) = 0" for l
    by (induction l) (simp_all add: body_note_def)
  show ?thesis
    using o up(2) c hUpload_own [OF up(1)] assms(2)
    by (simp add: upload_once_def upload_attempt_def upload_timed_def upload_def csettle_def ctry_def cbind_def ccall_def
        creturn_def bump_def tell_def monotonic_def Let_def q)
qed

text \<open>C6: the streaming workloads accept the server they were written for. Against the server's own upload
  check and download pump, with chunks cut anywhere, a worker's first transfer before the deadline always
  completes, is verified and is counted once, in both directions, and nothing is tallied as abandoned.\<close>

theorem own_server_transfers_counted:
  assumes "serves_upload env" and "serves_download cfg env" and "0 \<le> STREAM cfg"
    and "clk w = t # t0 # t1 # t2 # ts" and "nat (STREAM cfg) \<le> length (clk w)" and "\<forall>c \<in> set (clk w). c < dl"
  shows "(\<exists>w'. upload_once env cfg (expected_sha1 cfg) dl 0 w = (Done (max 0 (fsub t2 t0)), w') \<and>
      bumps (trace w') = bumps (trace w) + 1 \<and> abandons (trace w') = abandons (trace w)) \<and>
    (\<exists>w'. download_once env cfg (expected_sha1 cfg) dl () w = (Done (), w') \<and>
      bumps (trace w') = bumps (trace w) + 1 \<and> abandons (trace w') = abandons (trace w))"
  using upload_served [OF assms(1, 4)] download_served [OF assms(2, 3, 5, 6)] by blast

definition transfer_env :: "config \<Rightarrow> unit env" where
  "transfer_env cfg =
     \<lparr>e_open = (\<lambda>s. (Done (), s)), e_close = (\<lambda>s. (Done (), s)),
      e_request = (\<lambda>m p h c s. (Done (404, [], []), s)),
      e_stream = (\<lambda>m p h s. ((SStatus 200 # map SChunk (map (\<lambda>b. [b]) (concat (dlPump dlChunk (nat (STREAM cfg)) 0))), Done ()), s)),
      e_upload = (\<lambda>p h cs tm s.
        ((Done (hUpload (case map_of h (ustr ''x-sha1'') of Some v \<Rightarrow> v | None \<Rightarrow> []) [concat cs]), length cs), s)),
      e_ws_open = (\<lambda>p s. (Done 200, s)),
      e_ws_send = (\<lambda>op m s. (Done (), s)), e_ws_recv = (\<lambda>s. (Waiting, s)),
      e_wst_connect = (\<lambda>u tls tm s. (Done (), s)), e_wst_exit = (\<lambda>s. (Done (), s)),
      e_wst_send = (\<lambda>m s. (Done (), s)), e_wst_recv = (\<lambda>s. (Waiting, s))\<rparr>"

theorem own_server_transfers_counted_witness:
  "\<exists>w'. upload_once (transfer_env (sample_cfg (ustr ''streamupload''))) (sample_cfg (ustr ''streamupload''))
      (expected_sha1 (sample_cfg (ustr ''streamupload''))) 5 0 (fresh [0, 1, 1, 3, 4, 4, 4, 4, 4, 4] ()) = (Done (max 0 (fsub 3 1)), w') \<and>
    bumps (trace w') = 1 \<and> abandons (trace w') = 0"
proof -
  let ?c = "sample_cfg (ustr ''streamupload'')"
  have u: "serves_upload (transfer_env ?c)"
    unfolding serves_upload_def opens_def transfer_env_def
    by (auto intro: exI [of _ "[concat _]"])
  have d: "serves_download ?c (transfer_env ?c)"
    unfolding serves_download_def opens_def transfer_env_def
    by (auto intro!: exI [of _ "map (\<lambda>b. [b]) (concat (dlPump dlChunk (nat (STREAM ?c)) 0))"])
  have "STREAM ?c = 10" by (simp add: sample_cfg_def)
  then show ?thesis
    using own_server_transfers_counted [OF u d, of "fresh [0, 1, 1, 3, 4, 4, 4, 4, 4, 4] ()" 0 1 1 3 "[4, 4, 4, 4, 4, 4]" 5]
    by (simp add: fresh_def)
qed

end
