(* ===== verification/Stress_Exchange_Props.thy ===== *)
theory Stress_Exchange_Props
  imports Stress_Transfer_Props
begin

text \<open>
  The request workloads against the server's own handlers: every turn of the workload
  passes, so a correct server never fails a soak, and each turn counts a fixed number of
  exchanges.
\<close>

section \<open>Runs that complete\<close>

text \<open>\<open>m\<close> returns \<open>a\<close>, reads no clock and counts \<open>n\<close> exchanges, in every state.\<close>

definition completes :: "('s, 'a) work \<Rightarrow> 'a \<Rightarrow> int \<Rightarrow> bool" where
  "completes m a n \<longleftrightarrow> (\<forall>w. \<exists>s l. m w = (Done a, w\<lparr>ext := s, trace := trace w @ l\<rparr>) \<and> bumps l = n)"

lemma completesD:
  assumes "completes m a n"
  obtains s l where "m w = (Done a, w\<lparr>ext := s, trace := trace w @ l\<rparr>)" "bumps l = n"
  using assms unfolding completes_def by blast

lemma completesI:
  assumes "\<And>w. m w = (Done a, w\<lparr>ext := g w, trace := trace w @ l w\<rparr>)" and "\<And>w. bumps (l w) = n"
  shows "completes m a n"
  unfolding completes_def
proof
  fix w
  show "\<exists>s l. m w = (Done a, w\<lparr>ext := s, trace := trace w @ l\<rparr>) \<and> bumps l = n"
    by (rule exI [of _ "g w"], rule exI [of _ "l w"], rule conjI [OF assms])
qed

lemma completes_creturn: "completes (creturn a) a 0"
  by (rule completesI [where g = ext and l = "\<lambda>_. []"]) (simp_all add: creturn_def)

lemma completes_bump: "completes (bump st) () 1"
  by (rule completesI [where g = ext and l = "\<lambda>_. [Bump st 1]"]) (simp_all add: bump_def tell_def)

lemma completes_cbind:
  assumes "completes m a n" and "completes (f a) b n'"
  shows "completes (cbind m f) b (n + n')"
  unfolding completes_def
proof
  fix w
  obtain s l where m: "m w = (Done a, w\<lparr>ext := s, trace := trace w @ l\<rparr>)" "bumps l = n"
    by (rule completesD [OF assms(1)])
  obtain s' l' where f: "f a (w\<lparr>ext := s, trace := trace w @ l\<rparr>) = (Done b, w\<lparr>ext := s', trace := (trace w @ l) @ l'\<rparr>)"
      "bumps l' = n'"
    by (rule completesD [OF assms(2), of "w\<lparr>ext := s, trace := trace w @ l\<rparr>"]) simp
  show "\<exists>s l. cbind m f w = (Done b, w\<lparr>ext := s, trace := trace w @ l\<rparr>) \<and> bumps l = n + n'"
    using m f by (intro exI [of _ s'] exI [of _ "l @ l'"]) (simp add: cbind_def)
qed

lemma completes_request:
  fixes env :: "'a env"
  assumes "\<And>s. \<exists>s1. e_request env m p h c s = (Done r, s1)"
  shows "completes (request env m p h c) r 0"
  unfolding completes_def
proof
  fix w :: "('a, ev) world"
  obtain s1 where "e_request env m p h c (ext w) = (Done r, s1)" using assms by blast
  then show "\<exists>s l. request env m p h c w = (Done r, w\<lparr>ext := s, trace := trace w @ l\<rparr>) \<and> bumps l = 0"
    by (intro exI [of _ s1] exI [of _ "[Exch m p h c r]"]) (simp add: request_def ccall_def)
qed

lemma completes_cseq:
  "(\<And>x. x \<in> set xs \<Longrightarrow> completes (f x) () n) \<Longrightarrow> completes (cseq xs f) () (n * int (length xs))"
proof (induction xs)
  case Nil
  then show ?case using completes_creturn [of "()"] by (simp add: cseq.simps)
next
  case (Cons x xs)
  then have "completes (cseq (x # xs) f) () (n + n * int (length xs))"
    unfolding cseq.simps by (intro completes_cbind) auto
  then show ?case by (simp add: algebra_simps)
qed

lemma completes_tame:
  assumes "completes m a n"
  shows "tame m"
  unfolding runs_def
proof (intro allI impI)
  fix w r w' assume r: "m w = (r, w')"
  obtain s l where "m w = (Done a, w\<lparr>ext := s, trace := trace w @ l\<rparr>)" "bumps l = n"
    by (rule completesD [OF assms])
  with r show "length (clk w') \<le> length (clk w) \<and> (\<exists>l. trace w' = trace w @ l \<and> True)" by auto
qed

text \<open>A loop whose turns complete runs one turn per reading before the deadline, and returns.\<close>

lemma until_deadline_completes:
  assumes turn: "\<And>k. completes (body k) (Suc k) n"
    and "\<forall>t \<in> set ts. t < dl" and "dl \<le> late"
  shows "clk w = ts @ late # rest \<Longrightarrow> \<exists>s l. until_deadline dl body k w =
    (Done (k + length ts), w\<lparr>clk := rest, ext := s, trace := trace w @ l\<rparr>) \<and> bumps l = n * int (length ts)"
  using assms(2)
proof (induction ts arbitrary: k w)
  case Nil
  then show ?case using assms(3)
    by (subst until_deadline_eq [OF completes_tame [OF turn]], intro exI [of _ "ext w"] exI [of _ "[]"]) simp
next
  case (Cons t ts)
  let ?w = "w\<lparr>clk := ts @ late # rest\<rparr>"
  obtain s l where b: "body k ?w = (Done (Suc k), ?w\<lparr>ext := s, trace := trace ?w @ l\<rparr>)" "bumps l = n"
    by (rule completesD [OF turn])
  obtain s' l' where r: "until_deadline dl body (Suc k) (?w\<lparr>ext := s, trace := trace ?w @ l\<rparr>) =
      (Done (Suc k + length ts), w\<lparr>clk := rest, ext := s', trace := (trace w @ l) @ l'\<rparr>)" "bumps l' = n * int (length ts)"
    using Cons.IH [of "?w\<lparr>ext := s, trace := trace ?w @ l\<rparr>" "Suc k"] Cons.prems by auto
  show ?case
    using Cons.prems b r
    by (subst until_deadline_eq [OF completes_tame [OF turn]], intro exI [of _ s'] exI [of _ "l @ l'"])
      (simp add: cbind_def algebra_simps)
qed

section \<open>The server\<close>

text \<open>
  The requests reach \<open>echoBody\<close>: \<open>decode\<close> is the server library's decompression by the request's
  \<open>content-encoding\<close>. The response compression is undone by the HTTP client.
\<close>

definition header :: "hdict \<Rightarrow> char list \<Rightarrow> pystr option" where
  "header h name = map_of h (ustr name)"

definition serves_requests :: "(pystr option \<Rightarrow> bytes \<Rightarrow> bytes) \<Rightarrow> 's env \<Rightarrow> bool" where
  "serves_requests decode env \<longleftrightarrow> opens env \<and> (\<forall>m p h c s r.
     echoBody m p (case header h ''content-type'' of Some ct \<Rightarrow> ct | None \<Rightarrow> []) (decode (header h ''content-encoding'') c) = Some r \<longrightarrow>
     (\<exists>s1. e_request env m p h c s = (Done r, s1)))"

definition undoes :: "(pystr option \<Rightarrow> bytes \<Rightarrow> bytes) \<Rightarrow> codecs \<Rightarrow> config \<Rightarrow> bool" where
  "undoes decode cod cfg \<longleftrightarrow> (\<forall>raw body enc. compress cod cfg raw = Done (body, enc) \<longrightarrow> decode enc body = raw)"

lemma completes_served:
  fixes env :: "'s env"
  assumes "serves_requests decode env"
    and "echoBody m p (case header h ''content-type'' of Some ct \<Rightarrow> ct | None \<Rightarrow> [])
      (decode (header h ''content-encoding'') c) = Some r"
  shows "completes (request env m p h c) r 0"
  using assms unfolding serves_requests_def by (intro completes_request) blast

definition well_prepared :: "(pystr option \<Rightarrow> bytes \<Rightarrow> bytes) \<Rightarrow> pystr \<times> bytes \<times> bytes \<times> hdict \<Rightarrow> bool" where
  "well_prepared decode p = (case p of (ctype, raw, body, hdrs) \<Rightarrow>
     ctype \<noteq> [] \<and> header hdrs ''content-type'' = Some ctype \<and> decode (header hdrs ''content-encoding'') body = raw)"

lemma prepare_well:
  assumes "undoes decode cod cfg"
  shows "prepare cod cfg mix = Done ps \<Longrightarrow> \<forall>(ct, raw) \<in> set mix. ct \<noteq> [] \<Longrightarrow> list_all (well_prepared decode) ps"
proof (induction mix arbitrary: ps)
  case (Cons x mix)
  obtain ct raw where x: "x = (ct, raw)" by fastforce
  from Cons.prems(1) obtain body enc ps' where c: "compress cod cfg raw = Done (body, enc)"
      "prepare cod cfg mix = Done ps'"
    by (auto simp: x abind_def Let_def split: await.splits prod.splits)
  moreover have "enc = None \<or> (\<exists>e. enc = Some e \<and> e \<noteq> [])" using c(1) by (auto simp: compress_def split: if_splits)
  moreover have "decode enc body = raw" using assms c(1) by (simp add: undoes_def)
  ultimately show ?case using Cons
    by (auto simp: x abind_def Let_def well_prepared_def header_def split: option.splits)
qed simp

lemma prepare_length: "prepare cod cfg mix = Done ps \<Longrightarrow> length ps = length mix"
  by (induction mix arbitrary: ps) (auto simp: abind_def Let_def split: await.splits prod.splits)

lemma payload_mix_typed: "\<forall>(ct, raw) \<in> set (payload_mix r1 r2). ct \<noteq> []"
  by (simp add: payload_mix_def)

lemma gets_served:
  "(path, ct, b) \<in> set expected_gets \<Longrightarrow> echoBody (ustr ''GET'') path rct rbody = Some (200, ct, b)"
  using genChunk_pattern [of 8192 0]
  by (auto simp: expected_gets_def echoBody_def xml_body_server csv_body_server htmlBody_def gen_chunk_pattern dlChunk_def)

lemma echo_completes:
  fixes env :: "'s env"
  assumes "serves_requests decode env" and "well_prepared decode p" and "m \<noteq> ustr ''GET''"
  shows "completes (echo_once env p m) () 1"
proof -
  obtain ct raw body hdrs where p: "p = (ct, raw, body, hdrs)" by (cases p) auto
  have "completes (request env m (ustr ''/echo'') hdrs body) (200, ct, raw) 0"
    using assms(2, 3) by (intro completes_served [OF assms(1)]) (auto simp: well_prepared_def p echoBody_def)
  from completes_cbind [OF this, where f = "\<lambda>(st, ct', b). if st \<noteq> 200 \<or> b \<noteq> raw then craise (Fail (FEcho m st (length b) (length raw)))
          else if lower ct' \<noteq> lower ct then craise (Fail (FEchoType m ct ct')) else bump 200" and b = "()" and n' = 1]
  show ?thesis by (simp add: echo_once_def p completes_bump)
qed

lemma requests_turn_completes:
  fixes env :: "'s env"
  assumes "serves_requests decode env" and "list_all (well_prepared decode) ps" and "ps \<noteq> []"
  shows "completes (requests_turn env h expected_gets ps k) (Suc k) 3"
proof -
  let ?p = "ps ! (k mod length ps)"
  obtain path ct want where g: "expected_gets ! (k mod length expected_gets) = (path, ct, want)"
    by (cases "expected_gets ! (k mod length expected_gets)") auto
  have "(path, ct, want) \<in> set expected_gets" unfolding g [symmetric] by (intro nth_mem) simp
  then have get: "completes (request env (ustr ''GET'') path h []) (200, ct, want) 0"
    by (intro completes_served [OF assms(1)] gets_served)
  have "well_prepared decode ?p" using assms(2, 3) by (simp add: list_all_iff)
  then have "completes (cseq [ustr ''POST'', ustr ''PUT''] (echo_once env ?p)) () (1 * int (length [ustr ''POST'', ustr ''PUT'']))"
    by (intro completes_cseq echo_completes [OF assms(1)]) auto
  then have echo: "completes (cseq [ustr ''POST'', ustr ''PUT''] (echo_once env ?p)) () 2" by simp
  have "completes (cbind (bump 200) (\<lambda>_. cbind (cseq [ustr ''POST'', ustr ''PUT''] (echo_once env ?p)) (\<lambda>_. creturn (Suc k)))) (Suc k) (1 + (2 + 0))"
    by (intro completes_cbind [OF completes_bump] completes_cbind [OF echo] completes_creturn)
  from completes_cbind [OF get, of "\<lambda>(st, ct', b).
          if st \<noteq> 200 then craise (Fail (FGetStatus path st))
          else if lower ct' \<noteq> lower ct then craise (Fail (FGetType path ct ct'))
          else if b \<noteq> want then craise (Fail (FGetBody path (length b) (length want)))
          else cbind (bump 200) (\<lambda>_.
            cbind (cseq [ustr ''POST'', ustr ''PUT''] (echo_once env ?p)) (\<lambda>_. creturn (Suc k)))"] this
  show ?thesis unfolding requests_turn_def g prod.case by simp
qed

section \<open>A worker's whole run\<close>

lemma adds_with_session: "tame m \<Longrightarrow> tame (with_session env m)"
  unfolding with_session_def by (intro adds_cwith adds_basic) (simp_all add: trace_closed_def)

lemma session_loop:
  assumes "opens env" and turn: "\<And>k. completes (body k) (Suc k) n"
    and "clk w = ts @ late # rest" and "\<forall>t \<in> set ts. t < dl" and "dl \<le> late"
  shows "\<exists>s l. with_session env (cbind (until_deadline dl body 0) (\<lambda>_. creturn ())) w =
    (Done (), w\<lparr>clk := rest, ext := s, trace := trace w @ l\<rparr>) \<and> bumps l = n * int (length ts)"
proof -
  obtain s0 where o: "e_open env (ext w) = (Done (), s0)" using opensD(1) [OF assms(1)] by blast
  obtain s l where u: "until_deadline dl body 0 (w\<lparr>ext := s0\<rparr>) =
      (Done (0 + length ts), (w\<lparr>ext := s0\<rparr>)\<lparr>clk := rest, ext := s, trace := trace (w\<lparr>ext := s0\<rparr>) @ l\<rparr>)"
      "bumps l = n * int (length ts)"
    using until_deadline_completes [OF turn assms(4, 5), of "w\<lparr>ext := s0\<rparr>" rest 0] assms(3) by auto
  obtain s1 where c: "e_close env s = (Done (), s1)" using opensD(2) [OF assms(1)] by blast
  show ?thesis
    using o u c by (intro exI [of _ s1] exI [of _ l]) (simp add: with_session_def cwith_def cbind_def ccall_def creturn_def)
qed

lemma drive_session:
  assumes "opens env" and turn: "\<And>k. completes (body k) (Suc k) n"
    and w: "clk w = t # ts @ late # later # rest" and "t < dl" and "\<forall>t \<in> set ts. t < dl" and "dl \<le> late" and "dl \<le> later"
  shows "\<exists>w'. drive dl (\<lambda>_. with_session env (cbind (until_deadline dl body 0) (\<lambda>_. creturn ()))) () w = (Done (), w') \<and>
    bumps (trace w') = bumps (trace w) + n * int (length ts)"
proof -
  let ?once = "with_session env (cbind (until_deadline dl body 0) (\<lambda>_. creturn ()))"
  have "tame (until_deadline dl body 0)" by (rule tame_until_deadline) (rule completes_tame [OF turn])
  then have "tame ?once" by (intro adds_with_session adds_cbind adds_basic) (simp_all add: trace_closed_def)
  then have tm: "tame (ctry ?once (\<lambda>e. craise (drive_except e)))" for k :: unit
    by (intro adds_ctry adds_basic) (simp_all add: trace_closed_def)
  obtain s l where o: "?once (w\<lparr>clk := ts @ late # later # rest\<rparr>) =
      (Done (), (w\<lparr>clk := ts @ late # later # rest\<rparr>)\<lparr>clk := later # rest, ext := s, trace := trace w @ l\<rparr>)"
      "bumps l = n * int (length ts)"
    using session_loop [OF assms(1) turn, of "w\<lparr>clk := ts @ late # later # rest\<rparr>" ts late "later # rest" dl] assms(5, 6) by auto
  let ?w1 = "w\<lparr>clk := later # rest, ext := s, trace := trace w @ l\<rparr>"
  note run = until_deadline_eq [OF tm, where dl = dl]
  have "until_deadline dl (\<lambda>k. ctry ?once (\<lambda>e. craise (drive_except e))) () ?w1 = (Done (), ?w1\<lparr>clk := rest\<rparr>)"
    using assms(7) by (subst run) simp
  then have "until_deadline dl (\<lambda>k. ctry ?once (\<lambda>e. craise (drive_except e))) () w = (Done (), ?w1\<lparr>clk := rest\<rparr>)"
    using w assms(4) o(1) by (subst run) (simp add: cbind_def ctry_def)
  then show ?thesis using o(2) by (simp add: drive_def)
qed

text \<open>C5: the requests workload accepts the server it was written for. With the server's own handlers, a
  request decompression that undoes the client's compression, and any random payloads, every worker of
  \<open>w_requests\<close> runs to the deadline without an error and counts exactly three verified exchanges (one GET of
  the contract, one POST and one PUT echo) per turn, for any number of turns.\<close>

theorem own_server_requests_counted:
  assumes "serves_requests decode env" and "undoes decode cod cfg"
    and "w_requests cod cfg r1 r2 env dl conc = Done ws" and "m \<in> set ws"
    and "clk w = t # ts @ late # later # rest" and "t < dl" and "\<forall>t \<in> set ts. t < dl" and "dl \<le> late" and "dl \<le> later"
  shows "\<exists>w'. m w = (Done (), w') \<and> bumps (trace w') = bumps (trace w) + 3 * int (length ts)"
proof -
  obtain ps where ps: "prepare cod cfg (payload_mix r1 r2) = Done ps"
    and m: "m = drive dl (requests_once env cfg dl expected_gets ps) ()"
    using assms(3, 4) by (auto simp: w_requests_def workers_def abind_def split: await.splits)
  note wp = prepare_well [OF assms(2) ps payload_mix_typed]
  have "ps \<noteq> []" using prepare_length [OF ps] by auto
  note turn = requests_turn_completes [OF assms(1) wp this, of "get_hdrs cfg"]
  have "opens env" using assms(1) by (simp add: serves_requests_def)
  from drive_session [OF this turn assms(5-9)] show ?thesis
    by (simp add: m requests_once_def [abs_def])
qed

lemma prepare_plain: "REQ_COMP cfg = [] \<Longrightarrow> \<exists>ps. prepare cod cfg mix = Done ps"
  by (induction mix) (auto simp: compress_def abind_def Let_def)

definition request_env :: "unit env" where
  "request_env =
     \<lparr>e_open = (\<lambda>s. (Done (), s)), e_close = (\<lambda>s. (Done (), s)),
      e_request = (\<lambda>m p h c s.
        (case echoBody m p (case header h ''content-type'' of Some ct \<Rightarrow> ct | None \<Rightarrow> []) c of
           Some r \<Rightarrow> Done r | None \<Rightarrow> Waiting, s)),
      e_stream = (\<lambda>m p h s. (([], Done ()), s)), e_upload = (\<lambda>p h cs tm s. ((Done 400, 0), s)),
      e_ws_open = (\<lambda>p s. (Done 200, s)),
      e_ws_send = (\<lambda>op m s. (Done (), s)), e_ws_recv = (\<lambda>s. (Waiting, s)),
      e_wst_connect = (\<lambda>u tls tm s. (Done (), s)), e_wst_exit = (\<lambda>s. (Done (), s)),
      e_wst_send = (\<lambda>m s. (Done (), s)), e_wst_recv = (\<lambda>s. (Waiting, s))\<rparr>"

theorem own_server_requests_counted_witness:
  "\<exists>m w'. w_requests sample_codecs (sample_cfg (ustr ''requests'')) [1] [2] request_env 5 1 = Done [m] \<and>
    m (fresh [0, 1, 2, 9, 9] ()) = (Done (), w') \<and> bumps (trace w') = 6"
proof -
  let ?c = "sample_cfg (ustr ''requests'')"
  have s: "serves_requests (\<lambda>_ b. b) request_env"
    by (simp add: serves_requests_def opens_def request_env_def)
  have u: "undoes (\<lambda>_ b. b) sample_codecs ?c"
    by (simp add: undoes_def compress_def sample_cfg_def)
  obtain ps where "prepare sample_codecs ?c (payload_mix [1] [2]) = Done ps"
    using prepare_plain [of ?c] by (auto simp: sample_cfg_def)
  then obtain m where m: "w_requests sample_codecs ?c [1] [2] request_env 5 1 = Done [m]"
    by (simp add: w_requests_def workers_def)
  from own_server_requests_counted [OF s u m, of m "fresh [0, 1, 2, 9, 9] ()" 0 "[1, 2]" 9 9 "[]"] m
  show ?thesis by (auto simp: fresh_def)
qed

end
