(* ===== verification/Chaos_Acts.thy ===== *)
theory Chaos_Acts
  imports Stress_Work
begin

text \<open>
  The misbehaving client's catalog, the \<open>b_*\<close> behaviours of
  \<open>conformance/stress/client/chaos.py\<close>, as coroutines. What the verified client's session offers
  is the record \<open>env\<close> of the workloads; \<open>cenv\<close> adds the seeded random generator and the
  low-level doors chaos uses (raw h3 streams, sockets, the \<open>websockets\<close> transport). The
  trace keeps what the properties are about: transports opened and left, how they were
  left, the \<open>connects\<close> counter, the chunks read and the sleeps.
\<close>

section \<open>The outside\<close>

record 's cenv = "'s env" +
  c_random :: "'s \<Rightarrow> pyfloat \<times> 's"
  c_uniform :: "pyfloat \<Rightarrow> pyfloat \<Rightarrow> 's \<Rightarrow> pyfloat \<times> 's"
  c_randint :: "int \<Rightarrow> int \<Rightarrow> 's \<Rightarrow> int \<times> 's"
  c_choice :: "nat \<Rightarrow> 's \<Rightarrow> nat \<times> 's"
    \<comment> \<open>the index \<open>rng.choice\<close> picks in a list of that length\<close>
  c_aclose :: "'s \<Rightarrow> unit await \<times> 's"
  c_stream_open :: "pystr \<Rightarrow> hdict \<Rightarrow> 's \<Rightarrow> qitem list await \<times> 's"
    \<comment> \<open>\<open>stream_open("GET", path, headers)\<close>: the items that arrive on its queue\<close>
  c_abort_stream :: "'s \<Rightarrow> unit await \<times> 's"
  c_upload_raise :: "bytes list \<Rightarrow> exn \<Rightarrow> 's \<Rightarrow> int await \<times> 's"
    \<comment> \<open>an upload whose generator raises after these chunks\<close>
  c_upload_cancel :: "'s \<Rightarrow> unit await \<times> 's"
    \<comment> \<open>awaiting the upload task after \<open>cancel()\<close>\<close>
  c_ws_close :: "'s \<Rightarrow> unit await \<times> 's"
  c_wst_connect :: "pystr \<Rightarrow> bool \<Rightarrow> 's \<Rightarrow> unit await \<times> 's"
  c_wst_close :: "int \<Rightarrow> 's \<Rightarrow> unit await \<times> 's"
  c_wst_abort :: "'s \<Rightarrow> bool \<times> 's"
    \<comment> \<open>\<open>ws.transport.abort()\<close>; whether there was a transport\<close>
  c_udp_close :: "'s \<Rightarrow> bool \<times> 's"
    \<comment> \<open>\<open>s.c._transport.close()\<close>; whether there was a transport\<close>
  c_tcp_connect :: "pystr option \<Rightarrow> int \<Rightarrow> 's \<Rightarrow> unit await \<times> 's"
  c_tcp_write :: "bytes \<Rightarrow> 's \<Rightarrow> unit await \<times> 's"
  c_tcp_read :: "nat \<Rightarrow> 's \<Rightarrow> unit await \<times> 's"
  c_socket :: "'s \<Rightarrow> bool \<times> 's"
    \<comment> \<open>whether the extra information has a socket\<close>
  c_setsockopt :: "bytes \<Rightarrow> 's \<Rightarrow> unit await \<times> 's"
  c_tcp_close :: "'s \<Rightarrow> unit await \<times> 's"
  c_raw_stream :: "pystr \<Rightarrow> hdict \<Rightarrow> 's \<Rightarrow> (bytes list \<times> unit await) await \<times> 's"
    \<comment> \<open>\<open>s.c.stream("GET", url, headers=...).__aenter__()\<close> and its \<open>aiter_raw\<close>\<close>
  c_raw_exit :: "'s \<Rightarrow> unit await \<times> 's"

datatype cev =
    COpen | CLeave
  | CTcpOpen | CTcpClose
  | CWsOpen | CWsLeave
  | Connected
  | CDrop            \<comment> \<open>the UDP transport closed under aioquic\<close>
  | CLinger bytes    \<comment> \<open>\<open>SO_LINGER\<close> set on the socket\<close>
  | CWsAbort         \<comment> \<open>the TCP transport aborted under websockets\<close>
  | CRead
  | CSleep pyfloat
  | CWrite bytes
  | CStart pystr hdict
  | CUpload pystr "bytes list"
  | CTally bool "pystr \<times> pystr"
  | COut pystr

type_synonym ('s, 'a) cwork = "('s, cev, 'a) coro"

definition connected :: "('s, unit) cwork" where
  "connected = tell Connected"

definition csleep :: "pyfloat \<Rightarrow> ('s, unit) cwork" where
  "csleep d = tell (CSleep d)"

definition cdo :: "('s \<Rightarrow> 'a await \<times> 's) \<Rightarrow> ('s, 'a) cwork" where
  "cdo f = ccall f (\<lambda>_. [])"

definition c_enter :: "('s, 'z) env_scheme \<Rightarrow> ('s, unit) cwork" where
  "c_enter env = ccall (e_open env) (\<lambda>_. [COpen])"

definition c_leave :: "('s, 'z) env_scheme \<Rightarrow> ('s, unit) cwork" where
  "c_leave env = cbind (tell CLeave) (\<lambda>_. cdo (e_close env))"

text \<open>\<open>async with session() as s: connects[0] += 1; body\<close>\<close>

definition in_session :: "('s, 'z) env_scheme \<Rightarrow> ('s, 'a) cwork \<Rightarrow> ('s, 'a) cwork" where
  "in_session env body = cwith (c_enter env) (c_leave env) (cbind connected (\<lambda>_. body))"

text \<open>\<open>gen = s.stream("GET", path, hdrs); await gen.__anext__()\<close>\<close>

definition c_stream :: "'s cenv \<Rightarrow> pystr \<Rightarrow> hdict \<Rightarrow> ('s, stream_item list \<times> unit await) cwork" where
  "c_stream env path hdrs =
     cbind (tell (CStart path hdrs)) (\<lambda>_.
       cbind (draw (e_stream env (ustr ''GET'') path hdrs)) (\<lambda>(items, fin).
         case items of
           [] \<Rightarrow> cbind (of_await fin) (\<lambda>_. craise StopAsyncIteration)
         | it # rest \<Rightarrow> creturn (rest, fin)))"

text \<open>\<open>sid, q = s.stream_open("GET", path, headers)\<close>\<close>

definition c_open_raw :: "'s cenv \<Rightarrow> pystr \<Rightarrow> hdict \<Rightarrow> ('s, qitem list) cwork" where
  "c_open_raw env path hdrs = cbind (tell (CStart path hdrs)) (\<lambda>_. cdo (c_stream_open env path hdrs))"

definition q_get :: "qitem list \<Rightarrow> ('s, unit) cwork" where
  "q_get q = (if q = [] then cwait else creturn ())"

definition accept_sse :: hdict where
  "accept_sse = [(ustr ''accept'', ustr ''text/event-stream'')]"

definition wrong_sha :: pystr where
  "wrong_sha = replicate 40 48"

definition upload_hdrs :: hdict where
  "upload_hdrs = [(ustr ''x-sha1'', wrong_sha)]"

definition c_upload :: "'s cenv \<Rightarrow> bytes list \<Rightarrow> ('s, unit) cwork" where
  "c_upload env chunks =
     cbind (tell (CUpload wrong_sha chunks)) (\<lambda>_.
       cbind (cdo (\<lambda>s. case e_upload env (ustr ''/upload'') upload_hdrs chunks None s of
           ((r, m), s') \<Rightarrow> (r, s'))) (\<lambda>_. creturn ()))"

section \<open>Generic behaviours\<close>

fun slow_read :: "'s cenv \<Rightarrow> pyfloat \<Rightarrow> pyfloat \<Rightarrow> pyfloat \<Rightarrow> stream_item list \<Rightarrow> unit await \<Rightarrow> ('s, unit) cwork" where
  "slow_read env deadline lo hi [] fin = of_await fin"
| "slow_read env deadline lo hi (it # items) fin =
     cbind (tell CRead) (\<lambda>_.
       cbind monotonic (\<lambda>t.
         if deadline \<le> t then creturn ()
         else cbind (draw (c_uniform env lo hi)) (\<lambda>d.
           cbind (csleep d) (\<lambda>_. slow_read env deadline lo hi items fin))))"

definition b_slowread :: "config \<Rightarrow> 's cenv \<Rightarrow> ('s, unit) cwork" where
  "b_slowread cfg env =
     cbind (draw (c_random env)) (\<lambda>p.
       let sse = p < 1 / 4;
           path = (if sse then ustr ''/sse'' else ustr ''/download'');
           hdrs = (if sse then accept_sse else []) in
       cbind (draw (c_uniform env 5 15)) (\<lambda>budget.
         cbind monotonic (\<lambda>t.
           in_session env
             (cbind (c_stream env path hdrs) (\<lambda>(items, fin).
               cbind (slow_read env (fadd t budget) (fl (1 / 10)) (1 / 2) items fin) (\<lambda>_.
                 cdo (c_aclose env)))))))"

text \<open>\<open>drip\<close>, read to its end by the transport: the chunks it yields.\<close>

definition drip :: "'s cenv \<Rightarrow> pyfloat \<Rightarrow> ('s, bytes list) cwork" where
  "drip env deadline =
     until_deadline deadline (\<lambda>chunks.
       cbind (draw (c_uniform env (fl (5 / 100)) (1 / 4))) (\<lambda>d.
         cbind (csleep d) (\<lambda>_.
           creturn (chunks @ [gen_chunk (int (length chunks) * (4 * 1024)) (4 * 1024)])))) []"

definition b_slowwrite :: "config \<Rightarrow> 's cenv \<Rightarrow> ('s, unit) cwork" where
  "b_slowwrite cfg env =
     cbind (draw (c_uniform env 5 15)) (\<lambda>budget.
       cbind monotonic (\<lambda>t.
         in_session env
           (cbind (drip env (fadd t budget)) (\<lambda>chunks. c_upload env chunks))))"

text \<open>\<open>_ws_target\<close>: the URL, and whether it gets a TLS context.\<close>

definition ws_target :: "config \<Rightarrow> pystr \<times> bool" where
  "ws_target cfg =
     (let url = py_replace (ustr ''http://'') (ustr ''ws://'')
                  (py_replace (ustr ''https://'') (ustr ''wss://'') (BASE cfg)) @ ustr ''/ws''
      in (url, take 6 url = ustr ''wss://''))"

definition ws_connect :: "config \<Rightarrow> 's cenv \<Rightarrow> ('s, unit) cwork" where
  "ws_connect cfg env =
     (case ws_target cfg of (url, tls) \<Rightarrow> ccall (c_wst_connect env url tls) (\<lambda>_. [CWsOpen]))"

definition with_websocket :: "config \<Rightarrow> 's cenv \<Rightarrow> ('s, unit) cwork \<Rightarrow> ('s, unit) cwork" where
  "with_websocket cfg env body =
     cwith (ws_connect cfg env)
       (cbind (tell CWsLeave) (\<lambda>_. cdo (e_wst_exit env)))
       (cbind connected (\<lambda>_. body))"

definition b_idle :: "config \<Rightarrow> 's cenv \<Rightarrow> ('s, unit) cwork" where
  "b_idle cfg env =
     cbind (draw (c_uniform env 10 30)) (\<lambda>hold.
       cbind (draw (c_random env)) (\<lambda>p.
         let want_ws = p < 1 / 2 in
         if want_ws \<and> IS_H3 cfg then
           in_session env
             (cbind (cdo (e_ws_open env (ustr ''/ws''))) (\<lambda>_.
               cfinally (csleep hold) (cdo (c_ws_close env))))
         else if want_ws then with_websocket cfg env (csleep hold)
         else
           in_session env
             (cbind (cdo (e_request env (ustr ''GET'') (ustr ''/plaintext'') [] [])) (\<lambda>_. csleep hold))))"

text \<open>Chunks off the raw h3 queue until \<open>want\<close> of them, an end or an error.\<close>

fun raw_read :: "int \<Rightarrow> int \<Rightarrow> qitem list \<Rightarrow> ('s, unit) cwork" where
  "raw_read want n [] = (if n < want then cwait else creturn ())"
| "raw_read want n (it # q) =
     (if n < want then
        (case it of
           QD d \<Rightarrow> cbind (tell CRead) (\<lambda>_. raw_read want (n + 1) q)
         | QEnd \<Rightarrow> creturn ()
         | QErr m \<Rightarrow> creturn ()
         | QH st enc ct \<Rightarrow> raw_read want n q)
      else creturn ())"

text \<open>\<open>async for _chunk in gen: got += 1; if got >= want: break\<close>\<close>

fun read_some :: "int \<Rightarrow> int \<Rightarrow> stream_item list \<Rightarrow> unit await \<Rightarrow> ('s, unit) cwork" where
  "read_some want n [] fin = of_await fin"
| "read_some want n (it # items) fin =
     cbind (tell CRead) (\<lambda>_. if want \<le> n + 1 then creturn () else read_some want (n + 1) items fin)"

definition abort_download :: "config \<Rightarrow> 's cenv \<Rightarrow> int \<Rightarrow> ('s, unit) cwork" where
  "abort_download cfg env want =
     in_session env
       (if IS_H3 cfg then
          cbind (c_open_raw env (ustr ''/download'') []) (\<lambda>q.
            cbind (raw_read want 0 q) (\<lambda>_. cdo (c_abort_stream env)))
        else
          cbind (c_stream env (ustr ''/download'') []) (\<lambda>(items, fin).
            cbind (read_some want 0 items fin) (\<lambda>_. cdo (c_aclose env))))"

definition b_abort :: "config \<Rightarrow> 's cenv \<Rightarrow> ('s, unit) cwork" where
  "b_abort cfg env =
     cbind (draw (c_random env)) (\<lambda>p.
       if p < 1 / 4 then
         in_session env
           (cbind (tell (CUpload wrong_sha [gen_chunk 0 (4 * 1024)])) (\<lambda>_.
             cbind (cdo (c_upload_raise env [gen_chunk 0 (4 * 1024)]
                      (RuntimeErr (ustr ''chaos: abort upload mid-body'')))) (\<lambda>_. creturn ())))
       else cbind (draw (c_randint env 1 32)) (\<lambda>want. abort_download cfg env want))"

section \<open>Vanishing\<close>

text \<open>\<open>struct.pack("ii", 1, 0)\<close> on the little-endian platforms the harness runs on.\<close>

definition linger_zero :: bytes where
  "linger_zero = [1, 0, 0, 0, 0, 0, 0, 0]"

text \<open>\<open>urlparse(url).scheme\<close>\<close>

definition url_scheme :: "pystr \<Rightarrow> pystr" where
  "url_scheme url =
     (let u = filter (\<lambda>c. c \<notin> {9, 10, 13}) (dropWhile (\<lambda>c. c \<le> 32) url);
          (scheme, colon, r) = partition_on 58 u
      in if colon \<and> scheme \<noteq> [] \<and> hd scheme \<notin> {43, 45, 46} \<and> \<not> is_adigit (hd scheme) \<and>
            list_all scheme_char scheme then lower scheme else [])"

definition slow_pause :: "'s cenv \<Rightarrow> bool \<Rightarrow> ('s, unit) cwork" where
  "slow_pause env slow_first =
     (if slow_first then cbind (draw (c_uniform env 1 5)) csleep else creturn ())"

text \<open>The h3 branches: whatever \<open>body\<close> does, the session is left, and what that raises is dropped.\<close>

definition h3_vanishing :: "'s cenv \<Rightarrow> ('s, unit) cwork \<Rightarrow> ('s, unit) cwork" where
  "h3_vanishing env body =
     cbind (c_enter env) (\<lambda>_.
       cbind connected (\<lambda>_.
         cfinally body (swallow (c_leave env))))"

text \<open>\<open>tr = getattr(s.c, "_transport", None); if tr is not None: tr.close()\<close>\<close>

definition drop_udp :: "'s cenv \<Rightarrow> ('s, unit) cwork" where
  "drop_udp env = cbind (draw (c_udp_close env)) (\<lambda>there. if there then tell CDrop else creturn ())"

text \<open>\<open>host, port = u.hostname, u.port or 80\<close>\<close>

definition http_hostport :: "config \<Rightarrow> (pystr option \<times> int) result" where
  "http_hostport cfg =
     result_bind (url_hostport (BASE cfg)) (\<lambda>(host, port).
       Inr (host, case port of None \<Rightarrow> 80 | Some p \<Rightarrow> if p = 0 then 80 else p))"

definition host_text :: "pystr option \<Rightarrow> pystr" where
  "host_text host = (case host of None \<Rightarrow> ustr ''None'' | Some h \<Rightarrow> h)"

definition crlf_text :: pystr where
  "crlf_text = [13, 10]"

definition vanish_request :: "pystr \<Rightarrow> hdict \<Rightarrow> pystr option \<Rightarrow> int \<Rightarrow> bytes" where
  "vanish_request path headers host port =
     py_encode (ustr ''GET '' @ path @ ustr '' HTTP/1.1'' @ crlf_text @ ustr ''Host: '' @ host_text host @ ustr '':'' @
       py_str port @ crlf_text @ concat (map (\<lambda>(k, v). k @ ustr '': '' @ v @ crlf_text) headers) @
       ustr ''Connection: close'' @ crlf_text @ crlf_text)"

definition c_write :: "'s cenv \<Rightarrow> bytes \<Rightarrow> ('s, unit) cwork" where
  "c_write env bs = cbind (tell (CWrite bs)) (\<lambda>_. cdo (c_tcp_write env bs))"

definition set_linger :: "'s cenv \<Rightarrow> ('s, unit) cwork" where
  "set_linger env = ccall (c_setsockopt env linger_zero) (\<lambda>_. [CLinger linger_zero])"

text \<open>A raw TCP connection to \<open>BASE\<close>; the socket lingers 0 before the close, which is then a reset.\<close>

definition tcp_vanishing :: "config \<Rightarrow> 's cenv \<Rightarrow> (pystr option \<Rightarrow> int \<Rightarrow> ('s, unit) cwork) \<Rightarrow> ('s, unit) cwork" where
  "tcp_vanishing cfg env talk =
     cbind (of_await (of_result (http_hostport cfg))) (\<lambda>(host, port).
       cbind (ccall (c_tcp_connect env host port) (\<lambda>_. [CTcpOpen])) (\<lambda>_.
         cbind connected (\<lambda>_.
           cfinally
             (cbind (talk host port) (\<lambda>_.
               cbind (draw (c_socket env)) (\<lambda>sock. if sock then set_linger env else creturn ())))
             (swallow (cbind (tell CTcpClose) (\<lambda>_. cdo (c_tcp_close env)))))))"

text \<open>\<open>got >= rng.randint(1, 8)\<close> is drawn anew for every chunk.\<close>

fun raw_some :: "'s cenv \<Rightarrow> int \<Rightarrow> bytes list \<Rightarrow> unit await \<Rightarrow> ('s, unit) cwork" where
  "raw_some env n [] fin = of_await fin"
| "raw_some env n (c # cs) fin =
     cbind (tell CRead) (\<lambda>_.
       cbind (draw (c_randint env 1 8)) (\<lambda>want.
         if want \<le> n + 1 then creturn () else raw_some env (n + 1) cs fin))"

text \<open>The h2 branch's \<open>try\<close>: whether the session is to be left cleanly afterwards.\<close>

definition h2_vanish_try :: "config \<Rightarrow> 's cenv \<Rightarrow> pystr \<Rightarrow> hdict \<Rightarrow> bool \<Rightarrow> ('s, bool) cwork" where
  "h2_vanish_try cfg env path headers slow_first =
     cbind (tell (CStart path headers)) (\<lambda>_.
       cbind (cdo (c_raw_stream env (BASE cfg @ path) headers)) (\<lambda>(cs, fin).
         cbind (raw_some env 0 cs fin) (\<lambda>_.
           cbind (slow_pause env slow_first) (\<lambda>_.
             cbind (draw (c_socket env)) (\<lambda>sock.
               if sock then
                 cbind (set_linger env) (\<lambda>_.
                   cbind (swallow (cdo (c_raw_exit env))) (\<lambda>_. creturn True))
               else creturn False)))))"

definition h2_vanish :: "config \<Rightarrow> 's cenv \<Rightarrow> pystr \<Rightarrow> hdict \<Rightarrow> bool \<Rightarrow> ('s, unit) cwork" where
  "h2_vanish cfg env path headers slow_first =
     cbind (c_enter env) (\<lambda>_.
       cbind connected (\<lambda>_.
         cbind (csettle (h2_vanish_try cfg env path headers slow_first)) (\<lambda>b.
           case b of
             Inl e \<Rightarrow> cbind (swallow (c_leave env)) (\<lambda>_. craise e)
           | Inr aclose_ok \<Rightarrow> if aclose_ok then swallow (c_leave env) else creturn ())))"

definition vanish :: "config \<Rightarrow> 's cenv \<Rightarrow> pystr \<Rightarrow> hdict \<Rightarrow> ('s, unit) cwork" where
  "vanish cfg env path headers =
     cbind (draw (c_random env)) (\<lambda>p.
       let slow_first = p < 1 / 2 in
       if IS_H3 cfg then
         h3_vanishing env
           (cbind (c_open_raw env path headers) (\<lambda>q.
             cbind (q_get q) (\<lambda>_.
               cbind (slow_pause env slow_first) (\<lambda>_. drop_udp env))))
       else if url_scheme (BASE cfg) = ustr ''http'' then
         tcp_vanishing cfg env (\<lambda>host port.
           cbind (c_write env (vanish_request path headers host port)) (\<lambda>_.
             cbind (cdo (c_tcp_read env 4096)) (\<lambda>_.
               if slow_first then cbind (slow_pause env True) (\<lambda>_. cdo (c_tcp_read env 4096))
               else creturn ())))
       else h2_vanish cfg env path headers slow_first)"

definition b_vanish :: "config \<Rightarrow> 's cenv \<Rightarrow> ('s, unit) cwork" where
  "b_vanish cfg env = vanish cfg env (ustr ''/download'') []"

section \<open>Targeted behaviours\<close>

definition chaos_text :: "nat \<Rightarrow> pystr" where
  "chaos_text n = ustr ''chaos-'' @ py_str (int n)"

definition b_slowread_ws :: "config \<Rightarrow> 's cenv \<Rightarrow> ('s, unit) cwork" where
  "b_slowread_ws cfg env =
     cbind (draw (c_randint env 8 32)) (\<lambda>burst.
       cbind (draw (c_uniform env 3 10)) (\<lambda>hold.
         if IS_H3 cfg then
           in_session env
             (cbind (cdo (e_ws_open env (ustr ''/ws''))) (\<lambda>_.
               cbind (cseq [0..<nat burst] (\<lambda>n. cdo (e_ws_send env OP_TEXT (py_encode (chaos_text n))))) (\<lambda>_.
                 cbind (csleep hold) (\<lambda>_. cdo (c_ws_close env)))))
         else
           with_websocket cfg env
             (cbind (cseq [0..<nat burst] (\<lambda>n. cdo (e_wst_send env (chaos_text n)))) (\<lambda>_. csleep hold))))"

definition b_abort_ws :: "config \<Rightarrow> 's cenv \<Rightarrow> ('s, unit) cwork" where
  "b_abort_ws cfg env =
     (if IS_H3 cfg then
        in_session env
          (cbind (cdo (e_ws_open env (ustr ''/ws''))) (\<lambda>_.
            cbind (draw (c_randint env 2 8)) (\<lambda>n.
              cbind (cseq [0..<nat n] (\<lambda>_. cdo (e_ws_send env OP_TEXT (bstr ''chaos'')))) (\<lambda>_.
                cbind (cdo (e_ws_recv env)) (\<lambda>_.
                  cbind (cdo (e_ws_send env OP_CLOSE [])) (\<lambda>_. cdo (c_ws_close env)))))))
      else
        with_websocket cfg env
          (cbind (draw (c_randint env 2 8)) (\<lambda>n.
            cbind (cseq [0..<nat n] (\<lambda>_. cdo (e_wst_send env (ustr ''chaos'')))) (\<lambda>_.
              cbind (cdo (e_wst_recv env)) (\<lambda>_. cdo (c_wst_close env 1000))))))"

definition b_vanish_ws :: "config \<Rightarrow> 's cenv \<Rightarrow> ('s, unit) cwork" where
  "b_vanish_ws cfg env =
     (if IS_H3 cfg then
        h3_vanishing env
          (cbind (cdo (e_ws_open env (ustr ''/ws''))) (\<lambda>_.
            cbind (cdo (e_ws_send env OP_TEXT (bstr ''chaos''))) (\<lambda>_.
              cbind (draw (c_uniform env (fl (1 / 10)) 1)) (\<lambda>d.
                cbind (csleep d) (\<lambda>_. drop_udp env)))))
      else
        cbind (ws_connect cfg env) (\<lambda>_.
          cbind connected (\<lambda>_.
            cfinally
              (cbind (draw (c_randint env 1 6)) (\<lambda>n.
                cbind (cseq [0..<nat n] (\<lambda>_. cdo (e_wst_send env (ustr ''chaos'')))) (\<lambda>_.
                  cbind (draw (c_uniform env (fl (1 / 10)) 1)) csleep)))
              (cbind (draw (c_wst_abort env)) (\<lambda>there. if there then tell CWsAbort else creturn ())))))"

definition b_slowread_sse :: "config \<Rightarrow> 's cenv \<Rightarrow> ('s, unit) cwork" where
  "b_slowread_sse cfg env =
     cbind monotonic (\<lambda>t.
       cbind (draw (c_uniform env 5 20)) (\<lambda>b.
         in_session env
           (cbind (c_stream env (ustr ''/sse'') accept_sse) (\<lambda>(items, fin).
             cbind (slow_read env (fadd t b) (1 / 2) 2 items fin) (\<lambda>_. cdo (c_aclose env))))))"

text \<open>\<open>b_idle_sse\<close> and \<open>b_idle_streamdownload\<close>: the stream open, nothing of it read.\<close>

definition idle_stream :: "config \<Rightarrow> 's cenv \<Rightarrow> pystr \<Rightarrow> hdict \<Rightarrow> ('s, unit) cwork" where
  "idle_stream cfg env path hdrs =
     cbind (draw (c_uniform env 10 30)) (\<lambda>hold.
       in_session env
         (if IS_H3 cfg then
            cbind (c_open_raw env path hdrs) (\<lambda>q.
              cbind (q_get q) (\<lambda>_. cbind (csleep hold) (\<lambda>_. cdo (c_abort_stream env))))
          else
            cbind (c_stream env path hdrs) (\<lambda>_.
              cbind (csleep hold) (\<lambda>_. cdo (c_aclose env)))))"

definition b_idle_sse :: "config \<Rightarrow> 's cenv \<Rightarrow> ('s, unit) cwork" where
  "b_idle_sse cfg env = idle_stream cfg env (ustr ''/sse'') accept_sse"

definition bad_ids :: "pystr list" where
  "bad_ids = [ustr ''banana'', ustr ''-1'', ustr ''999999'', []]"

definition b_abort_sse :: "config \<Rightarrow> 's cenv \<Rightarrow> ('s, unit) cwork" where
  "b_abort_sse cfg env =
     cbind (draw (c_choice env (length bad_ids))) (\<lambda>i.
       in_session env
         (cbind (c_stream env (ustr ''/sse'') accept_sse) (\<lambda>(items, fin).
           cbind (draw (c_randint env 1 3)) (\<lambda>want.
             cbind (read_some want 0 items fin) (\<lambda>_.
               cbind (cdo (c_aclose env)) (\<lambda>_.
                 cbind (c_stream env (ustr ''/sse'') (accept_sse @ [(ustr ''last-event-id'', bad_ids ! i)])) (\<lambda>(items, fin).
                   cbind (read_some 1 0 items fin) (\<lambda>_. cdo (c_aclose env)))))))))"

definition b_vanish_sse :: "config \<Rightarrow> 's cenv \<Rightarrow> ('s, unit) cwork" where
  "b_vanish_sse cfg env = vanish cfg env (ustr ''/sse'') accept_sse"

text \<open>\<open>stall_resume\<close>, read to its end: slices of 4 KiB, the stall between head and tail.\<close>

definition slices_from :: "nat \<Rightarrow> nat \<Rightarrow> bytes list" where
  "slices_from i n = map (\<lambda>j. gen_chunk (int j * (4 * 1024)) (4 * 1024)) [i..<i + n]"

definition b_slowwrite_streamupload :: "config \<Rightarrow> 's cenv \<Rightarrow> ('s, unit) cwork" where
  "b_slowwrite_streamupload cfg env =
     cbind (draw (c_uniform env 5 10)) (\<lambda>stall.
       cbind (draw (c_randint env 2 6)) (\<lambda>head.
         cbind (draw (c_randint env 2 6)) (\<lambda>tail.
           in_session env
             (cbind (csleep stall) (\<lambda>_.
               c_upload env (slices_from 0 (nat head) @ slices_from (nat head) (nat tail)))))))"

text \<open>\<open>try: await task / except (Exception, asyncio.CancelledError): pass\<close>\<close>

definition await_cancelled :: "'s cenv \<Rightarrow> ('s, unit) cwork" where
  "await_cancelled env =
     ctry (cdo (c_upload_cancel env)) (\<lambda>e. if is_Exception e \<or> e = CancelledErr then creturn () else craise e)"

definition partial_post :: "pystr option \<Rightarrow> int \<Rightarrow> bytes" where
  "partial_post host port =
     py_encode (ustr ''POST /upload HTTP/1.1'' @ crlf_text @ ustr ''Host: '' @ host_text host @ ustr '':'' @ py_str port @
       crlf_text @ ustr ''x-sha1: '' @ wrong_sha @ crlf_text @ ustr ''content-length: 1048576'' @ crlf_text @ crlf_text) @
     gen_chunk 0 (16 * 1024)"

definition b_vanish_streamupload :: "config \<Rightarrow> 's cenv \<Rightarrow> ('s, unit) cwork" where
  "b_vanish_streamupload cfg env =
     (if IS_H3 cfg then
        cbind (c_enter env) (\<lambda>_.
          cbind connected (\<lambda>_.
            cfinally
              (cbind (tell (CStart (ustr ''/upload'') upload_hdrs)) (\<lambda>_.
                cbind (draw (c_uniform env (1 / 2) 2)) (\<lambda>d. cbind (csleep d) (\<lambda>_. drop_udp env))))
              (cbind (await_cancelled env) (\<lambda>_. swallow (c_leave env)))))
      else if url_scheme (BASE cfg) = ustr ''http'' then
        tcp_vanishing cfg env (\<lambda>host port.
          cbind (c_write env (partial_post host port)) (\<lambda>_.
            cbind (draw (c_uniform env (fl (1 / 5)) 1)) csleep))
      else
        cbind (c_enter env) (\<lambda>_.
          cbind connected (\<lambda>_.
            cbind (tell (CStart (ustr ''/upload'') upload_hdrs)) (\<lambda>_.
              cbind (draw (c_uniform env (1 / 2) 2)) (\<lambda>d.
                cbind (csleep d) (\<lambda>_. await_cancelled env))))))"

definition b_idle_streamdownload :: "config \<Rightarrow> 's cenv \<Rightarrow> ('s, unit) cwork" where
  "b_idle_streamdownload cfg env = idle_stream cfg env (ustr ''/download'') []"

end
