(* ===== verification/Chaos.thy ===== *)
theory Chaos
  imports Chaos_Acts
begin

text \<open>
  The misbehaving sidecar itself, \<open>conformance/stress/client/chaos.py\<close>: which behaviours are
  enabled, the pick pool, the worker that tallies and swallows, the descriptor samples, the
  run with its leak verdict, and the exit codes. The \<open>connects\<close>, \<open>_ok\<close> and \<open>_err\<close> counters are
  the numbers of the corresponding trace entries. The two gathers (the warm-up burst and
  the workers) are coroutine arguments of \<open>run\<close>: they stand for any interleaving of the
  gathered coroutines.
\<close>

section \<open>Behaviours and the pool\<close>

record chaos_config =
  CHAOS :: pystr
  CHAOS_CONC :: int
  SEED :: pystr
  WARMUP_CONC :: int

definition load_chaos :: "environ \<Rightarrow> chaos_config result" where
  "load_chaos env =
     result_bind (py_int (getenv env ''VORTEX_CHAOS_CONC'' ''8'')) (\<lambda>conc.
     result_bind (py_int (getenv env ''VORTEX_CHAOS_WARMUP'' ''64'')) (\<lambda>warm.
       Inr \<lparr>CHAOS = getenv env ''VORTEX_CHAOS'' ''all'', CHAOS_CONC = conc,
            SEED = getenv env ''VORTEX_CHAOS_SEED'' ''1'', WARMUP_CONC = warm\<rparr>))"

definition ALL_STYLES :: "pystr list" where
  "ALL_STYLES = [ustr ''slowread'', ustr ''slowwrite'', ustr ''idle'', ustr ''abort'', ustr ''vanish'']"

text \<open>An unknown name is printed (\<open>repr\<close> is Python's) and exits with 2.\<close>

fun parse_names :: "(pystr \<Rightarrow> pystr) \<Rightarrow> pystr list \<Rightarrow> pystr list \<Rightarrow> pystr list \<times> pystr list await" where
  "parse_names repr [] out = ([], Done out)"
| "parse_names repr (n # names) out =
     (let name = py_strip n in
      if name = [] then parse_names repr names out
      else if name \<notin> set ALL_STYLES then
        ([ustr ''chaos: unknown behavior '' @ repr name @ ustr '' (known: '' @ join_on (ustr '','') ALL_STYLES @ ustr '')''],
         Raised (SystemExit 2))
      else parse_names repr names (if name \<in> set out then out else out @ [name]))"

definition parse_behaviors :: "(pystr \<Rightarrow> pystr) \<Rightarrow> pystr \<Rightarrow> pystr list \<times> pystr list await" where
  "parse_behaviors repr raw =
     (let v = lower (py_strip raw) in
      if v \<in> {[], ustr ''none''} then ([], Done [])
      else if v = ustr ''all'' then ([], Done ALL_STYLES)
      else parse_names repr (split_on 44 v) [])"

type_synonym chaos_key = "pystr \<times> pystr"

definition BEHAVIORS :: "(chaos_key \<times> (config \<Rightarrow> 's cenv \<Rightarrow> ('s, unit) cwork)) list" where
  "BEHAVIORS =
     [((ustr ''slowread'', ustr ''generic''), b_slowread),
      ((ustr ''slowwrite'', ustr ''generic''), b_slowwrite),
      ((ustr ''idle'', ustr ''generic''), b_idle),
      ((ustr ''abort'', ustr ''generic''), b_abort),
      ((ustr ''vanish'', ustr ''generic''), b_vanish),
      ((ustr ''slowread'', ustr ''ws''), b_slowread_ws),
      ((ustr ''abort'', ustr ''ws''), b_abort_ws),
      ((ustr ''vanish'', ustr ''ws''), b_vanish_ws),
      ((ustr ''slowread'', ustr ''sse''), b_slowread_sse),
      ((ustr ''idle'', ustr ''sse''), b_idle_sse),
      ((ustr ''abort'', ustr ''sse''), b_abort_sse),
      ((ustr ''vanish'', ustr ''sse''), b_vanish_sse),
      ((ustr ''slowwrite'', ustr ''streamupload''), b_slowwrite_streamupload),
      ((ustr ''vanish'', ustr ''streamupload''), b_vanish_streamupload),
      ((ustr ''idle'', ustr ''streamdownload''), b_idle_streamdownload)]"

text \<open>The keys of the table, in its order.\<close>

definition behavior_keys :: "chaos_key list" where
  "behavior_keys = map fst (BEHAVIORS :: (chaos_key \<times> (config \<Rightarrow> unit cenv \<Rightarrow> (unit, unit) cwork)) list)"

definition style_entries :: "config \<Rightarrow> pystr \<Rightarrow> chaos_key list" where
  "style_entries cfg style =
     (style, ustr ''generic'') #
     (if WORKLOAD cfg = ustr ''mixed''
      then filter (\<lambda>k. fst k = style \<and> snd k \<noteq> ustr ''generic'') behavior_keys
      else if (style, WORKLOAD cfg) \<in> set behavior_keys then [(style, WORKLOAD cfg)] else [])"

definition build_pool :: "config \<Rightarrow> pystr list \<Rightarrow> chaos_key list" where
  "build_pool cfg enabled = concat (map (style_entries cfg) enabled)"

section \<open>The worker\<close>

definition chaos_turn :: "config \<Rightarrow> 's cenv \<Rightarrow> chaos_key list \<Rightarrow> ('s, unit) cwork" where
  "chaos_turn cfg env pool =
     cbind (draw (c_choice env (length pool))) (\<lambda>i.
       let key = pool ! i in
       cbind
         (ctry
            (cbind (case map_of BEHAVIORS key of Some b \<Rightarrow> b cfg env | None \<Rightarrow> craise (PyErr KeyError)) (\<lambda>_.
               tell (CTally True key)))
            (\<lambda>e. if is_Exception e then tell (CTally False key) else craise e)) (\<lambda>_.
         cbind (draw (c_uniform env 0 (1 / 2))) csleep))"

definition chaos_worker :: "config \<Rightarrow> 's cenv \<Rightarrow> chaos_key list \<Rightarrow> pyfloat \<Rightarrow> ('s, unit) cwork" where
  "chaos_worker cfg env pool deadline = until_deadline deadline (\<lambda>_. chaos_turn cfg env pool) ()"

section \<open>Report lines\<close>

definition fmt_key :: "chaos_key \<Rightarrow> pystr" where
  "fmt_key key =
     (case key of (style, target) \<Rightarrow>
        if target = ustr ''generic'' then style else target @ ustr '':'' @ style)"

definition tally :: "bool \<Rightarrow> chaos_key \<Rightarrow> cev list \<Rightarrow> nat" where
  "tally ok key l = length (filter (\<lambda>e. e = CTally ok key) l)"

definition tally_part :: "bool \<Rightarrow> pystr \<Rightarrow> chaos_key list \<Rightarrow> cev list \<Rightarrow> pystr" where
  "tally_part ok sep pool l =
     (let part = join_on (ustr '' '') (map (\<lambda>k. fmt_key k @ sep @ py_str (int (tally ok k l)))
                   (filter (\<lambda>k. tally ok k l \<noteq> 0) pool))
      in if part = [] then ustr ''-'' else part)"

definition tally_line :: "config \<Rightarrow> chaos_key list \<Rightarrow> pystr \<Rightarrow> cev list \<Rightarrow> pystr" where
  "tally_line cfg pool lead l =
     ustr ''[chaos '' @ PROTO cfg @ ustr ''] '' @ lead @ ustr ''ok: '' @ tally_part True (ustr ''='') pool l @
     ustr '' | err: '' @ tally_part False (ustr ''!'') pool l"

definition elapsed :: "pyfloat \<Rightarrow> pyfloat \<Rightarrow> pystr" where
  "elapsed start now = py_str (py_trunc (fsub now start))"

definition peek :: "(cev list \<Rightarrow> 'a) \<Rightarrow> ('s, 'a) cwork" where
  "peek f w = (Done (f (trace w)), w)"

definition connects :: "cev list \<Rightarrow> nat" where
  "connects l = length (filter (\<lambda>e. e = Connected) l)"

definition chaos_reporter ::
  "config \<Rightarrow> chaos_key list \<Rightarrow> pyfloat \<Rightarrow> pyfloat \<Rightarrow> ('s, unit) cwork" where
  "chaos_reporter cfg pool start deadline =
     until_deadline deadline (\<lambda>_.
       cbind (csleep (fl (of_int (REPORT cfg)))) (\<lambda>_.
         cbind monotonic (\<lambda>t.
           cbind (peek (tally_line cfg pool [])) (\<lambda>line.
             tell (COut (line @ ustr '' | t='' @ elapsed start t @ ustr ''s'')))))) ()"

text \<open>\<open>_watch_task\<close>: what the callback prints when the reporter has ended; \<open>text\<close> gives an
  exception's class name and message.\<close>

definition chaos_watch_task :: "(exn \<Rightarrow> pystr \<times> pystr) \<Rightarrow> pystr \<Rightarrow> unit await \<Rightarrow> pystr list" where
  "chaos_watch_task text name outcome =
     (case outcome of
        Raised e \<Rightarrow>
          if e = CancelledErr then []
          else [ustr ''chaos: WARN '' @ name @ ustr '' task died ('' @ fst (text e) @ ustr ''): '' @ snd (text e)]
      | _ \<Rightarrow> [])"

section \<open>Descriptor samples\<close>

definition stats_fds :: "'s cenv \<Rightarrow> ('s, int option) cwork" where
  "stats_fds env =
     cbind (cdo (e_request env (ustr ''GET'') (ustr ''/stats'') [] [])) (\<lambda>r.
       cbind (of_await (get_server_stats (Done r))) (\<lambda>(rss, heap, fds). creturn fds))"

text \<open>The loop the two samplers share: the field of the first attempt that worked, if any did.\<close>

fun sample_loop :: "'s cenv \<Rightarrow> nat \<Rightarrow> pyfloat \<Rightarrow> ('s, int option option) cwork" where
  "sample_loop env 0 gap = creturn None"
| "sample_loop env (Suc n) gap =
     cbind (csettle (in_session env (stats_fds env))) (\<lambda>r.
       case r of
         Inr fds \<Rightarrow> creturn (Some fds)
       | Inl e \<Rightarrow>
           if is_Exception e then
             cbind (if 0 < n \<and> 0 < gap then csleep gap else creturn ()) (\<lambda>_. sample_loop env n gap)
           else craise e)"

definition sample_fds :: "'s cenv \<Rightarrow> nat \<Rightarrow> pyfloat \<Rightarrow> ('s, int option) cwork" where
  "sample_fds env retries gap =
     cbind (sample_loop env retries gap) (\<lambda>r. creturn (case r of None \<Rightarrow> None | Some fds \<Rightarrow> fds))"

datatype fd_sample = NeverConnected | MISSING_FD | Fds int

definition sample_fds_strict :: "'s cenv \<Rightarrow> nat \<Rightarrow> pyfloat \<Rightarrow> ('s, fd_sample) cwork" where
  "sample_fds_strict env retries gap =
     cbind (sample_loop env retries gap) (\<lambda>r.
       creturn (case r of
           None \<Rightarrow> NeverConnected
         | Some fds \<Rightarrow> (case fds of None \<Rightarrow> MISSING_FD | Some n \<Rightarrow> Fds n)))"

definition SLACK :: int where
  "SLACK = 8"

definition DRAIN :: "config \<Rightarrow> int" where
  "DRAIN cfg = (if PROTO cfg = ustr ''h3'' then 40 else 15)"

definition SETTLE :: int where
  "SETTLE = 60"

definition WATCHDOG :: "config \<Rightarrow> int" where
  "WATCHDOG cfg = SECONDS cfg + DRAIN cfg + 45"

text \<open>
  \<open>settle_fds\<close>: \<open>final > baseline + SLACK\<close> is a \<open>TypeError\<close> when there is a sample but no
  baseline.
\<close>

definition settle_fds :: "'s cenv \<Rightarrow> int option \<Rightarrow> ('s, int option) cwork" where
  "settle_fds env baseline =
     cbind monotonic (\<lambda>t.
       cbind (sample_fds env 5 1) (\<lambda>final.
         case baseline of
           None \<Rightarrow> if final = None then creturn None else craise (PyErr TypeError)
         | Some b \<Rightarrow>
             guarded_until (fadd t (of_int SETTLE)) (\<lambda>f. case f of None \<Rightarrow> False | Some n \<Rightarrow> b + SLACK < n)
               (\<lambda>_. cbind (csleep 1) (\<lambda>_. sample_fds env 5 1)) final))"

text \<open>One connection of the warm-up burst, and the burst run one after the other.\<close>

definition warm_one :: "config \<Rightarrow> 's cenv \<Rightarrow> ('s, unit) cwork" where
  "warm_one cfg env = swallow (abort_download cfg env 2)"

definition warm_baseline :: "config \<Rightarrow> chaos_config \<Rightarrow> 's cenv \<Rightarrow> ('s, unit) cwork" where
  "warm_baseline cfg ch env =
     cbind (cseq [0..<nat (WARMUP_CONC ch)] (\<lambda>_. warm_one cfg env)) (\<lambda>_. csleep 2)"

section \<open>The run\<close>

definition say :: "pystr \<Rightarrow> ('s, unit) cwork" where
  "say line = tell (COut line)"

fun warm_rounds :: "nat \<Rightarrow> ('s, unit) cwork \<Rightarrow> ('s, unit) cwork" where
  "warm_rounds 0 warm = creturn ()"
| "warm_rounds (Suc n) warm =
     cbind warm (\<lambda>_.
       cbind (peek connects) (\<lambda>c.
         if 0 < c then creturn () else cbind (csleep 1) (\<lambda>_. warm_rounds n warm)))"

definition fds_text :: "int option \<Rightarrow> pystr" where
  "fds_text v = (case v of None \<Rightarrow> ustr ''None'' | Some n \<Rightarrow> py_str n)"

definition pool_line :: "config \<Rightarrow> chaos_config \<Rightarrow> pystr list \<Rightarrow> pystr" where
  "pool_line cfg ch enabled =
     ustr ''chaos: behaviors='' @ join_on (ustr '','') enabled @ ustr '' workload='' @ WORKLOAD cfg @
     ustr '' pool='' @ join_on (ustr '','') (map fmt_key (build_pool cfg enabled)) @ ustr '' seed='' @ SEED ch @
     ustr '' conc='' @ py_str (CHAOS_CONC ch) @ ustr '' proto='' @ PROTO cfg"

text \<open>The verdict: after the final sample.\<close>

definition verdict :: "int option \<Rightarrow> pyfloat \<Rightarrow> int option \<Rightarrow> ('s, int) cwork" where
  "verdict baseline start final =
     cbind (peek connects) (\<lambda>c.
       if c = 0 then
         cbind (say (ustr ''chaos: never connected once (no successful transport open); '' @
                     ustr ''check STRESS_BASE / server'')) (\<lambda>_. creturn 4)
       else case final of
         None \<Rightarrow> cbind (say (ustr ''chaos: final fd sample failed (could not reach /stats)'')) (\<lambda>_. creturn 2)
       | Some f \<Rightarrow>
           (case baseline of
              None \<Rightarrow> craise (PyErr TypeError)
            | Some b \<Rightarrow>
                if b + SLACK < f then
                  cbind monotonic (\<lambda>t.
                    cbind (say (ustr ''FAIL chaos: fd leak at t='' @ elapsed start t @ ustr ''s (baseline '' @
                               py_str b @ ustr '', final '' @ py_str f @ ustr '', slack '' @ py_str SLACK @ ustr '')'')) (\<lambda>_.
                      creturn 1))
                else
                  cbind (say (ustr ''== chaos sidecar passed (fds '' @ py_str b @ ustr '' -> '' @ py_str f @
                             ustr '') =='')) (\<lambda>_. creturn 0)))"

text \<open>From the baseline on: the workers (\<open>work start deadline\<close>), the drain, the settle, the verdict.\<close>

definition run_chaos ::
  "config \<Rightarrow> 's cenv \<Rightarrow> chaos_key list \<Rightarrow> (pyfloat \<Rightarrow> pyfloat \<Rightarrow> ('s, unit) cwork) \<Rightarrow> pyfloat \<Rightarrow> int option \<Rightarrow>
   ('s, int) cwork" where
  "run_chaos cfg env pool work launched baseline =
     cbind monotonic (\<lambda>t0.
       cbind (say (ustr ''chaos: baseline fds='' @ fds_text baseline @ ustr '' (prelude '' @
                  elapsed launched t0 @ ustr ''s)'')) (\<lambda>_.
         cbind monotonic (\<lambda>start.
           cbind (csettle (work start (fadd start (fl (of_int (SECONDS cfg)))))) (\<lambda>gathered.
             case gathered of
               Inl e \<Rightarrow>
                 if e = TimeoutErr then
                   cbind (say (ustr ''chaos: self-watchdog tripped ('' @ py_str (WATCHDOG cfg) @
                              ustr ''s); a behavior wedged'')) (\<lambda>_. creturn 3)
                 else craise e
             | Inr _ \<Rightarrow>
                 cbind monotonic (\<lambda>t.
                   cbind (peek (tally_line cfg pool (ustr ''final ''))) (\<lambda>line.
                     cbind (say (line @ ustr '' | t='' @ elapsed start t @ ustr ''s'')) (\<lambda>_.
                       cbind (csleep (of_int (DRAIN cfg))) (\<lambda>_.
                         cbind (settle_fds env baseline) (verdict baseline start)))))))))"

definition run ::
  "config \<Rightarrow> chaos_config \<Rightarrow> 's cenv \<Rightarrow> pystr list \<Rightarrow> ('s, unit) cwork \<Rightarrow>
   (pyfloat \<Rightarrow> pyfloat \<Rightarrow> ('s, unit) cwork) \<Rightarrow> ('s, int) cwork" where
  "run cfg ch env enabled warm work =
     cbind monotonic (\<lambda>launched.
       cbind (say (pool_line cfg ch enabled)) (\<lambda>_.
         cbind (warm_rounds 10 warm) (\<lambda>_.
           cbind (sample_fds_strict env 10 1) (\<lambda>b.
             case b of
               MISSING_FD \<Rightarrow>
                 cbind (say (ustr ''chaos: /stats has no fd field (server too old); cannot leak-check'')) (\<lambda>_. creturn 2)
             | NeverConnected \<Rightarrow> run_chaos cfg env (build_pool cfg enabled) work launched None
             | Fds n \<Rightarrow> run_chaos cfg env (build_pool cfg enabled) work launched (Some n)))))"

text \<open>\<open>text\<close> gives the class name and the message of an exception.\<close>

definition chaos_main ::
  "(exn \<Rightarrow> pystr \<times> pystr) \<Rightarrow> (pystr \<Rightarrow> pystr) \<Rightarrow> config \<Rightarrow> chaos_config \<Rightarrow> 's cenv \<Rightarrow> ('s, unit) cwork \<Rightarrow>
   (pyfloat \<Rightarrow> pyfloat \<Rightarrow> ('s, unit) cwork) \<Rightarrow> ('s, int) cwork" where
  "chaos_main text repr cfg ch env warm work =
     (case parse_behaviors repr (CHAOS ch) of (lines, parsed) \<Rightarrow>
        cbind (cseq lines say) (\<lambda>_.
          cbind (of_await parsed) (\<lambda>enabled.
            if enabled = [] then
              cbind (say (ustr ''chaos: nothing to do (VORTEX_CHAOS=none)'')) (\<lambda>_. creturn 0)
            else
              ctry (run cfg ch env enabled warm work) (\<lambda>e.
                case e of
                  SystemExit n \<Rightarrow> craise e
                | KeyboardInterrupt \<Rightarrow> craise e
                | _ \<Rightarrow> cbind (say (ustr ''chaos: internal error ('' @ fst (text e) @ ustr ''): '' @ snd (text e)))
                        (\<lambda>_. creturn 2)))))"

end
