(* ===== verification/Chaos_Props.thy ===== *)
theory Chaos_Props
  imports Chaos
begin

text \<open>
  Properties of the misbehaving sidecar: its pool holds known behaviours only, a worker
  outlives every error a behaviour raises, behaviours leave what they opened, and the exit
  codes mean what they say.
\<close>

section \<open>What is opened and what is left\<close>

definition cnt :: "cev \<Rightarrow> cev list \<Rightarrow> int" where
  "cnt e l = int (length (filter (\<lambda>x. x = e) l))"

lemma cnt_simps [simp]: "cnt e [] = 0" "cnt e (l @ l') = cnt e l + cnt e l'" "cnt e (x # l) = (if x = e then 1 else 0) + cnt e l"
  by (simp_all add: cnt_def)

definition sess :: "cev list \<Rightarrow> int" where "sess l = cnt COpen l - cnt CLeave l"

definition socks :: "cev list \<Rightarrow> int" where "socks l = cnt CTcpOpen l - cnt CTcpClose l"

definition tunnels :: "cev list \<Rightarrow> int" where "tunnels l = cnt CWsOpen l - cnt CWsLeave l"

definition uncounted :: "cev list \<Rightarrow> int" where
  "uncounted l = cnt COpen l + cnt CTcpOpen l + cnt CWsOpen l - cnt Connected l"

lemmas balance_defs = sess_def socks_def tunnels_def uncounted_def

text \<open>Every transport opened is counted; when the behaviour ends, none is left open.\<close>

definition tidy_post :: "'a await \<Rightarrow> cev list \<Rightarrow> bool" where
  "tidy_post r l \<longleftrightarrow> uncounted l = 0 \<and> (r = Waiting \<or> sess l = 0 \<and> socks l = 0 \<and> tunnels l = 0)"

abbreviation tidy :: "('s, 'a) cwork \<Rightarrow> bool" where
  "tidy m \<equiv> runs m tidy_post"

text \<open>Nothing opened, nothing left.\<close>

fun plain :: "cev \<Rightarrow> bool" where
  "plain COpen = False" | "plain CLeave = False" | "plain CTcpOpen = False" | "plain CTcpClose = False"
| "plain CWsOpen = False" | "plain CWsLeave = False" | "plain Connected = False" | "plain e = True"

lemma plain_cnt:
  assumes "list_all plain l"
  shows "cnt COpen l = 0" "cnt CLeave l = 0" "cnt CTcpOpen l = 0" "cnt CTcpClose l = 0" "cnt CWsOpen l = 0"
    "cnt CWsLeave l = 0" "cnt Connected l = 0"
  using assms by (induction l) auto

abbreviation calm :: "('s, 'a) cwork \<Rightarrow> bool" where
  "calm m \<equiv> adds m (list_all plain)"

lemma calm_closed [simp]: "trace_closed (list_all plain)"
  by (simp add: trace_closed_def)

named_theorems chaos_intro \<open>rules for what a behaviour opens and leaves\<close>

lemmas calm_rules [chaos_intro] =
  adds_cbind [OF calm_closed] adds_ctry [OF calm_closed] adds_cwith [OF calm_closed] adds_cseq [OF calm_closed]
  adds_until_deadline [OF calm_closed] adds_basic [OF calm_closed] adds_csettle [OF calm_closed]
  adds_swallow [OF calm_closed] adds_cfinally [OF calm_closed]

lemma calm_tell [chaos_intro]: "plain e \<Longrightarrow> calm (tell e)"
  by (rule adds_tell) simp

lemma calm_ccall [chaos_intro]: "(\<And>a. list_all plain (note a)) \<Longrightarrow> calm (ccall f note)"
  by (rule runs_ccall) auto

lemma calm_tidy: "calm m \<Longrightarrow> tidy m"
  by (erule runs_mono) (simp add: tidy_post_def balance_defs plain_cnt)

lemma tidy_cbind: "tidy m \<Longrightarrow> (\<And>a. tidy (f a)) \<Longrightarrow> tidy (cbind m f)"
  by (rule runs_cbind [where Q = tidy_post and R = "\<lambda>_. tidy_post"]) (auto simp: tidy_post_def balance_defs)

lemma tidy_ctry: "tidy m \<Longrightarrow> (\<And>e. tidy (h e)) \<Longrightarrow> tidy (ctry m h)"
  by (rule runs_ctry [where Q = tidy_post and R = "\<lambda>_. tidy_post"]) (auto simp: tidy_post_def balance_defs)

lemma runs_noted: "runs m P \<Longrightarrow> runs (cbind (tell e) (\<lambda>_. m)) (\<lambda>r l. \<exists>l'. l = e # l' \<and> P r l')"
  by (rule runs_cbind [where Q = "\<lambda>r l. l = [e] \<and> r = Done ()" and R = "\<lambda>_. P"]) (auto intro: runs_tell)

lemma runs_quiet_call: "runs (ccall f (\<lambda>_. [])) (\<lambda>r l. l = [])"
  by (rule runs_ccall) simp_all

lemma runs_open: "runs (ccall f (\<lambda>_. [e])) (\<lambda>r l. l = (case r of Done _ \<Rightarrow> [e] | _ \<Rightarrow> []))"
  by (rule runs_ccall) simp_all

text \<open>A transport opened, counted, used and left.\<close>

lemma tidy_cwith:
  assumes "tidy body" and "(op, cl) \<in> {(COpen, CLeave), (CWsOpen, CWsLeave)}"
  shows "tidy (cwith (ccall f (\<lambda>_. [op])) (cbind (tell cl) (\<lambda>_. ccall g (\<lambda>_. []))) (cbind (tell Connected) (\<lambda>_. body)))"
  by (rule runs_cwith [OF runs_open runs_noted [OF assms(1)] runs_noted [OF runs_quiet_call]])
    (use assms(2) in \<open>auto simp: tidy_post_def balance_defs\<close>)

lemma tidy_in_session: "tidy body \<Longrightarrow> tidy (in_session env body)"
  unfolding in_session_def c_enter_def c_leave_def connected_def cdo_def by (rule tidy_cwith) simp_all

lemma tidy_with_websocket: "tidy body \<Longrightarrow> tidy (with_websocket cfg env body)"
  unfolding with_websocket_def ws_connect_def connected_def cdo_def case_prod_unfold by (rule tidy_cwith) simp_all

section \<open>Vanishing\<close>

definition balanced :: "cev list \<Rightarrow> bool" where
  "balanced l \<longleftrightarrow> sess l = 0 \<and> socks l = 0 \<and> tunnels l = 0"

text \<open>Balanced when it returns or raises an \<open>Exception\<close>; an interrupt may cut the cleanup short.\<close>

definition ended_post :: "'a await \<Rightarrow> cev list \<Rightarrow> bool" where
  "ended_post r l \<longleftrightarrow> uncounted l = 0 \<and>
     (case r of Done _ \<Rightarrow> balanced l | Raised e \<Rightarrow> is_Exception e \<longrightarrow> balanced l | Waiting \<Rightarrow> True)"

text \<open>At most one transport is left to the garbage collector.\<close>

definition loose_post :: "'a await \<Rightarrow> cev list \<Rightarrow> bool" where
  "loose_post r l \<longleftrightarrow> uncounted l = 0 \<and> 0 \<le> sess l \<and> 0 \<le> tunnels l \<and> 0 \<le> socks l \<and> sess l + tunnels l + socks l \<le> 1"

lemma tidy_ended: "tidy m \<Longrightarrow> runs m ended_post"
  by (erule runs_mono) (auto simp: tidy_post_def ended_post_def balanced_def split: await.split)

fun cut_short :: "'a await \<Rightarrow> bool" where
  "cut_short (Done a) \<longleftrightarrow> False"
| "cut_short (Raised e) \<longleftrightarrow> \<not> is_Exception e"
| "cut_short Waiting \<longleftrightarrow> True"

text \<open>The change of the three balances; \<open>moves d\<close> leaves no transport uncounted.\<close>

definition moves :: "int \<times> int \<times> int \<Rightarrow> cev list \<Rightarrow> bool" where
  "moves d l \<longleftrightarrow> uncounted l = 0 \<and> d = (sess l, socks l, tunnels l)"

lemma moves_plain: "list_all plain l \<Longrightarrow> moves (0, 0, 0) l"
  by (simp add: moves_def balance_defs plain_cnt)

lemma moves_append: "moves (a, b, c) l \<Longrightarrow> moves (a', b', c') l' \<Longrightarrow> moves (a + a', b + b', c + c') (l @ l')"
  by (simp add: moves_def balance_defs)

lemma ended_moves: "runs m (\<lambda>r l. uncounted l = 0 \<and> (cut_short r \<or> moves (0, 0, 0) l)) \<Longrightarrow> runs m ended_post"
  by (erule runs_mono) (auto simp: ended_post_def moves_def balanced_def split: await.split)

text \<open>A cleanup that ends one transport, unless an interrupt cuts it short.\<close>

abbreviation closes :: "int \<times> int \<times> int \<Rightarrow> 'a await \<Rightarrow> cev list \<Rightarrow> bool" where
  "closes d r l \<equiv> uncounted l = 0 \<and> (cut_short r \<or> moves d l)"

lemma closes_swallow:
  assumes "moves d [cl]"
  shows "runs (swallow (cbind (tell cl) (\<lambda>_. ccall g (\<lambda>_. [])))) (closes d)"
proof -
  have "uncounted [cl] = 0" using assms by (simp add: moves_def)
  then show ?thesis unfolding swallow_def using assms
    by (intro runs_ctry [where R = "\<lambda>_ _ l. l = []", OF runs_noted [OF runs_quiet_call]])
      (auto intro!: runs_creturn runs_craise)
qed

lemma vanish_frame:
  assumes "calm body" and "runs fin (closes (- a, - b, 0))" and "(op, a, b) \<in> {(COpen, 1, 0), (CTcpOpen, 0, 1)}"
  shows "runs (cbind (ccall f (\<lambda>_. [op])) (\<lambda>_. cbind connected (\<lambda>_. cfinally body fin))) ended_post"
proof -
  have body: "runs body (\<lambda>_ l. moves (0, 0, 0) l)" by (rule runs_mono [OF assms(1)]) (rule moves_plain)
  have "runs (cfinally body fin) (closes (- a, - b, 0))"
    unfolding cfinally_def
    by (rule runs_cwith [where E = "\<lambda>r l. r = Done () \<and> l = []", OF _ body assms(2)])
      (auto simp: moves_def balance_defs intro: runs_creturn)
  note used = runs_noted [OF this, of Connected]
  show ?thesis unfolding connected_def
    by (rule ended_moves, rule runs_cbind [where R = "\<lambda>_ r l. \<exists>l'. l = Connected # l' \<and> closes (- a, - b, 0) r l'", OF runs_open], rule used)
      (use assms(3) in \<open>auto simp: moves_def balance_defs\<close>)
qed

lemma h3_vanishing_ended: "calm body \<Longrightarrow> runs (h3_vanishing env body) ended_post"
  unfolding h3_vanishing_def c_enter_def c_leave_def cdo_def
  by (rule vanish_frame [where a = 1 and b = 0, OF _ closes_swallow]) (simp_all add: moves_def balance_defs)

lemma calm_linger: "calm (set_linger env)"
  unfolding set_linger_def by (intro chaos_intro) simp

lemma tcp_vanishing_ended: "(\<And>h p. calm (talk h p)) \<Longrightarrow> runs (tcp_vanishing cfg env talk) ended_post"
proof -
  assume talk: "\<And>h p. calm (talk h p)"
  have "calm (cbind (talk h p) (\<lambda>_. cbind (draw (c_socket env)) (\<lambda>sock. if sock then set_linger env else creturn ())))" for h p
    by (auto intro!: chaos_intro talk calm_linger)
  note frame = vanish_frame [where a = 0 and b = 1, OF this closes_swallow]
  show ?thesis unfolding tcp_vanishing_def cdo_def
    by (rule runs_cbind [where Q = "\<lambda>r l. l = []" and R = "\<lambda>_. ended_post"])
      (auto intro!: runs_of_await frame simp: moves_def balance_defs ended_post_def balanced_def)
qed

section \<open>The catalog\<close>

lemma calm_doors [chaos_intro]:
  "calm (cdo f)" "calm (csleep d)" "calm (c_stream env path hdrs)" "calm (c_open_raw env path hdrs)"
  "calm (q_get q)" "calm (c_upload env chunks)" "calm (slow_pause env slow)" "calm (drop_udp env)"
  "calm (c_write env bs)" "calm (await_cancelled env)" "calm (drip env dl)"
  unfolding cdo_def csleep_def c_stream_def c_open_raw_def q_get_def c_upload_def slow_pause_def drop_udp_def
    c_write_def await_cancelled_def drip_def
  by (auto intro!: chaos_intro split: list.split prod.split)

lemma calm_slow_read [chaos_intro]: "calm (slow_read env dl lo hi items fin)"
  by (induction env dl lo hi items fin rule: slow_read.induct) (auto intro!: chaos_intro)

lemma calm_raw_read [chaos_intro]: "calm (raw_read want n q)"
  by (induction want n q rule: raw_read.induct) (auto intro!: chaos_intro split: qitem.split)

lemma calm_read_some [chaos_intro]: "calm (read_some want n items fin)"
  by (induction want n items fin rule: read_some.induct) (auto intro!: chaos_intro)

lemma calm_raw_some [chaos_intro]: "calm (raw_some env n cs fin)"
  by (induction env n cs fin rule: raw_some.induct) (auto intro!: chaos_intro)

lemma tidy_draw: "(\<And>a. tidy (k a)) \<Longrightarrow> tidy (cbind (draw f) k)"
  by (rule tidy_cbind [OF calm_tidy]) (intro chaos_intro)

lemma tidy_clock: "(\<And>a. tidy (k a)) \<Longrightarrow> tidy (cbind monotonic k)"
  by (rule tidy_cbind [OF calm_tidy]) (intro chaos_intro)

lemmas tidy_intro = tidy_draw tidy_clock tidy_in_session [OF calm_tidy] tidy_with_websocket [OF calm_tidy]

lemma tidy_behaviours:
  "tidy (b_slowread cfg env)" "tidy (b_slowwrite cfg env)" "tidy (b_idle cfg env)"
  "tidy (b_abort cfg env)" "tidy (b_slowread_ws cfg env)" "tidy (b_abort_ws cfg env)"
  "tidy (b_slowread_sse cfg env)" "tidy (b_idle_sse cfg env)" "tidy (b_abort_sse cfg env)"
  "tidy (b_slowwrite_streamupload cfg env)" "tidy (b_idle_streamdownload cfg env)"
  unfolding b_slowread_def b_slowwrite_def b_idle_def b_abort_def b_slowread_ws_def b_abort_ws_def b_slowread_sse_def
    b_idle_sse_def b_abort_sse_def b_slowwrite_streamupload_def b_idle_streamdownload_def idle_stream_def
    abort_download_def Let_def
  by (auto intro!: tidy_intro chaos_intro split: prod.split)

lemma opened_loose:
  assumes "runs body (\<lambda>r l. moves (0, 0, 0) l \<or> moves (- a, 0, - c) l)"
    and "(op, a, c) \<in> {(COpen, 1, 0), (CWsOpen, 0, 1)}"
  shows "runs (cbind (ccall f (\<lambda>_. [op])) (\<lambda>_. cbind connected (\<lambda>_. body))) loose_post"
  unfolding connected_def
  by (rule runs_cbind [where R = "\<lambda>_ r l. \<exists>l'. l = Connected # l' \<and> (moves (0, 0, 0) l' \<or> moves (- a, 0, - c) l')", OF runs_open],
      rule runs_noted [OF assms(1)])
    (use assms(2) in \<open>auto simp: moves_def balance_defs loose_post_def\<close>)

lemma calm_moves: "calm m \<Longrightarrow> runs m (\<lambda>r l. moves (0, 0, 0) l \<or> moves d l)"
  by (erule runs_mono) (simp add: moves_plain)

lemma leave_moves: "runs (swallow (c_leave env)) (\<lambda>r l. moves (- 1, 0, 0) l)"
  unfolding c_leave_def cdo_def swallow_def
  by (rule runs_ctry [where R = "\<lambda>_ _ l. l = []", OF runs_noted [OF runs_quiet_call]])
    (auto intro!: runs_creturn runs_craise simp: moves_def balance_defs)

lemma h2_vanish_loose: "runs (h2_vanish cfg env path headers slow) loose_post"
proof -
  have t: "calm (csettle (h2_vanish_try cfg env path headers slow))"
    unfolding h2_vanish_try_def by (auto intro!: chaos_intro calm_linger split: prod.split)
  let ?P = "\<lambda>r l. moves (0, 0, 0) l \<or> moves (- 1, 0, - 0) l"
  have raise: "runs (cbind (swallow (c_leave env)) (\<lambda>_. craise e)) ?P" for e
    by (rule runs_cbind [where R = "\<lambda>_ _ l. l = []", OF leave_moves]) (auto intro: runs_craise)
  have stop: "runs (creturn ()) ?P" by (rule runs_creturn) (simp add: moves_plain)
  have leave: "runs (swallow (c_leave env)) ?P" by (rule runs_mono [OF leave_moves]) simp
  have fin: "runs (case b of Inl e \<Rightarrow> cbind (swallow (c_leave env)) (\<lambda>_. craise e)
      | Inr ok \<Rightarrow> if ok then swallow (c_leave env) else creturn ()) ?P" for b
    using raise stop leave by (auto split: sum.split)
  show ?thesis unfolding h2_vanish_def c_enter_def
  proof (rule opened_loose [where a = 1 and c = 0])
    show "runs (cbind (csettle (h2_vanish_try cfg env path headers slow)) (\<lambda>b. case b of
        Inl e \<Rightarrow> cbind (swallow (c_leave env)) (\<lambda>_. craise e)
      | Inr ok \<Rightarrow> if ok then swallow (c_leave env) else creturn ())) ?P"
      by (rule runs_cbind [where R = "\<lambda>_. ?P", OF t fin]) (use moves_append [OF moves_plain] moves_plain in auto)
  qed simp
qed

text \<open>What a behaviour may leave behind.\<close>

definition left_behind :: "config \<Rightarrow> chaos_key \<Rightarrow> unit await \<Rightarrow> cev list \<Rightarrow> bool" where
  "left_behind cfg key =
     (if fst key = ustr ''vanish'' \<and> \<not> IS_H3 cfg \<and> (snd key = ustr ''ws'' \<or> url_scheme (BASE cfg) \<noteq> ustr ''http'')
      then loose_post else ended_post)"

lemma ended_draw: "(\<And>a. runs (k a) ended_post) \<Longrightarrow> runs (cbind (draw f) k) ended_post"
  unfolding draw_def
  by (rule runs_cbind [where Q = "\<lambda>_ l. l = []" and R = "\<lambda>_. ended_post"])
    (auto intro!: runs_ccall simp: ended_post_def balanced_def balance_defs)

lemma loose_draw: "(\<And>a. runs (k a) loose_post) \<Longrightarrow> runs (cbind (draw f) k) loose_post"
  unfolding draw_def
  by (rule runs_cbind [where Q = "\<lambda>_ l. l = []" and R = "\<lambda>_. loose_post"])
    (auto intro!: runs_ccall simp: loose_post_def balance_defs)

lemma vanish_left:
  "IS_H3 cfg \<or> url_scheme (BASE cfg) = ustr ''http'' \<Longrightarrow> runs (vanish cfg env path headers) ended_post"
  "\<not> IS_H3 cfg \<Longrightarrow> url_scheme (BASE cfg) \<noteq> ustr ''http'' \<Longrightarrow> runs (vanish cfg env path headers) loose_post"
  unfolding vanish_def Let_def
  by (rule ended_draw, auto intro!: h3_vanishing_ended tcp_vanishing_ended chaos_intro)
    (rule loose_draw, simp add: h2_vanish_loose)

lemma vanish_ws_left:
  "IS_H3 cfg \<Longrightarrow> runs (b_vanish_ws cfg env) ended_post" "\<not> IS_H3 cfg \<Longrightarrow> runs (b_vanish_ws cfg env) loose_post"
  unfolding b_vanish_ws_def ws_connect_def case_prod_unfold
  by (auto intro!: h3_vanishing_ended chaos_intro opened_loose [where a = 0 and c = 1] calm_moves)

lemma vanish_streamupload_left:
  "IS_H3 cfg \<or> url_scheme (BASE cfg) = ustr ''http'' \<Longrightarrow> runs (b_vanish_streamupload cfg env) ended_post"
  "\<not> IS_H3 cfg \<Longrightarrow> url_scheme (BASE cfg) \<noteq> ustr ''http'' \<Longrightarrow> runs (b_vanish_streamupload cfg env) loose_post"
proof -
  have fin: "runs (cbind (await_cancelled env) (\<lambda>_. swallow (c_leave env))) (closes (- 1, - 0, 0))"
  proof (rule runs_cbind [where Q = "\<lambda>r l. l = [] \<and> (\<forall>e. r = Raised e \<longrightarrow> \<not> is_Exception e)" and R = "\<lambda>_ _. moves (- 1, 0, 0)"])
    show "runs (await_cancelled env) (\<lambda>r l. l = [] \<and> (\<forall>e. r = Raised e \<longrightarrow> \<not> is_Exception e))"
      unfolding await_cancelled_def cdo_def
      by (rule runs_ctry [where Q = "\<lambda>_ l. l = []" and R = "\<lambda>e r l. l = [] \<and> (\<forall>e. r = Raised e \<longrightarrow> \<not> is_Exception e)"])
        (auto intro!: runs_quiet_call runs_creturn runs_craise)
  qed (auto intro: leave_moves simp: moves_def balance_defs)
  show "IS_H3 cfg \<or> url_scheme (BASE cfg) = ustr ''http'' \<Longrightarrow> runs (b_vanish_streamupload cfg env) ended_post"
    unfolding b_vanish_streamupload_def c_enter_def
    by (auto intro!: tcp_vanishing_ended chaos_intro vanish_frame [OF _ fin])
  show "\<not> IS_H3 cfg \<Longrightarrow> url_scheme (BASE cfg) \<noteq> ustr ''http'' \<Longrightarrow> runs (b_vanish_streamupload cfg env) loose_post"
    unfolding b_vanish_streamupload_def c_enter_def
    by (auto intro!: opened_loose [where a = 1 and c = 0] calm_moves chaos_intro)
qed

text \<open>C8: behaviours clean up after themselves. For every entry of the catalog, every server and every
  network: each transport that opened was counted in \<open>connects\<close>, so the ``never connected'' verdict cannot miss one;
  and when the behaviour returns or raises an error, every session, socket and tunnel it opened has been left. Only a
  vanishing client over TLS or over a TCP WebSocket leaves a transport behind, and at most one.\<close>

theorem behaviours_leave_what_they_open:
  "list_all (\<lambda>(key, behaviour). runs (behaviour cfg env) (left_behind cfg key)) BEHAVIORS"
proof -
  have v: "runs (b_vanish cfg env) (left_behind cfg (ustr ''vanish'', ustr ''generic''))"
    "runs (b_vanish_sse cfg env) (left_behind cfg (ustr ''vanish'', ustr ''sse''))"
    "runs (b_vanish_streamupload cfg env) (left_behind cfg (ustr ''vanish'', ustr ''streamupload''))"
    "runs (b_vanish_ws cfg env) (left_behind cfg (ustr ''vanish'', ustr ''ws''))"
    using vanish_left [of cfg env] vanish_streamupload_left [of cfg env] vanish_ws_left [of cfg env]
    by (auto simp: left_behind_def b_vanish_def b_vanish_sse_def)
  then show ?thesis
    by (simp add: BEHAVIORS_def) (simp add: left_behind_def tidy_ended tidy_behaviours)
qed

section \<open>The pool and the worker\<close>

lemma parse_names_known:
  "set out \<subseteq> set ALL_STYLES \<Longrightarrow> distinct out \<Longrightarrow>
   (case snd (parse_names repr names out) of
      Done enabled \<Rightarrow> distinct enabled \<and> set enabled \<subseteq> set ALL_STYLES
    | Raised e \<Rightarrow> e = SystemExit 2
    | Waiting \<Rightarrow> False)"
  by (induction repr names out rule: parse_names.induct) (auto simp: Let_def)

lemma parse_behaviors_known:
  "case snd (parse_behaviors repr raw) of
      Done enabled \<Rightarrow> distinct enabled \<and> set enabled \<subseteq> set ALL_STYLES
    | Raised e \<Rightarrow> e = SystemExit 2
    | Waiting \<Rightarrow> False"
  using parse_names_known [of "[]" repr "split_on 44 (lower (py_strip raw))"]
  by (simp add: parse_behaviors_def Let_def) (simp add: ALL_STYLES_def)

lemma generic_known: "style \<in> set ALL_STYLES \<Longrightarrow> (style, ustr ''generic'') \<in> set behavior_keys"
  by (auto simp: ALL_STYLES_def behavior_keys_def BEHAVIORS_def)

lemma build_pool_known: "set enabled \<subseteq> set ALL_STYLES \<Longrightarrow> set (build_pool cfg enabled) \<subseteq> set behavior_keys"
  using generic_known by (fastforce simp: build_pool_def style_entries_def split: if_splits)

lemma build_pool_empty: "build_pool cfg enabled = [] \<longleftrightarrow> enabled = []"
  by (cases enabled) (simp_all add: build_pool_def style_entries_def)

lemma known_behaviour: "k \<in> set behavior_keys \<Longrightarrow> map_of BEHAVIORS k \<noteq> None"
  by (auto simp: behavior_keys_def BEHAVIORS_def)

text \<open>The pool is never wrong. Whatever \<open>VORTEX_CHAOS\<close> says, it either exits with 2 or enables distinct known styles;
  then every entry of the pool is in the catalog, so no pick is a \<open>KeyError\<close>, and the pool is empty only when
  nothing is enabled. In a mixed cell with everything enabled the pool is the whole catalog, each behaviour once.\<close>

theorem chaos_pool_is_known:
  "(case snd (parse_behaviors repr raw) of
      Done enabled \<Rightarrow> distinct enabled \<and> set enabled \<subseteq> set ALL_STYLES \<and>
        list_all (\<lambda>key. map_of (BEHAVIORS :: (chaos_key \<times> (config \<Rightarrow> 's cenv \<Rightarrow> ('s, unit) cwork)) list) key \<noteq> None)
          (build_pool cfg enabled) \<and>
        (build_pool cfg enabled = [] \<longleftrightarrow> enabled = [])
    | Raised e \<Rightarrow> e = SystemExit 2
    | Waiting \<Rightarrow> False) \<and>
   distinct (build_pool (cfg\<lparr>WORKLOAD := ustr ''mixed''\<rparr>) ALL_STYLES) \<and>
   set (build_pool (cfg\<lparr>WORKLOAD := ustr ''mixed''\<rparr>) ALL_STYLES) = set behavior_keys"
proof (intro conjI)
  show "case snd (parse_behaviors repr raw) of
      Done enabled \<Rightarrow> distinct enabled \<and> set enabled \<subseteq> set ALL_STYLES \<and>
        list_all (\<lambda>key. map_of (BEHAVIORS :: (chaos_key \<times> (config \<Rightarrow> 's cenv \<Rightarrow> ('s, unit) cwork)) list) key \<noteq> None)
          (build_pool cfg enabled) \<and>
        (build_pool cfg enabled = [] \<longleftrightarrow> enabled = [])
    | Raised e \<Rightarrow> e = SystemExit 2
    | Waiting \<Rightarrow> False"
    using parse_behaviors_known [of repr raw] build_pool_known [of _ cfg] known_behaviour
    by (auto simp: build_pool_empty list_all_iff split: await.splits) blast
qed (simp_all add: build_pool_def style_entries_def ALL_STYLES_def behavior_keys_def BEHAVIORS_def, auto)

lemma until_fuel_raises:
  assumes "\<And>k w e w'. body k w = (Raised e, w') \<Longrightarrow> E e"
  shows "until_fuel n dl g body k w = (Raised e, w') \<Longrightarrow> E e"
proof (induction n arbitrary: k w)
  case (Suc n)
  then show ?case
    using assms by (auto simp: until_fuel_step cbind_def split: if_splits list.splits prod.splits await.splits)
qed (simp add: until_fuel.simps)

lemma chaos_turn_raises: "chaos_turn cfg env pool w = (Raised e, w') \<Longrightarrow> \<not> is_Exception e"
  by (auto simp: chaos_turn_def Let_def cbind_def ctry_def draw_def ccall_def tell_def csleep_def craise_def
      split: prod.splits await.splits if_splits)

text \<open>C20: a worker outlives its behaviours. Whatever a behaviour raises, if it is an \<open>Exception\<close> the worker tallies it and
  goes on; only an interrupt or a cancellation ends a worker before its deadline.\<close>

theorem chaos_worker_swallows_exceptions:
  "case fst (chaos_worker cfg env pool deadline w) of Raised e \<Rightarrow> \<not> is_Exception e | _ \<Rightarrow> True"
proof -
  obtain r w' where c: "chaos_worker cfg env pool deadline w = (r, w')" by fastforce
  have "\<not> is_Exception e" if "r = Raised e" for e
  proof (rule until_fuel_raises [where E = "\<lambda>e. \<not> is_Exception e"])
    show "until_fuel (Suc (length (clk w))) deadline (\<lambda>_. True) (\<lambda>_. chaos_turn cfg env pool) () w = (Raised e, w')"
      using c that by (simp add: chaos_worker_def until_deadline_def guarded_until_def)
  qed (rule chaos_turn_raises)
  then show ?thesis by (simp add: c split: await.split)
qed

section \<open>The exit codes\<close>

definition passed_line :: "int \<Rightarrow> int \<Rightarrow> pystr" where
  "passed_line b f = ustr ''== chaos sidecar passed (fds '' @ py_str b @ ustr '' -> '' @ py_str f @ ustr '') ==''"

text \<open>What a returned code says of the descriptor samples (\<open>b\<close> the baseline, \<open>f\<close> the last one) and of the run.\<close>

definition exit_means :: "int option \<Rightarrow> int \<Rightarrow> cev list \<Rightarrow> bool" where
  "exit_means baseline n t \<longleftrightarrow>
     (if n = 0 then \<exists>b f. baseline = Some b \<and> f \<le> b + SLACK \<and> 0 < connects t \<and> last t = COut (passed_line b f)
      else if n = 1 then \<exists>b f. baseline = Some b \<and> b + SLACK < f \<and> 0 < connects t
      else if n = 4 then connects t = 0
      else n = 2 \<or> n = 3)"

definition exit_post :: "int option \<Rightarrow> int await \<Rightarrow> cev list \<Rightarrow> bool" where
  "exit_post baseline r t \<longleftrightarrow> (case r of Done n \<Rightarrow> exit_means baseline n t | _ \<Rightarrow> True)"

lemma connects_out [simp]: "connects (t @ [COut line]) = connects t"
  by (simp add: connects_def)

lemma hoare_any: "hoare P m (\<lambda>_ _. True)"
  by (simp add: hoare_def split: prod.split)

lemma hoare_peek: "(\<And>t. P t \<Longrightarrow> Q (Done (f t)) t) \<Longrightarrow> hoare P (peek f) Q"
  by (simp add: hoare_def peek_def)

text \<open>Whatever comes before, only the last step decides.\<close>

lemma exit_cbind: "(\<And>a. hoare (\<lambda>_. True) (f a) (exit_post b)) \<Longrightarrow> hoare (\<lambda>_. True) (cbind m f) (exit_post b)"
  by (rule hoare_cbind [where R = "\<lambda>_ _. True", OF hoare_any]) (auto simp: exit_post_def)

lemma hoare_say_return:
  "(\<And>t. P t \<Longrightarrow> Q (Done n) (t @ [COut line])) \<Longrightarrow> hoare P (cbind (say line) (\<lambda>_. creturn n)) Q"
  unfolding say_def
  by (rule hoare_cbind [where R = "\<lambda>r t. r = Done () \<and> Q (Done n) t"]) (auto intro!: hoare_tell hoare_creturn)

lemma exit_say_return:
  "(\<And>t. P t \<Longrightarrow> exit_means b n (t @ [COut line])) \<Longrightarrow> hoare P (cbind (say line) (\<lambda>_. creturn n)) (exit_post b)"
  by (rule hoare_say_return) (simp add: exit_post_def)

lemma exit_craise: "hoare P (craise e) (exit_post b)"
  by (rule hoare_craise) (simp add: exit_post_def)

lemma verdict_exit: "hoare (\<lambda>_. True) (verdict baseline start final) (exit_post baseline)"
proof -
  let ?k = "\<lambda>c. if c = 0 then
         cbind (say (ustr ''chaos: never connected once (no successful transport open); '' @
                     ustr ''check STRESS_BASE / server'')) (\<lambda>_. creturn 4)
       else case final of
         None \<Rightarrow> cbind (say (ustr ''chaos: final fd sample failed (could not reach /stats)'')) (\<lambda>_. creturn 2)
       | Some f \<Rightarrow>
           (case baseline of
              None \<Rightarrow> craise (PyErr TypeError)
            | Some b \<Rightarrow>
                if b + SLACK < f then
                  cbind monotonic (\<lambda>t.
                    cbind (say (ustr ''FAIL chaos: fd leak at t='' @ elapsed start t @ ustr ''s (baseline '' @
                               py_str b @ ustr '', final '' @ py_str f @ ustr '', slack '' @ py_str SLACK @ ustr '')'')) (\<lambda>_.
                      creturn 1))
                else
                  cbind (say (ustr ''== chaos sidecar passed (fds '' @ py_str b @ ustr '' -> '' @ py_str f @
                             ustr '') =='')) (\<lambda>_. creturn 0))"
  have k: "hoare (\<lambda>t. connects t = c) (?k c) (exit_post baseline)" for c
    by (auto intro!: exit_say_return exit_craise hoare_cbind [where R = "\<lambda>_ t. connects t = c" and m = monotonic] keeps_basic
        simp: exit_means_def passed_line_def exit_post_def [of _ "Raised _"] exit_post_def [of _ Waiting] split: option.split)
      (auto simp: not_less)
  show ?thesis unfolding verdict_def
    by (rule hoare_cbind [where R = "\<lambda>r t. r = Done (connects t)", OF hoare_peek], simp, rule hoare_weaken [OF k]) simp_all
qed

lemma run_chaos_exit: "hoare (\<lambda>_. True) (run_chaos cfg env pool work launched baseline) (exit_post baseline)"
  unfolding run_chaos_def
  by (intro exit_cbind)
    (auto intro!: exit_cbind exit_say_return exit_craise verdict_exit simp: exit_means_def split: sum.split)

definition any_exit :: "int await \<Rightarrow> cev list \<Rightarrow> bool" where
  "any_exit r t \<longleftrightarrow> (\<exists>b. exit_post b r t)"

lemma any_exit_unless: "(\<And>n. r \<noteq> Done n) \<Longrightarrow> any_exit r t"
  by (cases r) (auto simp: any_exit_def exit_post_def)

lemma any_exit_mono: "hoare P m (exit_post b) \<Longrightarrow> hoare P m any_exit"
  by (erule hoare_weaken) (auto simp: any_exit_def)

lemma any_cbind: "(\<And>a. hoare (\<lambda>_. True) (f a) any_exit) \<Longrightarrow> hoare (\<lambda>_. True) (cbind m f) any_exit"
  by (rule hoare_cbind [where R = "\<lambda>_ _. True", OF hoare_any]) (auto intro: any_exit_unless)

lemma run_exit: "hoare (\<lambda>_. True) (run cfg ch env enabled warm work) any_exit"
  unfolding run_def
  by (intro any_cbind) (auto intro!: any_exit_mono [OF run_chaos_exit] any_exit_mono [OF exit_say_return]
      simp: exit_means_def split: fd_sample.split)

text \<open>The exit of the process: an interrupt, or a code.\<close>

definition process_exit :: "pystr list await \<Rightarrow> int await \<Rightarrow> cev list \<Rightarrow> bool" where
  "process_exit parsed r t \<longleftrightarrow>
     (case r of
        Done n \<Rightarrow> n = 0 \<and> parsed = Done [] \<or> (\<exists>b. exit_means b n t)
      | Raised e \<Rightarrow> e = KeyboardInterrupt \<or> (\<exists>n. e = SystemExit n)
      | Waiting \<Rightarrow> True)"

lemma chaos_main_run_exit:
  "hoare (\<lambda>_. True)
     (ctry (run cfg ch env enabled warm work) (\<lambda>e.
        case e of
          SystemExit n \<Rightarrow> craise e
        | KeyboardInterrupt \<Rightarrow> craise e
        | _ \<Rightarrow> cbind (say (ustr ''chaos: internal error ('' @ fst (text e) @ ustr ''): '' @ snd (text e))) (\<lambda>_. creturn 2)))
     (process_exit parsed)"
proof (rule hoare_ctry [OF run_exit])
  fix e
  show "hoare (any_exit (Raised e)) (case e of SystemExit n \<Rightarrow> craise e | KeyboardInterrupt \<Rightarrow> craise e
        | _ \<Rightarrow> cbind (say (ustr ''chaos: internal error ('' @ fst (text e) @ ustr ''): '' @ snd (text e))) (\<lambda>_. creturn 2))
      (process_exit parsed)"
    by (cases e) (auto intro!: hoare_say_return hoare_craise simp: process_exit_def exit_means_def)
qed (auto simp: process_exit_def any_exit_def exit_post_def)


section \<open>A server that is late\<close>

text \<open>C21: the baseline is not optional. A comment of \<open>run\<close> says that a baseline sample that never connects is not
  fatal, because the run may still connect later. Whenever the baseline was missed and the server answers
  \<open>/stats\<close> at the end, the comparison with the missing baseline raises a \<open>TypeError\<close>, which \<open>main\<close> turns into an internal error
  with exit code 2, however many descriptors there are.\<close>

theorem missing_baseline_is_an_internal_error:
  assumes "clk w = t0 # start # t1 # t2 # ts" and "\<And>a b v. \<exists>s l. work a b v = (Done (), v\<lparr>ext := s, trace := l\<rparr>)"
    and "\<And>v. \<exists>s l. sample_fds env 5 1 v = (Done (Some f), v\<lparr>ext := s, trace := l\<rparr>)"
  shows "fst (run_chaos cfg env pool work launched None w) = Raised (PyErr TypeError)"
proof -
  let ?say = "COut (ustr ''chaos: baseline fds='' @ fds_text None @ ustr '' (prelude '' @ elapsed launched t0 @ ustr ''s)'')"
  obtain s l where wk: "work start (fadd start (fl (of_int (SECONDS cfg)))) (w\<lparr>trace := trace w @ [?say], clk := t1 # t2 # ts\<rparr>) =
      (Done (), w\<lparr>clk := t1 # t2 # ts, ext := s, trace := l\<rparr>)"
    using assms(2) [of start "fadd start (fl (of_int (SECONDS cfg)))" "w\<lparr>trace := trace w @ [?say], clk := t1 # t2 # ts\<rparr>"] by auto
  let ?v = "w\<lparr>ext := s, clk := t2 # ts, trace := l @ [COut (tally_line cfg pool (ustr ''final '') l @ ustr '' | t='' @
      elapsed start t1 @ ustr ''s''), CSleep (of_int (DRAIN cfg))]\<rparr>"
  obtain v where settle: "settle_fds env None ?v = (Raised (PyErr TypeError), v)"
    using assms(3) [of "?v\<lparr>clk := ts\<rparr>"] by (auto simp: settle_fds_def cbind_def monotonic_def craise_def)
  show ?thesis
    using assms(1) wk settle
    by (auto simp: run_chaos_def cbind_monotonic cbind_tell say_def csleep_def csettle_def ctry_def peek_def cbind_def creturn_def
        tell_def monotonic_def split: prod.split await.split)
qed

text \<open>A server that always answers.\<close>

definition up_env :: "unit cenv" where
  "up_env =
     \<lparr>e_open = (\<lambda>s. (Done (), s)), e_close = (\<lambda>s. (Done (), s)),
      e_request = (\<lambda>m p h c s. (Done (200, ustr ''text/plain'', bstr ''7 8 9''), s)),
      e_stream = (\<lambda>m p h s. (([], Done ()), s)), e_upload = (\<lambda>p h cs tm s. ((Done 400, 0), s)),
      e_ws_open = (\<lambda>p s. (Done 200, s)), e_ws_send = (\<lambda>op m s. (Done (), s)), e_ws_recv = (\<lambda>s. (Waiting, s)),
      e_wst_connect = (\<lambda>u tls tm s. (Done (), s)), e_wst_exit = (\<lambda>s. (Done (), s)),
      e_wst_send = (\<lambda>m s. (Done (), s)), e_wst_recv = (\<lambda>s. (Waiting, s)),
      c_random = (\<lambda>s. (0, s)), c_uniform = (\<lambda>a b s. (a, s)), c_randint = (\<lambda>a b s. (a, s)), c_choice = (\<lambda>n s. (0, s)),
      c_aclose = (\<lambda>s. (Done (), s)), c_stream_open = (\<lambda>p h s. (Done [], s)), c_abort_stream = (\<lambda>s. (Done (), s)),
      c_upload_raise = (\<lambda>cs e s. (Raised e, s)), c_upload_cancel = (\<lambda>s. (Raised CancelledErr, s)),
      c_ws_close = (\<lambda>s. (Done (), s)), c_wst_connect = (\<lambda>u tls s. (Done (), s)), c_wst_close = (\<lambda>c s. (Done (), s)),
      c_wst_abort = (\<lambda>s. (False, s)), c_udp_close = (\<lambda>s. (False, s)), c_tcp_connect = (\<lambda>h p s. (Done (), s)),
      c_tcp_write = (\<lambda>b s. (Done (), s)), c_tcp_read = (\<lambda>n s. (Done (), s)), c_socket = (\<lambda>s. (False, s)),
      c_setsockopt = (\<lambda>b s. (Done (), s)), c_tcp_close = (\<lambda>s. (Done (), s)),
      c_raw_stream = (\<lambda>u h s. (Done ([], Done ()), s)), c_raw_exit = (\<lambda>s. (Done (), s))\<rparr>"

definition up_cfg :: config where
  "up_cfg = \<lparr>WORKLOAD = ustr ''mixed'', PROTO = ustr ''h1'', SERVER = [], BASE = ustr ''http://s'', SECONDS = 5,
     CLIENTS = 1, CONC = 1, STREAM = 10, REPORT = 60, REQ_COMP = [], RESP_COMP = []\<rparr>"

lemma up_sample:
  "\<exists>s l. sample_fds up_env 5 1 (v :: (unit, cev) world) = (Done (Some 9), v\<lparr>ext := s, trace := l\<rparr>)"
proof -
  have st: "get_server_stats (Done (200, ustr ''text/plain'', bstr ''7 8 9'')) = Done (7, 8, Some 9)" by code_simp
  show ?thesis
    by (intro exI [of _ "ext v"] exI [of _ "trace v @ [COpen, Connected, CLeave]"])
      (simp add: sample_fds_def numeral_eq_Suc up_env_def in_session_def c_enter_def c_leave_def connected_def stats_fds_def cdo_def
        csettle_def ctry_def cwith_def cbind_def ccall_def creturn_def tell_def of_await_def st)
qed

theorem missing_baseline_is_an_internal_error_witness:
  "fst (run_chaos up_cfg up_env [] (\<lambda>_ _. creturn ()) 0 None \<lparr>clk = [0, 1, 6, 7], ext = (), trace = []\<rparr>) = Raised (PyErr TypeError)"
proof (rule missing_baseline_is_an_internal_error [where f = 9])
  show "\<exists>s l. creturn () v = (Done (), v\<lparr>ext := s, trace := l\<rparr>)" for v :: "(unit, cev) world"
    by (intro exI [of _ "ext v"] exI [of _ "trace v"]) (simp add: creturn_def)
  show "\<exists>s l. sample_fds up_env 5 1 v = (Done (Some 9), v\<lparr>ext := s, trace := l\<rparr>)" for v by (rule up_sample)
qed simp_all

end
