(* ===== verification/Conf_Client.thy ===== *)
theory Conf_Client
  imports H3_Client Py_Async
begin

text \<open>
  The RFC 9220 conformance client, \<open>conformance/h3websocket/client.py\<close>: \<open>WsClient\<close> keeps the state of
  one Extended CONNECT stream and is driven by QUIC events, its coroutines send and wait,
  and the \<open>run*\<close> functions are the cases. aioquic and the server are the peer: a record of
  functions that hand out stream ids and say what arrives after a transmit. Arrivals are a
  list, each a QUIC event with the HTTP/3 events decoded from it, or the expiry of the
  timer of the wait in progress.
\<close>

section \<open>The client\<close>

definition H3_NO_ERROR :: int where
  "H3_NO_ERROR = 0x100"

record ws_client =
  w_http :: bool
  w_sid :: "nat option"
  w_status :: "pystr option"
  w_headers :: "header list"
  w_data :: bytes
  got_headers :: bool
  got_data :: bool
  w_stops :: "(nat \<times> int) list"
  got_stop :: bool

definition ws_client0 :: ws_client where
  "ws_client0 = \<lparr>w_http = False, w_sid = None, w_status = None, w_headers = [], w_data = [],
     got_headers = False, got_data = False, w_stops = [], got_stop = False\<rparr>"

datatype ws_quic = StopSendingReceived nat int | OtherWsQuic

text \<open>\<open>v.decode()\<close>: UTF-8, strict.\<close>

definition decode_strict :: "bytes \<Rightarrow> pystr result" where
  "decode_strict bs = (let s = decode_utf8 bs in if py_encode s = bs then Inr s else Inl ValueError)"

text \<open>\<open>for k, v in e.headers: if k == b":status": self._status = v.decode()\<close>; whether it got through.\<close>

fun scan_status :: "header list \<Rightarrow> pystr option \<Rightarrow> pystr option \<times> bool" where
  "scan_status [] st = (st, True)"
| "scan_status ((k, v) # hs) st =
     (if k = bstr '':status'' then
        (case decode_strict v of Inl e \<Rightarrow> (st, False) | Inr s \<Rightarrow> scan_status hs (Some s))
      else scan_status hs st)"

text \<open>\<open>dict(e.headers)\<close>\<close>

definition header_dict :: "header list \<Rightarrow> header list" where
  "header_dict hs = foldl (\<lambda>d (k, v). AList.update k v d) [] hs"

definition on_ws_h3 :: "ws_client \<Rightarrow> h3_event \<Rightarrow> ws_client \<times> bool" where
  "on_ws_h3 cl e =
     (case e of
        HeadersReceived sid hs ended \<Rightarrow>
          if w_sid cl = Some sid then
            (case scan_status hs (w_status cl) of (st, ok) \<Rightarrow>
               let cl1 = cl\<lparr>w_headers := header_dict hs, w_status := st\<rparr>
               in (if ok then cl1\<lparr>got_headers := True\<rparr> else cl1, ok))
          else (cl, True)
      | DataReceived sid d ended \<Rightarrow>
          if w_sid cl = Some sid then (cl\<lparr>w_data := w_data cl @ d, got_data := True\<rparr>, True) else (cl, True)
      | OtherH3Event sid \<Rightarrow> (cl, True))"

fun on_ws_all :: "ws_client \<Rightarrow> h3_event list \<Rightarrow> ws_client" where
  "on_ws_all cl [] = cl"
| "on_ws_all cl (e # es) = (case on_ws_h3 cl e of (cl', ok) \<Rightarrow> if ok then on_ws_all cl' es else cl')"

definition ws_event_received :: "ws_client \<Rightarrow> ws_quic \<Rightarrow> h3_event list \<Rightarrow> ws_client" where
  "ws_event_received cl ev decoded =
     (let cl0 = cl\<lparr>w_http := True\<rparr>;
          cl1 = (case ev of
                   StopSendingReceived sid code \<Rightarrow>
                     cl0\<lparr>w_stops := AList.update sid code (w_stops cl0), got_stop := True\<rparr>
                 | OtherWsQuic \<Rightarrow> cl0)
      in on_ws_all cl1 decoded)"

section \<open>The connection\<close>

datatype arrival = Arr ws_quic "h3_event list" | Tick

datatype ws_cmd = WHeaders nat "header list" | WData nat bytes | WFin nat

record 'n peer =
  p_connect :: "'n \<Rightarrow> unit await \<times> 'n"
  p_close :: "'n \<Rightarrow> unit await \<times> 'n"
  p_next :: "'n \<Rightarrow> nat \<times> 'n"
  p_transmit :: "ws_cmd list \<Rightarrow> 'n \<Rightarrow> arrival list \<times> 'n"

record 'n conn =
  wc :: ws_client
  unsent :: "ws_cmd list"
  pending :: "arrival list"
  peer_st :: 'n

datatype wev = Sent ws_cmd | Print pystr

type_synonym ('n, 'a) conf = "('n conn, wev, 'a) coro"

definition getc :: "(ws_client \<Rightarrow> 'a) \<Rightarrow> ('n, 'a) conf" where
  "getc f = draw (\<lambda>c. (f (wc c), c))"

definition updc :: "(ws_client \<Rightarrow> ws_client) \<Rightarrow> ('n, unit) conf" where
  "updc f = draw (\<lambda>c. ((), c\<lparr>wc := f (wc c)\<rparr>))"

definition send_cmd :: "ws_cmd \<Rightarrow> ('n, unit) conf" where
  "send_cmd c = cbind (tell (Sent c)) (\<lambda>_. draw (\<lambda>s. ((), s\<lparr>unsent := unsent s @ [c]\<rparr>)))"

definition transmit :: "'n peer \<Rightarrow> ('n, unit) conf" where
  "transmit peer = draw (\<lambda>s. case p_transmit peer (unsent s) (peer_st s) of (as, n) \<Rightarrow>
     ((), s\<lparr>unsent := [], pending := pending s @ as, peer_st := n\<rparr>))"

text \<open>\<open>asyncio.wait_for(flag.wait(), timeout)\<close>: arrivals are processed until the flag is set.\<close>

fun wait_arrivals :: "(ws_client \<Rightarrow> bool) \<Rightarrow> ws_client \<Rightarrow> arrival list \<Rightarrow> unit await \<times> ws_client \<times> arrival list" where
  "wait_arrivals flag cl [] = (if flag cl then Done () else Waiting, cl, [])"
| "wait_arrivals flag cl (a # as) =
     (if flag cl then (Done (), cl, a # as)
      else case a of
        Tick \<Rightarrow> (Raised TimeoutErr, cl, as)
      | Arr ev decoded \<Rightarrow> wait_arrivals flag (ws_event_received cl ev decoded) as)"

definition wait_flag :: "(ws_client \<Rightarrow> bool) \<Rightarrow> ('n, unit) conf" where
  "wait_flag flag = ccall (\<lambda>s. case wait_arrivals flag (wc s) (pending s) of (r, cl, as) \<Rightarrow>
     (r, s\<lparr>wc := cl, pending := as\<rparr>)) (\<lambda>_. [])"

definition connect_headers :: "pystr \<Rightarrow> pystr \<Rightarrow> pystr list \<Rightarrow> bytes \<Rightarrow> header list" where
  "connect_headers auth path subprotocols version =
     [(bstr '':method'', bstr ''CONNECT''), (bstr '':scheme'', bstr ''https''),
      (bstr '':authority'', py_encode auth), (bstr '':path'', py_encode path),
      (bstr '':protocol'', bstr ''websocket'')] @
     (if version \<noteq> [] then [(bstr ''sec-websocket-version'', version)] else []) @
     (if subprotocols \<noteq> []
      then [(bstr ''sec-websocket-protocol'', py_encode (join_on (ustr '', '') subprotocols))] else [])"

definition open_ws ::
  "'n peer \<Rightarrow> pystr \<Rightarrow> pystr \<Rightarrow> pystr list \<Rightarrow> bytes \<Rightarrow> bool \<Rightarrow> bytes \<Rightarrow> ('n, pystr option) conf" where
  "open_ws peer auth path subprotocols pipelined fin version =
     cbind (draw (\<lambda>s. case p_next peer (peer_st s) of (sid, n) \<Rightarrow> (sid, s\<lparr>peer_st := n\<rparr>))) (\<lambda>sid.
       cbind (updc (\<lambda>cl. cl\<lparr>w_http := True, w_sid := Some sid, w_status := None, w_headers := [],
                            w_data := [], got_headers := False, got_data := False\<rparr>)) (\<lambda>_.
         cbind (send_cmd (WHeaders sid (connect_headers auth path subprotocols version))) (\<lambda>_.
           cbind (if pipelined \<noteq> [] then send_cmd (WData sid pipelined) else creturn ()) (\<lambda>_.
             cbind (if fin then send_cmd (WFin sid) else creturn ()) (\<lambda>_.
               cbind (transmit peer) (\<lambda>_.
                 cbind (wait_flag got_headers) (\<lambda>_. getc w_status)))))))"

text \<open>
  The two waiting loops read the clock on every turn; their fuel is the number of readings
  left.
\<close>

fun stop_loop :: "nat \<Rightarrow> pyfloat \<Rightarrow> nat \<Rightarrow> ('n, int) conf" where
  "stop_loop 0 deadline sid = cwait"
| "stop_loop (Suc n) deadline sid =
     cbind (getc w_stops) (\<lambda>stops.
       case map_of stops sid of
         Some code \<Rightarrow> creturn code
       | None \<Rightarrow>
           cbind (updc (\<lambda>cl. cl\<lparr>got_stop := False\<rparr>)) (\<lambda>_.
             cbind monotonic (\<lambda>t.
               if fsub deadline t \<le> 0 then craise TimeoutErr
               else cbind (wait_flag got_stop) (\<lambda>_. stop_loop n deadline sid))))"

definition stop_sending :: "nat \<Rightarrow> pyfloat \<Rightarrow> ('n, int) conf" where
  "stop_sending sid timeout =
     cbind monotonic (\<lambda>t. \<lambda>w. stop_loop (Suc (length (clk w))) (fadd t timeout) sid w)"

definition resp_header :: "bytes \<Rightarrow> ws_client \<Rightarrow> bytes" where
  "resp_header name cl = (case map_of (w_headers cl) name of None \<Rightarrow> [] | Some v \<Rightarrow> v)"

definition cur_sid :: "('n, nat) conf" where
  "cur_sid = cbind (getc w_sid) (\<lambda>s. case s of Some sid \<Rightarrow> creturn sid | None \<Rightarrow> craise (PyErr TypeError))"

definition send_raw :: "'n peer \<Rightarrow> bytes \<Rightarrow> ('n, unit) conf" where
  "send_raw peer data = cbind cur_sid (\<lambda>sid. cbind (send_cmd (WData sid data)) (\<lambda>_. transmit peer))"

definition send_ws :: "'n peer \<Rightarrow> nat \<Rightarrow> bytes \<Rightarrow> ('n, unit) conf" where
  "send_ws peer opcode payload =
     cbind (of_await (of_result (conf_ws_frame opcode payload True))) (send_raw peer)"

fun recv_loop :: "nat \<Rightarrow> pyfloat \<Rightarrow> nat \<Rightarrow> ('n, ws_msg list) conf" where
  "recv_loop 0 deadline want = cwait"
| "recv_loop (Suc n) deadline want =
     cbind (getc w_data) (\<lambda>buf.
       cbind (of_await (of_result (conf_parse_ws buf))) (\<lambda>(frames, consumed).
         if want \<le> length frames then
           cbind (updc (\<lambda>cl. cl\<lparr>w_data := drop consumed (w_data cl)\<rparr>)) (\<lambda>_. creturn frames)
         else
           cbind (updc (\<lambda>cl. cl\<lparr>got_data := False\<rparr>)) (\<lambda>_.
             cbind monotonic (\<lambda>t.
               if fsub deadline t \<le> 0 then craise TimeoutErr
               else cbind (wait_flag got_data) (\<lambda>_. recv_loop n deadline want)))))"

definition recv_ws :: "nat \<Rightarrow> pyfloat \<Rightarrow> ('n, ws_msg list) conf" where
  "recv_ws want timeout =
     cbind monotonic (\<lambda>t. \<lambda>w. recv_loop (Suc (length (clk w))) (fadd t timeout) want w)"

section \<open>The cases\<close>

definition expect :: "bool \<Rightarrow> ('n, unit) conf" where
  "expect b = (if b then creturn () else craise (PyErr AssertionError))"

definition print :: "string \<Rightarrow> ('n, unit) conf" where
  "print s = tell (Print (ustr s))"

text \<open>\<open>async with client_ctx(host, port) as client\<close>: a fresh connection and client.\<close>

definition client_ctx :: "'n peer \<Rightarrow> ('n, unit) conf \<Rightarrow> ('n, unit) conf" where
  "client_ctx peer body =
     cwith
       (ccall (\<lambda>s. case p_connect peer (peer_st s) of (r, n) \<Rightarrow>
          (r, s\<lparr>wc := ws_client0, unsent := [], pending := [], peer_st := n\<rparr>)) (\<lambda>_. []))
       (ccall (\<lambda>s. case p_close peer (peer_st s) of (r, n) \<Rightarrow> (r, s\<lparr>peer_st := n\<rparr>)) (\<lambda>_. []))
       body"

text \<open>\<open>(await client.recv_ws())[0]\<close>\<close>

definition recv_first :: "('n, ws_msg) conf" where
  "recv_first = cbind (recv_ws 1 5) (\<lambda>fs. case fs of f # _ \<Rightarrow> creturn f | [] \<Rightarrow> craise (PyErr IndexError))"

definition echo_case :: "'n peer \<Rightarrow> nat \<Rightarrow> bytes \<Rightarrow> ws_msg \<Rightarrow> string \<Rightarrow> ('n, unit) conf" where
  "echo_case peer opcode payload want note =
     cbind (send_ws peer opcode payload) (\<lambda>_.
       cbind recv_first (\<lambda>fr.
         cbind (expect (fr = want)) (\<lambda>_. print note)))"

definition handshake :: "'n peer \<Rightarrow> pystr list \<Rightarrow> bytes \<Rightarrow> bool \<Rightarrow> bytes \<Rightarrow> string \<Rightarrow> ('n, unit) conf" where
  "handshake peer subprotocols pipelined fin version want =
     cbind (open_ws peer (ustr ''server'') (ustr ''/'') subprotocols pipelined fin version) (\<lambda>st.
       expect (st = Some (ustr want)))"

definition run_main_case :: "'n peer \<Rightarrow> ('n, unit) conf" where
  "run_main_case peer =
     client_ctx peer
       (cbind (handshake peer [ustr ''chat'', ustr ''json''] [] False (bstr ''13'') ''200'') (\<lambda>_.
         cbind (print ''handshake 200 OK'') (\<lambda>_.
         cbind (echo_case peer OP_TEXT (bstr ''hello'') (OP_TEXT, bstr ''hello'') ''text echo OK'') (\<lambda>_.
         cbind (echo_case peer OP_BINARY [0, 1, 2, 0xff] (OP_BINARY, [0, 1, 2, 0xff]) ''binary echo OK'') (\<lambda>_.
         cbind (echo_case peer OP_PING (bstr ''pingpayload'') (OP_PONG, bstr ''pingpayload'') ''ping/pong OK'') (\<lambda>_.
         cbind (echo_case peer OP_TEXT (bstr ''proto?'') (OP_TEXT, bstr ''chat'') ''subprotocol OK'') (\<lambda>_.
         cbind (of_await (of_result
                  (result_bind (conf_ws_frame OP_TEXT (bstr ''Hel'') False) (\<lambda>a.
                   result_bind (conf_ws_frame 0 (bstr ''lo!'') True) (\<lambda>b. Inr (a @ b)))))) (\<lambda>fragments.
         cbind (send_raw peer fragments) (\<lambda>_.
         cbind recv_first (\<lambda>fr.
         cbind (expect (fr = (OP_TEXT, bstr ''Hello!''))) (\<lambda>_.
         cbind (print ''fragmented message OK'') (\<lambda>_.
         cbind (send_ws peer OP_CLOSE [3, 0xe8]) (\<lambda>_.
         cbind recv_first (\<lambda>fr.
         cbind (expect (fst fr = OP_CLOSE)) (\<lambda>_.
           print ''close handshake OK'')))))))))))))))"

definition run_coalesced :: "'n peer \<Rightarrow> ('n, unit) conf" where
  "run_coalesced peer =
     client_ctx peer
       (cbind (of_await (of_result (conf_ws_frame OP_TEXT (bstr ''coalesced'') True))) (\<lambda>f.
         cbind (handshake peer [] f False (bstr ''13'') ''200'') (\<lambda>_.
         cbind recv_first (\<lambda>fr.
         cbind (expect (fr = (OP_TEXT, bstr ''coalesced''))) (\<lambda>_.
           print ''coalesced handshake + frame OK'')))))"

definition run_early_fin :: "'n peer \<Rightarrow> ('n, unit) conf" where
  "run_early_fin peer =
     client_ctx peer
       (cbind (handshake peer [] [] True (bstr ''13'') ''200'') (\<lambda>_.
         cbind recv_first (\<lambda>fr.
         cbind (expect (fst fr = OP_CLOSE)) (\<lambda>_.
           print ''half-close before accept OK''))))"

definition run_async_send :: "'n peer \<Rightarrow> ('n, unit) conf" where
  "run_async_send peer =
     client_ctx peer
       (cbind (handshake peer [] [] False (bstr ''13'') ''200'') (\<lambda>_.
         cbind monotonic (\<lambda>started.
         cbind (send_ws peer OP_TEXT (bstr ''later'')) (\<lambda>_.
         cbind recv_first (\<lambda>fr.
         cbind monotonic (\<lambda>now.
           let elapsed = fsub now started in
         cbind (expect (fr = (OP_TEXT, bstr ''later''))) (\<lambda>_.
         cbind (expect (elapsed < fl (7 / 10))) (\<lambda>_.
           tell (Print (ustr ''deferred (async) send OK in '' @ fmt_fixed 2 elapsed @ ustr ''s''))))))))))"

definition refusal :: "'n peer \<Rightarrow> nat \<Rightarrow> ('n, unit) conf" where
  "refusal peer i =
     cbind (handshake peer [] [] False [] ''426'') (\<lambda>_.
       cbind cur_sid (\<lambda>sid. cbind (stop_sending sid 5) (\<lambda>_. creturn ())))"

definition run_bad_version :: "'n peer \<Rightarrow> ('n, unit) conf" where
  "run_bad_version peer =
     client_ctx peer
       (cbind (of_await (of_result (conf_ws_frame OP_TEXT (bstr ''early'') True))) (\<lambda>f.
         cbind (handshake peer [] f False [] ''426'') (\<lambda>_.
         cbind (getc (resp_header (bstr ''sec-websocket-version''))) (\<lambda>offered.
         cbind (expect (offered = bstr ''13'')) (\<lambda>_.
         cbind cur_sid (\<lambda>sid.
         cbind (stop_sending sid 5) (\<lambda>code.
         cbind (expect (code = H3_NO_ERROR)) (\<lambda>_.
         cbind (cseq [0..<600] (refusal peer)) (\<lambda>_.
         cbind (handshake peer [] [] False (bstr ''13'') ''200'') (\<lambda>_.
           echo_case peer OP_TEXT (bstr ''after-426'') (OP_TEXT, bstr ''after-426'')
             ''version-less Extended CONNECT refused 426 + STOP_SENDING(H3_NO_ERROR), 600 more refusals, connection OK''))))))))))"

definition conf_run :: "'n peer \<Rightarrow> ('n, unit) conf" where
  "conf_run peer =
     cbind (run_main_case peer) (\<lambda>_.
     cbind (run_coalesced peer) (\<lambda>_.
     cbind (run_early_fin peer) (\<lambda>_.
     cbind (run_async_send peer) (\<lambda>_.
     cbind (run_bad_version peer) (\<lambda>_.
       print ''RESULT: all HTTP/3 WebSocket cases passed.'')))))"

text \<open>The exit code; what \<open>except Exception\<close> does not catch propagates.\<close>

definition conf_main :: "'n peer \<Rightarrow> ('n, int) conf" where
  "conf_main peer =
     ctry (cbind (conf_run peer) (\<lambda>_. creturn 0))
       (\<lambda>e. if is_Exception e then creturn 1 else craise e)"

end
