(* ===== verification/Interop.thy ===== *)
theory Interop
  imports Py_Async
begin

text \<open>
  Two small Python programs of the conformance suite: the cross-client interop worker,
  \<open>conformance/interop/clients/python/client.py\<close> (httpx is the argument \<open>i_request\<close> of the
  record \<open>ienv\<close>), and the fairness summary line, \<open>conformance/fairness/summarize.py\<close>.
\<close>

section \<open>The interop client\<close>

record interop =
  i_url :: pystr
  i_runtime :: int
  i_clients :: int
  i_mtls :: bool
  i_enc :: pystr

definition env_or :: "(pystr \<times> pystr) list \<Rightarrow> string \<Rightarrow> string \<Rightarrow> pystr" where
  "env_or env k d = (case map_of env (ustr k) of None \<Rightarrow> ustr d | Some v \<Rightarrow> v)"

definition load_interop :: "(pystr \<times> pystr) list \<Rightarrow> interop result" where
  "load_interop env =
     result_bind (py_int (env_or env ''INTEROP_RUNTIME'' ''5'')) (\<lambda>runtime.
     result_bind (py_int (env_or env ''INTEROP_CLIENTS'' ''1'')) (\<lambda>clients.
       Inr \<lparr>i_url = env_or env ''INTEROP_URL'' ''https://server:8443'', i_runtime = runtime,
            i_clients = max 1 clients, i_mtls = (map_of env (ustr ''INTEROP_MTLS'') = Some (ustr ''1'')),
            i_enc = env_or env ''INTEROP_ENCODING'' ''gzip''\<rparr>))"

definition METHODS :: "pystr list" where
  "METHODS = [ustr ''GET'', ustr ''POST'', ustr ''PUT'', ustr ''PATCH'', ustr ''DELETE'', ustr ''HEAD'',
     ustr ''OPTIONS'']"

record iresp =
  i_status :: int
  i_version :: pystr
  i_encoding :: "pystr option"
  i_echo :: "pystr option"
  i_text :: pystr

text \<open>\<open>make_client\<close>: the arguments of \<open>httpx.Client\<close>.\<close>

record client_args =
  a_http2 :: bool
  a_verify :: pystr
  a_timeout :: pyfloat
  a_headers :: "(pystr \<times> pystr) list"
  a_cert :: "(pystr \<times> pystr) option"

definition make_client :: "interop \<Rightarrow> client_args" where
  "make_client cfg =
     \<lparr>a_http2 = True, a_verify = ustr ''/certs/ca.pem'', a_timeout = 30,
      a_headers = [(ustr ''x-api-key'', ustr ''interop''), (ustr ''accept-encoding'', i_enc cfg)],
      a_cert = (if i_mtls cfg then Some (ustr ''/certs/client.pem'', ustr ''/certs/client.key'') else None)\<rparr>"

record 's ienv =
  i_open :: "client_args \<Rightarrow> 's \<Rightarrow> unit await \<times> 's"
  i_close :: "'s \<Rightarrow> unit await \<times> 's"
  i_request :: "pystr \<Rightarrow> pystr \<Rightarrow> pystr option \<Rightarrow> 's \<Rightarrow> iresp await \<times> 's"

datatype iev = IReq pystr pystr "pystr option" iresp

type_synonym ('s, 'a) iwork = "('s, iev, 'a) coro"

definition irequest :: "'s ienv \<Rightarrow> pystr \<Rightarrow> pystr \<Rightarrow> pystr option \<Rightarrow> ('s, iresp) iwork" where
  "irequest env m url body = ccall (i_request env m url body) (\<lambda>r. [IReq m url body r])"

definition opt_text :: "pystr option \<Rightarrow> pystr" where
  "opt_text v = (case v of None \<Rightarrow> ustr ''None'' | Some s \<Rightarrow> s)"

definition ibody :: "pystr \<Rightarrow> pystr option" where
  "ibody m = (if m \<in> {ustr ''POST'', ustr ''PUT'', ustr ''PATCH''} then Some (ustr ''hello from python'') else None)"

text \<open>The checks on one response, in the source's order.\<close>

definition check_response :: "interop \<Rightarrow> pystr \<Rightarrow> iresp \<Rightarrow> pystr option" where
  "check_response cfg m r =
     (if i_status r \<noteq> 200 then Some (m @ ustr '' status '' @ py_str (i_status r))
      else if i_version r \<noteq> ustr ''HTTP/2'' then Some (m @ ustr '' not HTTP/2: '' @ i_version r)
      else if i_encoding r \<noteq> Some (i_enc cfg)
      then Some (m @ ustr '' not '' @ i_enc cfg @ ustr ''-encoded: '' @ opt_text (i_encoding r))
      else if m = ustr ''HEAD'' then
        (if i_echo r \<noteq> Some (ustr ''HEAD'') then Some (ustr ''HEAD missing x-echo-method'') else None)
      else if \<not> sublist (ustr ''method='' @ m) (i_text r) then Some (m @ ustr '' body did not echo method'')
      else None)"

definition interop_method :: "'s ienv \<Rightarrow> interop \<Rightarrow> pystr \<Rightarrow> nat \<Rightarrow> ('s, nat) iwork" where
  "interop_method env cfg m n =
     cbind (irequest env m (i_url cfg @ ustr ''/echo'') (ibody m)) (\<lambda>r.
       case check_response cfg m r of
         Some reason \<Rightarrow> craise (RuntimeErr reason)
       | None \<Rightarrow> creturn (Suc n))"

fun interop_methods :: "'s ienv \<Rightarrow> interop \<Rightarrow> pystr list \<Rightarrow> nat \<Rightarrow> ('s, nat) iwork" where
  "interop_methods env cfg [] n = creturn n"
| "interop_methods env cfg (m # ms) n = cbind (interop_method env cfg m n) (interop_methods env cfg ms)"

definition whoami_ok :: "iresp \<Rightarrow> bool" where
  "whoami_ok r \<longleftrightarrow> i_status r = 200 \<and> py_strip (i_text r) \<notin> {[], ustr ''-''}"

definition interop_turn :: "'s ienv \<Rightarrow> interop \<Rightarrow> nat \<Rightarrow> ('s, nat) iwork" where
  "interop_turn env cfg n =
     cbind (interop_methods env cfg METHODS n) (\<lambda>n.
       if i_mtls cfg then
         cbind (irequest env (ustr ''GET'') (i_url cfg @ ustr ''/whoami'') None) (\<lambda>r.
           if \<not> whoami_ok r then craise (RuntimeErr (ustr ''mTLS /whoami did not report a client subject''))
           else creturn (Suc n))
       else creturn n)"

definition interop_worker :: "'s ienv \<Rightarrow> interop \<Rightarrow> pyfloat \<Rightarrow> ('s, nat) iwork" where
  "interop_worker env cfg deadline =
     cwith (ccall (i_open env (make_client cfg)) (\<lambda>_. [])) (ccall (i_close env) (\<lambda>_. []))
       (until_deadline deadline (interop_turn env cfg) 0)"

text \<open>
  \<open>main\<close> on the outcomes of the futures, in the order they were submitted: the line
  printed and the exit code. \<open>msg\<close> is \<open>str(e)\<close>.
\<close>

fun sum_results :: "nat await list \<Rightarrow> nat \<Rightarrow> nat await" where
  "sum_results [] acc = Done acc"
| "sum_results (r # rs) acc = abind r (\<lambda>n. sum_results rs (acc + n))"

definition interop_fail :: "pystr \<Rightarrow> pystr list \<times> int await" where
  "interop_fail reason = ([ustr ''INTEROP FAIL python: '' @ reason], Done 1)"

definition interop_main :: "(exn \<Rightarrow> pystr) \<Rightarrow> interop \<Rightarrow> nat await list \<Rightarrow> pystr list \<times> int await" where
  "interop_main msg cfg results =
     (case sum_results results 0 of
        Done n \<Rightarrow>
          ([ustr ''INTEROP OK python: requests='' @ py_str (int n) @ ustr '' (clients='' @
            py_str (i_clients cfg) @ ustr '', runtime='' @ py_str (i_runtime cfg) @ ustr ''s, mtls='' @
            py_str (if i_mtls cfg then 1 else 0) @ ustr '', enc='' @ i_enc cfg @ ustr '')''], Done 0)
      | Raised e \<Rightarrow>
          if is_Exception e then interop_fail (msg e) else ([], Raised e)
      | Waiting \<Rightarrow> ([], Waiting))"

section \<open>The fairness summary\<close>

record h2load_times =
  t_min :: pyfloat
  t_max :: pyfloat
  t_median :: pyfloat
  t_p95 :: pyfloat
  t_p99 :: pyfloat
  t_sd :: pyfloat

record h2load_reqs =
  q_total :: int
  q_succeeded :: int
  q_failed :: int
  q_errored :: int
  q_timeout :: int

definition to_ms :: "pyfloat \<Rightarrow> pyfloat" where
  "to_ms s = fmul s 1000"

text \<open>\<open>None\<close> is \<open>float("nan")\<close>.\<close>

definition spread :: "h2load_times \<Rightarrow> pyfloat option" where
  "spread r = (if 0 < t_min r then Some (fdiv (t_max r) (t_min r)) else None)"

definition pad22 :: "pystr \<Rightarrow> pystr" where
  "pad22 s = s @ replicate (22 - length s) 32"

definition summary_line :: "pystr \<Rightarrow> h2load_reqs \<Rightarrow> pyfloat \<Rightarrow> pyfloat \<Rightarrow> h2load_times \<Rightarrow> pystr" where
  "summary_line label reqs rps bps r =
     pad22 label @ ustr '' reqs='' @ py_str (q_succeeded reqs) @ ustr ''/'' @ py_str (q_total reqs) @
     ustr '' fail='' @ py_str (q_failed reqs + q_errored reqs + q_timeout reqs) @
     ustr '' | '' @ fmt_fixed 0 rps @ ustr '' req/s '' @ fmt_fixed 2 (fdiv bps (10 ^ 9)) @ ustr '' GB/s '' @
     ustr ''| req-time ms: p50='' @ fmt_fixed 1 (to_ms (t_median r)) @
     ustr '' p95='' @ fmt_fixed 1 (to_ms (t_p95 r)) @ ustr '' p99='' @ fmt_fixed 1 (to_ms (t_p99 r)) @
     ustr '' max='' @ fmt_fixed 1 (to_ms (t_max r)) @ ustr '' sd='' @ fmt_fixed 2 (to_ms (t_sd r)) @
     ustr '' | spread(max/min)='' @ (case spread r of None \<Rightarrow> ustr ''nan'' | Some x \<Rightarrow> fmt_fixed 1 x) @ ustr ''x''"

end
