(* ===== verification/Conf_Props.thy ===== *)
theory Conf_Props
  imports Conf_Client Ws_Interop Interop
begin

text \<open>
  Properties of the two remaining clients: the RFC 9220 client reads a server message in
  whatever pieces it arrives, and the interop client's success line counts exactly the
  exchanges it verified.
\<close>

section \<open>Receiving a message\<close>

definition data_arrival :: "nat \<Rightarrow> bytes \<Rightarrow> arrival" where
  "data_arrival sid c = Arr OtherWsQuic [DataReceived sid c False]"

lemma data_arrival_step:
  "w_sid cl = Some sid \<Longrightarrow> \<not> got_data cl \<Longrightarrow>
   wait_arrivals got_data cl (data_arrival sid c # as) =
     (Done (), cl\<lparr>w_http := True, w_data := w_data cl @ c, got_data := True\<rparr>, as)"
  by (cases as) (simp_all add: data_arrival_def ws_event_received_def on_ws_h3_def Let_def)

text \<open>The state of the connection while a message is arriving.\<close>

definition receiving :: "nat \<Rightarrow> bytes \<Rightarrow> bytes list \<Rightarrow> 'n conn \<Rightarrow> bool" where
  "receiving sid buf cs s \<longleftrightarrow> w_sid (wc s) = Some sid \<and> w_data (wc s) = buf \<and> pending s = map (data_arrival sid) cs"

lemma recv_loop_reads:
  assumes fr: "length pl \<le> 65535"
  shows "receiving sid buf cs (ext w) \<Longrightarrow> buf @ concat cs = appendFrame [] op pl f r1 \<Longrightarrow>
    length cs \<le> length (clk w) \<Longrightarrow> \<forall>t \<in> set (clk w). 0 < fsub dl t \<Longrightarrow> length cs < n \<Longrightarrow>
    \<exists>w' rest. recv_loop n dl 1 w = (Done [(opcode_val op, pl)], w') \<and> receiving sid [] rest (ext w')"
proof (induction cs arbitrary: buf w n)
  case Nil
  then obtain m where n: "n = Suc m" by (cases n) auto
  have "conf_parse_ws buf = Inr ([(opcode_val op, pl)], length buf)"
    using confws.parse_one_frame [OF _ conf_parse_Nil] conf_turn_appendFrame [OF fr, of op f r1 "[]"] Nil.prems(2) by simp
  with Nil.prems(1) show ?case
    by (auto simp: n receiving_def getc_def updc_def draw_def cbind_def ccall_def of_await_def creturn_def intro: exI [of _ "[]"])
next
  case (Cons c cs)
  then obtain m where n: "n = Suc m" by (cases n) auto
  obtain t ts where clk: "clk w = t # ts" using Cons.prems(3) by (cases "clk w") auto
  show ?case
  proof (cases "c @ concat cs = []")
    case True
    have "conf_parse_ws buf = Inr ([(opcode_val op, pl)], length buf)"
      using confws.parse_one_frame [OF _ conf_parse_Nil] conf_turn_appendFrame [OF fr, of op f r1 "[]"] Cons.prems(2) True by simp
    with Cons.prems(1) show ?thesis
      by (auto simp: n receiving_def getc_def updc_def draw_def cbind_def ccall_def of_await_def creturn_def
          intro: exI [of _ "c # cs"])
  next
    case False
    have "conf_parse_turn (buf @ c @ concat cs) 0 = Take (opcode_val op, pl) (length (buf @ c @ concat cs))"
      using conf_turn_appendFrame [OF fr, of op f r1 "[]"] Cons.prems(2) by (simp del: length_append)
    from confws.parse_incomplete [OF this False] have p: "conf_parse_ws buf = Inr ([], 0)" .
    let ?cl = "(wc (ext w))\<lparr>w_http := True, w_data := buf @ c, got_data := True\<rparr>"
    let ?s = "(ext w)\<lparr>wc := ?cl, pending := map (data_arrival sid) cs\<rparr>"
    have r: "receiving sid (buf @ c) cs ?s" using Cons.prems(1) by (simp add: receiving_def)
    have "recv_loop n dl 1 w = recv_loop m dl 1 (w\<lparr>clk := ts, ext := ?s\<rparr>)"
      using Cons.prems(1, 4) p clk
      by (simp add: n receiving_def getc_def updc_def wait_flag_def draw_def cbind_def ccall_def of_await_def monotonic_def
          data_arrival_step del: wait_arrivals.simps)
    with Cons.IH [of "buf @ c" "w\<lparr>clk := ts, ext := ?s\<rparr>" m] r Cons.prems clk n show ?thesis by simp
  qed
qed

text \<open>C19: the conformance client's \<open>recv_ws\<close> reads a server message of up to 65535 bytes in whatever pieces
  it arrives. While the pieces come before the timeout it returns exactly that message, and nothing of it stays in
  the buffer.\<close>

theorem recv_ws_any_pieces:
  assumes "length pl \<le> 65535" and "receiving sid [] pieces (ext w)" and "concat pieces = appendFrame [] op pl f r1"
    and "clk w = t # ts" and "length pieces \<le> length ts" and "\<forall>t' \<in> set ts. 0 < fsub (fadd t timeout) t'"
  shows "\<exists>w' rest. recv_ws 1 timeout w = (Done [(opcode_val op, pl)], w') \<and> receiving sid [] rest (ext w')"
proof -
  have "recv_ws 1 timeout w = recv_loop (Suc (length ts)) (fadd t timeout) 1 (w\<lparr>clk := ts\<rparr>)"
    by (simp add: recv_ws_def cbind_monotonic assms(4) del: recv_loop.simps)
  with recv_loop_reads [OF assms(1), of sid "[]" pieces "w\<lparr>clk := ts\<rparr>" op f r1 "fadd t timeout" "Suc (length ts)"] assms
  show ?thesis by simp
qed

definition sample_conn :: "unit conn" where
  "sample_conn = \<lparr>wc = ws_client0\<lparr>w_sid := Some 4\<rparr>, unsent = [],
     pending = [data_arrival 4 [0x81], data_arrival 4 [2, 104], data_arrival 4 [105]], peer_st = ()\<rparr>"

theorem recv_ws_any_pieces_witness:
  "\<exists>w' rest. recv_ws 1 5 \<lparr>clk = [0, 1, 2, 3], ext = sample_conn, trace = []\<rparr> = (Done [(1, [104, 105])], w') \<and>
    receiving 4 [] rest (ext w')"
proof -
  have fl: "0 < fsub (fadd 0 5) t" if "t \<in> set [1, 2, 3]" for t
    using that fl_of_int [of 5] fl_of_int [of 4] fl_of_int [of 3] fl_of_int [of 2]
    by (auto simp: fadd_def fsub_def)
  show ?thesis
    using recv_ws_any_pieces [of "[104, 105]" 4 "[[0x81], [2, 104], [105]]" "\<lparr>clk = [0, 1, 2, 3], ext = sample_conn, trace = []\<rparr>"
        opText True False 0 "[1, 2, 3]" 5] fl
    by (simp add: sample_conn_def receiving_def ws_client0_def appendFrame_def)
qed

section \<open>The interop client\<close>

text \<open>An exchange that passed every check the client makes of it.\<close>

fun ok_exchange :: "interop \<Rightarrow> iev \<Rightarrow> bool" where
  "ok_exchange cfg (IReq m url body r) \<longleftrightarrow>
     m \<in> set METHODS \<and> url = i_url cfg @ ustr ''/echo'' \<and> body = ibody m \<and> check_response cfg m r = None \<or>
     i_mtls cfg \<and> m = ustr ''GET'' \<and> url = i_url cfg @ ustr ''/whoami'' \<and> body = None \<and> whoami_ok r"

definition counted_so_far :: "interop \<Rightarrow> iev list \<Rightarrow> nat \<Rightarrow> iev list \<Rightarrow> bool" where
  "counted_so_far cfg t0 n t \<longleftrightarrow> (\<exists>l. t = t0 @ l \<and> length l = n \<and> list_all (ok_exchange cfg) l)"

abbreviation counts_ok :: "interop \<Rightarrow> iev list \<Rightarrow> nat await \<Rightarrow> iev list \<Rightarrow> bool" where
  "counts_ok cfg t0 r t \<equiv> \<forall>n. r = Done n \<longrightarrow> counted_so_far cfg t0 n t"

lemma counted_snoc:
  "counted_so_far cfg t0 n t \<Longrightarrow> ok_exchange cfg e \<Longrightarrow> counted_so_far cfg t0 (Suc n) (t @ [e])"
  unfolding counted_so_far_def by (elim exE conjE, intro exI [of _ "_ @ [e]"]) simp

lemma hoare_irequest:
  assumes "\<And>r t. counted_so_far cfg t0 n t \<Longrightarrow> hoare (\<lambda>t'. t' = t @ [IReq m url body r]) (f r) (counts_ok cfg t0)"
  shows "hoare (counted_so_far cfg t0 n) (cbind (irequest env m url body) f) (counts_ok cfg t0)"
proof (rule hoareI)
  fix w r w' assume c: "cbind (irequest env m url body) f w = (r, w')" and P: "counted_so_far cfg t0 n (trace w)"
  obtain q s where i: "i_request env m url body (ext w) = (q, s)" by fastforce
  show "counts_ok cfg t0 r (trace w')"
  proof (cases q)
    case (Done a)
    with c i have "f a (w\<lparr>ext := s, trace := trace w @ [IReq m url body a]\<rparr>) = (r, w')"
      by (simp add: irequest_def cbind_def ccall_def)
    from hoareD [OF assms [OF P] _ this] show ?thesis by simp
  qed (use c i in \<open>auto simp: irequest_def cbind_def ccall_def\<close>)
qed

lemma hoare_interop_method:
  assumes "m \<in> set METHODS"
  shows "hoare (counted_so_far cfg t0 n) (interop_method env cfg m n) (counts_ok cfg t0)"
  unfolding interop_method_def
  by (rule hoare_irequest) (use assms in \<open>auto intro!: hoare_craise hoare_creturn counted_snoc split: option.split\<close>)

lemma hoare_interop_methods:
  "set ms \<subseteq> set METHODS \<Longrightarrow> hoare (counted_so_far cfg t0 n) (interop_methods env cfg ms n) (counts_ok cfg t0)"
proof (induction ms arbitrary: n)
  case Nil
  then show ?case by (auto intro: hoare_creturn)
next
  case (Cons m ms)
  then have IH: "hoare (counted_so_far cfg t0 k) (interop_methods env cfg ms k) (counts_ok cfg t0)" for k by simp
  have m: "m \<in> set METHODS" using Cons.prems by simp
  show ?case unfolding interop_methods.simps
    by (rule hoare_cbind [OF hoare_interop_method [OF m]]) (auto intro: hoare_weaken [OF IH])
qed

lemma hoare_interop_turn: "hoare (counted_so_far cfg t0 n) (interop_turn env cfg n) (counts_ok cfg t0)"
proof -
  have who: "hoare (counted_so_far cfg t0 k) (if i_mtls cfg then
         cbind (irequest env (ustr ''GET'') (i_url cfg @ ustr ''/whoami'') None) (\<lambda>r.
           if \<not> whoami_ok r then craise (RuntimeErr (ustr ''mTLS /whoami did not report a client subject''))
           else creturn (Suc k))
       else creturn k) (counts_ok cfg t0)" for k
    by (auto intro!: hoare_irequest hoare_craise hoare_creturn counted_snoc)
  show ?thesis unfolding interop_turn_def
    by (rule hoare_cbind [OF hoare_interop_methods], simp, rule hoare_weaken [OF who]) simp_all
qed

lemma hoare_interop_worker: "hoare (\<lambda>t. t = t0) (interop_worker env cfg dl) (counts_ok cfg t0)"
proof -
  have turn: "hoare (counted_so_far cfg t0 k) (interop_turn env cfg k)
      (\<lambda>r t. True \<and> (\<forall>k'. r = Done k' \<longrightarrow> counted_so_far cfg t0 k' t))" for k
    by (rule hoare_weaken [OF hoare_interop_turn]) auto
  have "hoare (counted_so_far cfg t0 0) (until_deadline dl (interop_turn env cfg) 0) (counts_ok cfg t0)"
    unfolding until_deadline_def by (rule hoare_weaken [OF hoare_guarded_until [OF turn]]) auto
  then have loop: "hoare (\<lambda>t. t = t0) (until_deadline dl (interop_turn env cfg) 0) (counts_ok cfg t0)"
    by (rule hoare_weaken) (auto simp: counted_so_far_def)
  show ?thesis unfolding interop_worker_def
    by (rule hoare_cwith [OF keeps_basic(7) loop]) (auto intro: keeps_basic)
qed

lemma sum_results_Done:
  "sum_results rs acc = Done n \<longleftrightarrow> (\<exists>ns. rs = map Done ns \<and> n = acc + sum_list ns)"
proof (induction rs arbitrary: acc)
  case (Cons r rs)
  then show ?case by (cases r) (auto simp: Cons_eq_map_conv)
qed auto

definition ok_line :: "interop \<Rightarrow> nat \<Rightarrow> pystr" where
  "ok_line cfg n = ustr ''INTEROP OK python: requests='' @ py_str (int n) @ ustr '' (clients='' @
     py_str (i_clients cfg) @ ustr '', runtime='' @ py_str (i_runtime cfg) @ ustr ''s, mtls='' @
     py_str (if i_mtls cfg then 1 else 0) @ ustr '', enc='' @ i_enc cfg @ ustr '')''"

text \<open>C18: the interop client's success line is exact. If \<open>main\<close> returns 0 for the outcomes of its workers, then
  every worker ran to its deadline, each exchange of each worker passed all its checks (status, HTTP/2, the
  negotiated encoding, the echoed method, the mTLS subject), and the printed number of requests is the number of
  those exchanges.\<close>

theorem interop_ok_counts_verified:
  assumes "interop_main msg cfg (map (\<lambda>(ts, s). fst (interop_worker env cfg dl \<lparr>clk = ts, ext = s, trace = []\<rparr>)) seeds) = (lines, Done 0)"
  defines "traces \<equiv> map (\<lambda>(ts, s). trace (snd (interop_worker env cfg dl \<lparr>clk = ts, ext = s, trace = []\<rparr>))) seeds"
  shows "list_all (list_all (ok_exchange cfg)) traces \<and> lines = [ok_line cfg (length (concat traces))]"
proof -
  let ?run = "\<lambda>(ts, s). interop_worker env cfg dl \<lparr>clk = ts, ext = s, trace = []\<rparr>"
  have one: "list_all (ok_exchange cfg) (trace (snd (?run p))) \<and> length (trace (snd (?run p))) = n"
    if "fst (?run p) = Done n" for p n
  proof -
    obtain ts s where p: "p = (ts, s)" by fastforce
    have "counted_so_far cfg [] n (trace (snd (?run p)))"
      using hoareD [OF hoare_interop_worker [of "[]" env cfg dl], of "\<lparr>clk = ts, ext = s, trace = []\<rparr>" "Done n" "snd (?run p)"] that
      by (simp add: p prod_eq_iff)
    then show ?thesis by (auto simp: counted_so_far_def)
  qed
  obtain n where n: "sum_results (map (\<lambda>p. fst (?run p)) seeds) 0 = Done n" "lines = [ok_line cfg n]"
    using assms(1) by (auto simp: interop_main_def interop_fail_def ok_line_def case_prod_unfold split: await.splits if_splits)
  then obtain ns where ns: "map (\<lambda>p. fst (?run p)) seeds = map Done ns" "n = sum_list ns"
    by (auto simp: sum_results_Done)
  have "list_all (list_all (ok_exchange cfg)) (map (\<lambda>p. trace (snd (?run p))) seeds) \<and>
      length (concat (map (\<lambda>p. trace (snd (?run p))) seeds)) = sum_list ns"
    using ns(1)
  proof (induction seeds arbitrary: ns)
    case (Cons p seeds)
    then obtain k ks where k: "ns = k # ks" "fst (?run p) = Done k" by (cases ns) auto
    with Cons one [OF k(2)] show ?case by (simp add: case_prod_unfold)
  qed simp
  then show ?thesis using n(2) ns(2) by (simp add: traces_def case_prod_unfold)
qed

definition echo_client :: "unit ienv" where
  "echo_client = \<lparr>i_open = (\<lambda>a s. (Done (), s)), i_close = (\<lambda>s. (Done (), s)),
     i_request = (\<lambda>m url body s. (Done \<lparr>i_status = 200, i_version = ustr ''HTTP/2'', i_encoding = Some (ustr ''gzip''),
       i_echo = Some m, i_text = ustr ''method='' @ m\<rparr>, s))\<rparr>"

definition sample_interop :: interop where
  "sample_interop = \<lparr>i_url = ustr ''https://s'', i_runtime = 5, i_clients = 1, i_mtls = False, i_enc = ustr ''gzip''\<rparr>"

definition echo_resp :: "pystr \<Rightarrow> iresp" where
  "echo_resp m = \<lparr>i_status = 200, i_version = ustr ''HTTP/2'', i_encoding = Some (ustr ''gzip''),
     i_echo = Some m, i_text = ustr ''method='' @ m\<rparr>"

definition echo_trace :: "iev list" where
  "echo_trace = map (\<lambda>m. IReq m (ustr ''https://s/echo'') (ibody m) (echo_resp m)) METHODS"

lemma echo_turn:
  "interop_turn echo_client sample_interop n w = (Done (n + 7), w\<lparr>trace := trace w @ echo_trace\<rparr>)"
proof -
  have mtls: "\<not> i_mtls sample_interop" by (simp add: sample_interop_def)
  have c: "check_response sample_interop m (echo_resp m) = None" for m
    by (simp add: check_response_def sample_interop_def echo_resp_def)
  have m: "interop_method echo_client sample_interop m n w =
      (Done (Suc n), w\<lparr>trace := trace w @ [IReq m (ustr ''https://s/echo'') (ibody m) (echo_resp m)]\<rparr>)" for m n w
    using c [of m] by (simp add: interop_method_def irequest_def cbind_def ccall_def creturn_def echo_client_def
        echo_resp_def sample_interop_def flip: ustr_append)
  show ?thesis
    by (simp add: interop_turn_def METHODS_def cbind_def m creturn_def mtls echo_trace_def)
qed

lemma echo_worker:
  "interop_worker echo_client sample_interop 5 \<lparr>clk = [0, 9], ext = (), trace = []\<rparr> =
   (Done 7, \<lparr>clk = [], ext = (), trace = echo_trace\<rparr>)"
  by (simp add: interop_worker_def cwith_def cbind_def ccall_def echo_client_def [THEN arg_cong, of i_open]
      echo_client_def [THEN arg_cong, of i_close] until_deadline_def guarded_until_def until_fuel_step echo_turn)

theorem interop_ok_counts_verified_witness:
  "interop_main (\<lambda>_. []) sample_interop
     (map (\<lambda>(ts, s). fst (interop_worker echo_client sample_interop 5 \<lparr>clk = ts, ext = s, trace = []\<rparr>)) [([0, 9], ())])
   = ([ok_line sample_interop 7], Done 0)"
proof -
  let ?rs = "map (\<lambda>(ts, s). fst (interop_worker echo_client sample_interop 5 \<lparr>clk = ts, ext = s, trace = []\<rparr>)) [([0, 9], ())]"
  obtain lines where m: "interop_main (\<lambda>_. []) sample_interop ?rs = (lines, Done 0)"
    by (simp add: interop_main_def echo_worker)
  have "length echo_trace = 7" by (simp add: echo_trace_def METHODS_def)
  with interop_ok_counts_verified [OF m] m show ?thesis by (simp add: echo_worker)
qed

end
