(* ===== verification/Nim_Prelude.thy ===== *)
theory Nim_Prelude
  imports Py_Text
begin

text \<open>
  What the Nim server library uses of its language, shared by the theories of the server:
  a \<open>string\<close>, a \<open>seq[char]\<close> and an \<open>openArray[char]\<close> are lists of bytes, a
  character literal is its byte, and the helpers on characters and buffers that
  several modules share (\<open>toLowerA\<close>, \<open>findByte\<close>, the case-insensitive comparison
  with a literal).
\<close>

named_theorems nim_text \<open>facts about the bytes of the server's wire formats\<close>

abbreviation byte_of :: "char \<Rightarrow> byte" where
  "byte_of c \<equiv> of_char c"

text \<open>\<open>c in 'A'..'Z'\<close> and \<open>c in '0'..'9'\<close>\<close>

definition upperA :: "byte \<Rightarrow> bool" where
  "upperA c \<longleftrightarrow> 65 \<le> c \<and> c \<le> 90"

definition digitA :: "byte \<Rightarrow> bool" where
  "digitA c \<longleftrightarrow> 48 \<le> c \<and> c \<le> 57"

definition toLowerA :: "byte \<Rightarrow> byte" where
  "toLowerA c = (if upperA c then c OR 0x20 else c)"

text \<open>A call that may raise, and the code that goes on with its result.\<close>

definition nbind :: "'e + 'a \<Rightarrow> ('a \<Rightarrow> 'e + 'b) \<Rightarrow> 'e + 'b" where
  "nbind r f = (case r of Inl e \<Rightarrow> Inl e | Inr a \<Rightarrow> f a)"

lemma nbind_simps [simp]:
  "nbind (Inl e) f = Inl e"
  "nbind (Inr a) f = f a"
  by (simp_all add: nbind_def)

lemma nbind_Inr_iff: "nbind r f = Inr b \<longleftrightarrow> (\<exists>a. r = Inr a \<and> f a = Inr b)"
  by (cases r) auto

lemma nbind_Inl_iff: "nbind r f = Inl e \<longleftrightarrow> r = Inl e \<or> (\<exists>a. r = Inr a \<and> f a = Inl e)"
  by (cases r) auto

text \<open>The range of \<open>int64\<close>, and an \<open>int64\<close> result with its wrap-around.\<close>

definition int64_high :: int where
  "int64_high = 2 ^ 63 - 1"

definition int64 :: "int \<Rightarrow> int" where
  "int64 x = (x + 2 ^ 63) mod 2 ^ 64 - 2 ^ 63"

lemma int64_id: "- (2 ^ 63) \<le> x \<Longrightarrow> x \<le> int64_high \<Longrightarrow> int64 x = x"
  unfolding int64_def int64_high_def by (subst mod_pos_pos_trivial) auto

text \<open>\<open>memchr\<close> over \<open>buf[start ..< endPos]\<close>; \<open>None\<close> stands for \<open>-1\<close>.\<close>

definition findByte :: "bytes \<Rightarrow> nat \<Rightarrow> nat \<Rightarrow> byte \<Rightarrow> nat option" where
  "findByte buf start endPos ch = List.find (\<lambda>i. buf ! i = ch) [start..<endPos]"

lemma unat_byte_of: "unat (byte_of c) = of_char c"
proof -
  have "byte_of c = of_nat (of_char c)" by (rule of_nat_of_char [symmetric])
  moreover have "(of_char c :: nat) < 256" by (rule nat_of_char_less_256)
  ultimately show ?thesis by (simp add: unat_of_nat_byte)
qed

lemma byte_of_eq_iff [simp]: "byte_of c = byte_of d \<longleftrightarrow> c = d"
  by (metis unat_byte_of inj_of_char_nat injD)

lemma bstr_eq_iff [simp]: "bstr s = bstr t \<longleftrightarrow> s = t"
  unfolding bstr_def by (simp add: inj_map_eq_map inj_on_def)

lemma bstr_Nil [simp]: "bstr [] = []" "bstr s = [] \<longleftrightarrow> s = []" "[] = bstr s \<longleftrightarrow> s = []"
  by (simp_all add: bstr_def)

lemma bstr_Cons [simp]: "bstr (c # s) ! 0 = byte_of c" "hd (bstr (c # s)) = byte_of c"
  by (simp_all add: bstr_def)

lemma all_bytes: "(\<forall>c :: byte. P c) \<longleftrightarrow> (\<forall>n < 256. P (of_nat n))"
proof
  assume a: "\<forall>n < 256. P (of_nat n)"
  show "\<forall>c :: byte. P c"
  proof
    fix c :: byte
    have "unat c < 256" by (rule unat_byte_less)
    then have "P (of_nat (unat c))" using a by blast
    then show "P c" by simp
  qed
qed auto

lemma upperA_cases:
  assumes "upperA c" "list_all (\<lambda>n. P (of_nat n)) [65..<91]"
  shows "P c"
proof -
  have "65 \<le> unat c" "unat c < 91" using assms(1) by (auto simp: upperA_def word_le_nat_alt)
  then have "unat c \<in> set [65..<91]" unfolding set_upt by simp
  then have "P (of_nat (unat c))" using assms(2) unfolding list_all_iff by blast
  then show ?thesis by simp
qed

lemma not_upperA_toLowerA [simp]: "\<not> upperA (toLowerA c)"
proof (cases "upperA c")
  case True
  have "list_all (\<lambda>n. \<not> upperA ((of_nat n :: byte) OR 0x20)) [65..<91]" by code_simp
  then have "\<not> upperA (c OR 0x20)" by (rule upperA_cases [OF True])
  then show ?thesis using True by (simp add: toLowerA_def)
qed (simp add: toLowerA_def)

lemma toLowerA_id: "\<not> upperA c \<Longrightarrow> toLowerA c = c"
  by (simp add: toLowerA_def)

lemma toLowerA_idem [simp]: "toLowerA (toLowerA c) = toLowerA c"
  by (simp add: toLowerA_id)

lemma findByte_Some_iff:
  "findByte buf s e ch = Some i \<longleftrightarrow>
     s \<le> i \<and> i < e \<and> buf ! i = ch \<and> (\<forall>k. s \<le> k \<and> k < i \<longrightarrow> buf ! k \<noteq> ch)"
proof -
  have "findByte buf s e ch = Some i \<longleftrightarrow>
      (\<exists>k < e - s. buf ! (s + k) = ch \<and> i = s + k \<and> (\<forall>j < k. buf ! (s + j) \<noteq> ch))"
    unfolding findByte_def find_Some_iff by auto
  also have "\<dots> \<longleftrightarrow> s \<le> i \<and> i < e \<and> buf ! i = ch \<and> (\<forall>k. s \<le> k \<and> k < i \<longrightarrow> buf ! k \<noteq> ch)"
  proof
    assume "\<exists>k < e - s. buf ! (s + k) = ch \<and> i = s + k \<and> (\<forall>j < k. buf ! (s + j) \<noteq> ch)"
    then show "s \<le> i \<and> i < e \<and> buf ! i = ch \<and> (\<forall>k. s \<le> k \<and> k < i \<longrightarrow> buf ! k \<noteq> ch)"
      by (auto simp: le_iff_add)
  next
    assume "s \<le> i \<and> i < e \<and> buf ! i = ch \<and> (\<forall>k. s \<le> k \<and> k < i \<longrightarrow> buf ! k \<noteq> ch)"
    then show "\<exists>k < e - s. buf ! (s + k) = ch \<and> i = s + k \<and> (\<forall>j < k. buf ! (s + j) \<noteq> ch)"
      by (intro exI [of _ "i - s"]) auto
  qed
  finally show ?thesis .
qed

lemma findByte_None_iff:
  "findByte buf s e ch = None \<longleftrightarrow> (\<forall>k. s \<le> k \<and> k < e \<longrightarrow> buf ! k \<noteq> ch)"
  unfolding findByte_def find_None_iff by auto

text \<open>More input after the searched range leaves the first occurrence where it was.\<close>

lemma findByte_mono:
  "findByte buf s e ch = Some i \<Longrightarrow> e \<le> e' \<Longrightarrow> findByte buf s e' ch = Some i"
  by (auto simp: findByte_Some_iff)

lemma findByte_cong:
  "(\<And>k. s \<le> k \<Longrightarrow> k < e \<Longrightarrow> buf ! k = buf' ! k) \<Longrightarrow> findByte buf s e ch = findByte buf' s e ch"
  unfolding findByte_def by (intro find_cong) auto

end
