(* ===== verification/Hpack.thy ===== *)
theory Hpack
  imports Hpack_Tables
begin

text \<open>
  \<open>src/vortex/http2/hpack.nim\<close>: the HPACK decoder (integers, strings, the Huffman code,
  the dynamic table, header blocks) and the encoder the server answers with. An exception
  of the source is a value of \<open>hpack_exn\<close>; a read beyond the buffer is its \<open>IndexDefect\<close>.
\<close>

datatype hpack_exn =
    TruncatedInteger | IntegerOverflow | IntegerTooLarge
  | TruncatedString | TruncatedStringData
  | InvalidHuffmanCode | EosInHuffmanString | BadHuffmanPadding
  | InvalidTableIndex int | IndexZero | HeaderListTooLarge
  | SizeUpdateAfterField | TableSizeAboveSettings
  | IndexDefect

record HpackDecoder =
  dt_entries :: "(bytes \<times> bytes) list"
  dt_size :: int
  dt_maxSize :: int
  dt_settingsMax :: int
  dt_maxDecoded :: int

definition initHpackDecoder :: "int \<Rightarrow> int \<Rightarrow> HpackDecoder" where
  "initHpackDecoder settingsMax maxDecoded =
     \<lparr>dt_entries = [], dt_size = 0, dt_maxSize = settingsMax, dt_settingsMax = settingsMax,
      dt_maxDecoded = maxDecoded\<rparr>"

section \<open>The Huffman decode tree\<close>

record HuffNode =
  huff_sym :: int
  huff_zero :: int
  huff_one :: int

definition huff_leaf :: HuffNode where
  "huff_leaf = \<lparr>huff_sym = - 1, huff_zero = - 1, huff_one = - 1\<rparr>"

definition huff_child :: "bool \<Rightarrow> HuffNode \<Rightarrow> int" where
  "huff_child b n = (if b then huff_one n else huff_zero n)"

definition set_huff_child :: "bool \<Rightarrow> int \<Rightarrow> HuffNode \<Rightarrow> HuffNode" where
  "set_huff_child b i n = (if b then n\<lparr>huff_one := i\<rparr> else n\<lparr>huff_zero := i\<rparr>)"

text \<open>\<open>for i in countdown(int(bits) - 1, 0)\<close>: the path of one code, its missing nodes added.\<close>

fun huff_add_path :: "int \<Rightarrow> nat \<Rightarrow> HuffNode list \<Rightarrow> nat \<Rightarrow> HuffNode list \<times> nat" where
  "huff_add_path code 0 nodes cur = (nodes, cur)"
| "huff_add_path code (Suc i) nodes cur =
     (let b = ((drop_bit i code) AND 1 \<noteq> 0);
          next = huff_child b (nodes ! cur) in
      if next < 0 then
        (let nodes = nodes @ [huff_leaf];
             next = length nodes - 1 in
         huff_add_path code i (nodes[cur := set_huff_child b (int next) (nodes ! cur)]) next)
      else huff_add_path code i nodes (nat next))"

definition huff_add_code :: "HuffNode list \<Rightarrow> nat \<times> int \<times> nat \<Rightarrow> HuffNode list" where
  "huff_add_code nodes p =
     (case p of (symb, code, bits) \<Rightarrow>
        case huff_add_path code bits nodes 0 of (nodes, cur) \<Rightarrow>
          nodes[cur := (nodes ! cur)\<lparr>huff_sym := int symb\<rparr>])"

definition huff_tree_of :: "(int \<times> nat) list \<Rightarrow> HuffNode list" where
  "huff_tree_of codes = foldl huff_add_code [huff_leaf] (enumerate 0 codes)"

definition huffTree :: "HuffNode list" where
  "huffTree = huff_tree_of huffmanCodes"

text \<open>The variables of \<open>huffmanDecode\<close>.\<close>

record huff_scan =
  hs_node :: nat
  hs_padOnes :: bool
  hs_depth :: nat
  hs_output :: bytes

definition huff_bit :: "HuffNode list \<Rightarrow> bool \<Rightarrow> huff_scan \<Rightarrow> hpack_exn + huff_scan" where
  "huff_bit tree b s =
     (let next = huff_child b (tree ! hs_node s) in
      if next < 0 then Inl InvalidHuffmanCode
      else
        let s = s\<lparr>hs_node := nat next, hs_padOnes := hs_padOnes s \<and> b, hs_depth := Suc (hs_depth s)\<rparr>;
            symb = huff_sym (tree ! hs_node s) in
        if 0 \<le> symb then
          (if symb = 256 then Inl EosInHuffmanString
           else Inr (s\<lparr>hs_output := hs_output s @ [of_int symb], hs_node := 0, hs_padOnes := True,
                  hs_depth := 0\<rparr>))
        else Inr s)"

fun huff_bits :: "HuffNode list \<Rightarrow> bool list \<Rightarrow> huff_scan \<Rightarrow> hpack_exn + huff_scan" where
  "huff_bits tree [] s = Inr s"
| "huff_bits tree (b # bs) s = nbind (huff_bit tree b s) (huff_bits tree bs)"

text \<open>\<open>for bitPos in countdown(7, 0)\<close>\<close>

definition byte_bits :: "byte \<Rightarrow> bool list" where
  "byte_bits w = map (\<lambda>i. (drop_bit i w) AND 1 \<noteq> 0) (rev [0..<8])"

fun huff_bytes :: "HuffNode list \<Rightarrow> bytes \<Rightarrow> nat \<Rightarrow> nat \<Rightarrow> huff_scan \<Rightarrow> hpack_exn + huff_scan" where
  "huff_bytes tree buf start 0 s = Inr s"
| "huff_bytes tree buf start (Suc len) s =
     (if length buf \<le> start then Inl IndexDefect
      else nbind (huff_bits tree (byte_bits (buf ! start)) s) (huff_bytes tree buf (Suc start) len))"

definition huffmanDecode :: "bytes \<Rightarrow> nat \<Rightarrow> nat \<Rightarrow> bytes \<Rightarrow> hpack_exn + bytes" where
  "huffmanDecode input start len output =
     nbind (huff_bytes huffTree input start len
              \<lparr>hs_node = 0, hs_padOnes = True, hs_depth = 0, hs_output = output\<rparr>) (\<lambda>s.
       if 7 < hs_depth s \<or> \<not> hs_padOnes s then Inl BadHuffmanPadding else Inr (hs_output s))"

section \<open>Primitive decoders\<close>

text \<open>\<open>pos\<close> is returned with the result.\<close>

function decode_int_loop :: "bytes \<Rightarrow> nat \<Rightarrow> nat \<Rightarrow> int \<Rightarrow> nat \<Rightarrow> hpack_exn + int \<times> nat" where
  "decode_int_loop buf pos endPos res shift =
     (if endPos \<le> pos then Inl TruncatedInteger
      else if 28 < shift then Inl IntegerOverflow
      else if length buf \<le> pos then Inl IndexDefect
      else
        let b = buf ! pos;
            res = int64 (res + push_bit shift (uint b AND 0x7f)) in
        if res < 0 \<or> 2 ^ 24 < res then Inl IntegerTooLarge
        else if b AND 0x80 = 0 then Inr (res, Suc pos)
        else decode_int_loop buf (Suc pos) endPos res (shift + 7))"
  by pat_completeness auto
termination
  by (relation "measure (\<lambda>(_, pos, endPos, _, _). endPos - pos)") auto

declare decode_int_loop.simps [simp del]

definition decodeInt :: "bytes \<Rightarrow> nat \<Rightarrow> nat \<Rightarrow> nat \<Rightarrow> hpack_exn + int \<times> nat" where
  "decodeInt buf pos endPos prefixBits =
     (if endPos \<le> pos then Inl TruncatedInteger
      else if length buf \<le> pos then Inl IndexDefect
      else
        let msk = 2 ^ prefixBits - 1;
            res = uint (buf ! pos) AND msk in
        if res < msk then Inr (res, Suc pos)
        else decode_int_loop buf (Suc pos) endPos res 0)"

definition decodeStr :: "bytes \<Rightarrow> nat \<Rightarrow> nat \<Rightarrow> nat \<Rightarrow> bytes \<Rightarrow> hpack_exn + bytes \<times> nat" where
  "decodeStr buf pos endPos prefixBits output =
     (if endPos \<le> pos then Inl TruncatedString
      else if length buf \<le> pos then Inl IndexDefect
      else
        let huffman = (buf ! pos AND (push_bit prefixBits 1) \<noteq> 0) in
        nbind (decodeInt buf pos endPos prefixBits) (\<lambda>(len, pos).
          if int endPos < int pos + len then Inl TruncatedStringData
          else if huffman then
            nbind (huffmanDecode buf pos (nat len) output) (\<lambda>output. Inr (output, pos + nat len))
          else if length buf < pos + nat len then Inl IndexDefect
          else Inr (output @ take (nat len) (drop pos buf), pos + nat len)))"

definition decodeString :: "bytes \<Rightarrow> nat \<Rightarrow> nat \<Rightarrow> bytes \<Rightarrow> hpack_exn + bytes \<times> nat" where
  "decodeString buf pos endPos output = decodeStr buf pos endPos 7 output"

section \<open>The dynamic table\<close>

definition entry_size :: "bytes \<times> bytes \<Rightarrow> int" where
  "entry_size e = (case e of (n, v) \<Rightarrow> int (length n) + int (length v) + 32)"

function evict :: "HpackDecoder \<Rightarrow> HpackDecoder" where
  "evict d =
     (if dt_maxSize d < dt_size d \<and> 0 < length (dt_entries d) then
        evict (d\<lparr>dt_entries := butlast (dt_entries d),
                 dt_size := dt_size d - entry_size (last (dt_entries d))\<rparr>)
      else d)"
  by pat_completeness auto
termination
  by (relation "measure (\<lambda>d. length (dt_entries d))") auto

declare evict.simps [simp del]

definition addEntry :: "HpackDecoder \<Rightarrow> bytes \<Rightarrow> bytes \<Rightarrow> HpackDecoder" where
  "addEntry d name value =
     evict (d\<lparr>dt_size := dt_size d + entry_size (name, value), dt_entries := (name, value) # dt_entries d\<rparr>)"

definition hpack_lookup :: "HpackDecoder \<Rightarrow> int \<Rightarrow> hpack_exn + bytes \<times> bytes" where
  "hpack_lookup d idx =
     (if 1 \<le> idx \<and> idx \<le> 61 then Inr (hpackStaticTable ! nat (idx - 1))
      else if 62 \<le> idx \<and> idx - 62 < int (length (dt_entries d)) then Inr (dt_entries d ! nat (idx - 62))
      else Inl (InvalidTableIndex idx))"

section \<open>Header blocks\<close>

text \<open>The variables of \<open>decodeHeaderBlock\<close> beside \<open>pos\<close>.\<close>

record block_state =
  bs_dec :: HpackDecoder
  bs_seenHeader :: bool
  bs_decoded :: int
  bs_headers :: "(bytes \<times> bytes) list"

text \<open>The template \<open>accrue\<close> and the \<open>headers.add\<close> that follows it.\<close>

definition accrue :: "bytes \<times> bytes \<Rightarrow> block_state \<Rightarrow> hpack_exn + block_state" where
  "accrue e s =
     (let decoded = bs_decoded s + entry_size e in
      if 0 < dt_maxDecoded (bs_dec s) \<and> dt_maxDecoded (bs_dec s) < decoded then Inl HeaderListTooLarge
      else Inr (s\<lparr>bs_decoded := decoded\<rparr>))"

definition add_header :: "bytes \<times> bytes \<Rightarrow> block_state \<Rightarrow> block_state" where
  "add_header e s = s\<lparr>bs_headers := bs_headers s @ [e], bs_seenHeader := True\<rparr>"

definition literal_field ::
  "bytes \<Rightarrow> nat \<Rightarrow> nat \<Rightarrow> nat \<Rightarrow> HpackDecoder \<Rightarrow> hpack_exn + (bytes \<times> bytes) \<times> nat" where
  "literal_field buf pos endPos prefixBits d =
     nbind (decodeInt buf pos endPos prefixBits) (\<lambda>(nameIdx, pos).
       nbind (if nameIdx = 0 then decodeString buf pos endPos []
              else nbind (hpack_lookup d nameIdx) (\<lambda>(n, _). Inr (n, pos))) (\<lambda>(name, pos).
         nbind (decodeString buf pos endPos []) (\<lambda>(value, pos). Inr ((name, value), pos))))"

text \<open>One turn of \<open>while pos < endPos\<close>. A turn that raises has not touched the state.\<close>

definition decode_field ::
  "bytes \<Rightarrow> nat \<Rightarrow> nat \<Rightarrow> block_state \<Rightarrow> hpack_exn + nat \<times> block_state" where
  "decode_field buf pos endPos s =
     (if length buf \<le> pos then Inl IndexDefect
      else
        let b = buf ! pos; d = bs_dec s in
        if b AND 0x80 \<noteq> 0 then
          nbind (decodeInt buf pos endPos 7) (\<lambda>(idx, pos).
            if idx = 0 then Inl IndexZero
            else nbind (hpack_lookup d idx) (\<lambda>e.
              nbind (accrue e s) (\<lambda>s. Inr (pos, add_header e s))))
        else if b AND 0xc0 = 0x40 then
          nbind (literal_field buf pos endPos 6 d) (\<lambda>(e, pos).
            nbind (accrue e s) (\<lambda>s.
              Inr (pos, add_header e (s\<lparr>bs_dec := addEntry (bs_dec s) (fst e) (snd e)\<rparr>))))
        else if b AND 0xe0 = 0x20 then
          (if bs_seenHeader s then Inl SizeUpdateAfterField
           else nbind (decodeInt buf pos endPos 5) (\<lambda>(newMax, pos).
             if dt_settingsMax d < newMax then Inl TableSizeAboveSettings
             else Inr (pos, s\<lparr>bs_dec := evict (d\<lparr>dt_maxSize := newMax\<rparr>)\<rparr>)))
        else
          nbind (literal_field buf pos endPos 4 d) (\<lambda>(e, pos).
            nbind (accrue e s) (\<lambda>s. Inr (pos, add_header e s))))"

lemma decode_int_loop_result:
  "decode_int_loop buf pos endPos res shift = Inr (r, p) \<Longrightarrow>
   pos < p \<and> p \<le> endPos \<and> p \<le> length buf \<and> 0 \<le> r \<and> r \<le> 2 ^ 24"
proof (induction buf pos endPos res shift rule: decode_int_loop.induct)
  case (1 buf pos endPos res shift)
  let ?r = "int64 (res + push_bit shift (uint (buf ! pos) AND 0x7f))"
  from "1.prems" have c: "\<not> endPos \<le> pos" "\<not> 28 < shift" "\<not> length buf \<le> pos" "\<not> (?r < 0 \<or> 2 ^ 24 < ?r)"
    by (subst (asm) decode_int_loop.simps; auto simp: Let_def split: if_splits)+
  show ?case
  proof (cases "buf ! pos AND 0x80 = 0")
    case True
    then have "r = ?r" "p = Suc pos"
      using "1.prems" c by (subst (asm) (1) decode_int_loop.simps; simp add: Let_def)+
    then show ?thesis using c by auto
  next
    case False
    then have "decode_int_loop buf (Suc pos) endPos ?r (shift + 7) = Inr (r, p)"
      using "1.prems" c by (subst (asm) (1) decode_int_loop.simps) (simp add: Let_def)
    then show ?thesis using "1.IH" [OF c(1,2,3) refl refl c(4) False] by auto
  qed
qed

lemma decodeInt_result:
  "decodeInt buf pos endPos n = Inr (r, p) \<Longrightarrow>
   pos < p \<and> p \<le> endPos \<and> p \<le> length buf \<and> 0 \<le> r \<and> r \<le> max (2 ^ 24) (2 ^ n)"
  by (auto simp: decodeInt_def Let_def split: if_splits dest!: decode_int_loop_result)

lemma decodeStr_result:
  "decodeStr buf pos endPos n out = Inr (s, p) \<Longrightarrow> pos < p \<and> p \<le> endPos"
  by (auto simp: decodeStr_def Let_def nbind_Inr_iff split: if_splits dest!: decodeInt_result)

lemma literal_field_result:
  "literal_field buf pos endPos n d = Inr (e, p) \<Longrightarrow> pos < p \<and> p \<le> endPos"
  by (auto simp: literal_field_def decodeString_def nbind_Inr_iff split: if_splits
      dest!: decodeInt_result decodeStr_result)

lemma decode_field_result:
  "decode_field buf pos endPos s = Inr (p, s') \<Longrightarrow> pos < p \<and> p \<le> endPos"
  by (auto simp: decode_field_def Let_def nbind_Inr_iff split: if_splits
      dest!: decodeInt_result literal_field_result)

text \<open>The outcome, and the decoder and the headers as the block left them.\<close>

function decode_block_loop ::
  "bytes \<Rightarrow> nat \<Rightarrow> nat \<Rightarrow> block_state \<Rightarrow> hpack_exn option \<times> block_state" where
  "decode_block_loop buf pos endPos s =
     (if pos < endPos then
        (case decode_field buf pos endPos s of
           Inl e \<Rightarrow> (Some e, s)
         | Inr (pos, s) \<Rightarrow> decode_block_loop buf pos endPos s)
      else (None, s))"
  by pat_completeness auto
termination
  by (relation "measure (\<lambda>(_, pos, endPos, _). endPos - pos)") (auto dest: decode_field_result)

declare decode_block_loop.simps [simp del]

definition decodeHeaderBlock ::
  "HpackDecoder \<Rightarrow> bytes \<Rightarrow> nat \<Rightarrow> nat \<Rightarrow> (bytes \<times> bytes) list \<Rightarrow>
   hpack_exn option \<times> HpackDecoder \<times> (bytes \<times> bytes) list" where
  "decodeHeaderBlock d buf start endPos headers =
     (case decode_block_loop buf start endPos
             \<lparr>bs_dec = d, bs_seenHeader = False, bs_decoded = 0, bs_headers = headers\<rparr> of
        (r, s) \<Rightarrow> (r, bs_dec s, bs_headers s))"

section \<open>Encoding\<close>

function encode_int_loop :: "bytes \<Rightarrow> nat \<Rightarrow> bytes" where
  "encode_int_loop buf v =
     (if 128 \<le> v then encode_int_loop (buf @ [of_nat (v AND 0x7f) OR 0x80]) (drop_bit 7 v)
      else buf @ [of_nat v])"
  by pat_completeness auto
termination
  by (relation "measure snd") (auto simp: drop_bit_eq_div)

declare encode_int_loop.simps [simp del]

definition encodeInt :: "bytes \<Rightarrow> nat \<Rightarrow> nat \<Rightarrow> byte \<Rightarrow> bytes" where
  "encodeInt buf value prefixBits firstByte =
     (let msk = 2 ^ prefixBits - 1 in
      if value < msk then buf @ [firstByte OR of_nat value]
      else encode_int_loop (buf @ [firstByte OR of_nat msk]) (value - msk))"

definition encodeRawString :: "bytes \<Rightarrow> bytes \<Rightarrow> bytes" where
  "encodeRawString buf s = encodeInt buf (length s) 7 0x00 @ s"

definition static_index_cases :: "(string \<times> nat) list" where
  "static_index_cases = [
     ('':authority'', 1), ('':method'', 2), ('':path'', 4),
     ('':scheme'', 6), ('':status'', 8), (''accept-charset'', 15),
     (''accept-encoding'', 16), (''accept-language'', 17), (''accept-ranges'', 18),
     (''accept'', 19), (''access-control-allow-origin'', 20), (''age'', 21),
     (''allow'', 22), (''authorization'', 23), (''cache-control'', 24),
     (''content-disposition'', 25), (''content-encoding'', 26), (''content-language'', 27),
     (''content-length'', 28), (''content-location'', 29), (''content-range'', 30),
     (''content-type'', 31), (''cookie'', 32), (''date'', 33),
     (''etag'', 34), (''expect'', 35), (''expires'', 36),
     (''from'', 37), (''host'', 38), (''if-match'', 39),
     (''if-modified-since'', 40), (''if-none-match'', 41), (''if-range'', 42),
     (''if-unmodified-since'', 43), (''last-modified'', 44), (''link'', 45),
     (''location'', 46), (''max-forwards'', 47), (''proxy-authenticate'', 48),
     (''proxy-authorization'', 49), (''range'', 50), (''referer'', 51),
     (''refresh'', 52), (''retry-after'', 53), (''server'', 54),
     (''set-cookie'', 55), (''strict-transport-security'', 56), (''transfer-encoding'', 57),
     (''user-agent'', 58), (''vary'', 59), (''via'', 60),
     (''www-authenticate'', 61)]"

definition staticIndexOf :: "bytes \<Rightarrow> nat" where
  "staticIndexOf name =
     (case map_of (map (\<lambda>(n, i). (bstr n, i)) static_index_cases) name of None \<Rightarrow> 0 | Some i \<Rightarrow> i)"

definition encodeStatus :: "bytes \<Rightarrow> nat \<Rightarrow> bytes" where
  "encodeStatus buf status =
     (let idx =
        (if status = 200 then 8 else if status = 204 then 9 else if status = 206 then 10
         else if status = 304 then 11 else if status = 400 then 12 else if status = 404 then 13
         else if status = 500 then 14 else 0) in
      if 0 < idx then encodeInt buf idx 7 0x80
      else encodeRawString (encodeInt buf 8 4 0x00) (map of_nat (dec status)))"

definition encodeHeader :: "bytes \<Rightarrow> bytes \<Rightarrow> bytes \<Rightarrow> bytes" where
  "encodeHeader buf name value =
     (let idx = staticIndexOf name;
          buf = (if 0 < idx then encodeInt buf idx 4 0x00
                 else encodeRawString (encodeInt buf 0 4 0x00) name) in
      encodeRawString buf value)"

end
