(* ===== verification/Hpack_Props.thy ===== *)
theory Hpack_Props
  imports Hpack
begin

text \<open>
  What the HPACK codec promises: integers survive the wire and are bounded, the decoder
  reads nothing outside its buffer, the dynamic table and the decoded list stay within
  their limits whatever the peer sends.
\<close>

section \<open>Integers\<close>

function int_tail :: "nat \<Rightarrow> bytes" where
  "int_tail v = (if 128 \<le> v then (of_nat (v mod 128) OR 0x80) # int_tail (v div 128) else [of_nat v])"
  by pat_completeness auto
termination
  by (relation "measure id") auto

declare int_tail.simps [simp del]

lemma and_7f_mod: "(v :: nat) AND 0x7f = v mod 128"
  using take_bit_eq_mask [of 7 v] by (simp add: take_bit_eq_mod mask_eq_exp_minus_1)

lemma encode_int_loop_tail: "encode_int_loop buf v = buf @ int_tail v"
proof (induction buf v rule: encode_int_loop.induct)
  case (1 buf v)
  then show ?case
    by (subst encode_int_loop.simps, subst int_tail.simps) (simp add: and_7f_mod drop_bit_eq_div)
qed

lemma int_tail_neq_Nil [simp]: "int_tail v \<noteq> []"
  by (subst int_tail.simps) simp

lemma more_byte:
  "x < 128 \<Longrightarrow> uint (of_nat x OR 0x80 :: byte) AND 0x7f = int x"
  "x < 128 \<Longrightarrow> (of_nat x OR 0x80 :: byte) AND 0x80 \<noteq> 0"
  "x < 128 \<Longrightarrow> uint (of_nat x :: byte) AND 0x7f = int x"
  "x < 128 \<Longrightarrow> (of_nat x :: byte) AND 0x80 = 0"
proof -
  have *: "\<forall>x \<in> set [0..<128]. uint (of_nat x OR 0x80 :: byte) AND 0x7f = int x \<and>
      (of_nat x OR 0x80 :: byte) AND 0x80 \<noteq> 0 \<and> uint (of_nat x :: byte) AND 0x7f = int x \<and>
      (of_nat x :: byte) AND 0x80 = 0"
    by code_simp
  assume "x < 128"
  then have "x \<in> set [0..<128]" by simp
  then show "uint (of_nat x OR 0x80 :: byte) AND 0x7f = int x"
    "(of_nat x OR 0x80 :: byte) AND 0x80 \<noteq> 0" "uint (of_nat x :: byte) AND 0x7f = int x"
    "(of_nat x :: byte) AND 0x80 = 0"
    using * by blast+
qed

lemma int64_shifted:
  assumes "0 \<le> res" "res \<le> 2 ^ 24" "shift \<le> 28" "x < 128"
  shows "int64 (res + push_bit shift (int x)) = res + int x * 2 ^ shift"
proof -
  define y where "y = int x * 2 ^ shift"
  have "(2 :: int) ^ shift \<le> 2 ^ 28" using assms(3) by (intro power_increasing) auto
  then have "y \<le> 127 * 2 ^ 28" unfolding y_def using assms(4) by (intro mult_mono) auto
  moreover have "0 \<le> y" by (simp add: y_def)
  ultimately have "- (2 ^ 63) \<le> res + y" "res + y \<le> int64_high"
    using assms(1,2) by (simp_all add: int64_high_def)
  then show ?thesis unfolding push_bit_eq_mult y_def by (rule int64_id)
qed

lemma int_tail_step:
  assumes "128 \<le> v"
  shows "int_tail v = (of_nat (v mod 128) OR 0x80) # int_tail (v div 128)"
  using assms by (subst int_tail.simps) simp

lemma int_tail_last: "v < 128 \<Longrightarrow> int_tail v = [of_nat v]"
  by (subst int_tail.simps) simp

lemma split_digit: "int v * 2 ^ shift = int (v mod 128) * 2 ^ shift + int (v div 128) * 2 ^ (shift + 7)"
proof -
  have "int v = int (v mod 128) + int (v div 128) * 128" by presburger
  then show ?thesis by (simp add: algebra_simps power_add)
qed

text \<open>One turn of the loop over an encoded number.\<close>

lemma decode_int_turn:
  assumes "0 \<le> res" "res \<le> 2 ^ 24" "shift \<le> 28" "length pre < endPos" "128 \<le> v"
  shows "decode_int_loop (pre @ int_tail v @ rest) (length pre) endPos res shift =
    (if 2 ^ 24 < res + int (v mod 128) * 2 ^ shift then Inl IntegerTooLarge
     else decode_int_loop (pre @ int_tail v @ rest) (Suc (length pre)) endPos
       (res + int (v mod 128) * 2 ^ shift) (shift + 7))"
proof -
  have "\<not> res + int (v mod 128) * 2 ^ shift < 0"
    using assms(1) by (simp add: not_less)
  then show ?thesis
    using assms int64_shifted [OF assms(1-3), of "v mod 128"]
    by (subst decode_int_loop.simps)
      (simp add: int_tail_step nth_append more_byte Let_def del: push_bit_and)
qed

lemma decode_int_last:
  assumes "0 \<le> res" "res \<le> 2 ^ 24" "shift \<le> 28" "length pre < endPos" "v < 128"
  shows "decode_int_loop (pre @ int_tail v @ rest) (length pre) endPos res shift =
    (if 2 ^ 24 < res + int v * 2 ^ shift then Inl IntegerTooLarge
     else Inr (res + int v * 2 ^ shift, Suc (length pre)))"
  using assms int64_shifted [OF assms(1-3,5)]
  by (subst decode_int_loop.simps)
    (simp add: int_tail_last nth_append more_byte Let_def not_less del: push_bit_and)

lemma int_tail_cons_append:
  "128 \<le> v \<Longrightarrow> pre @ int_tail v @ rest =
     (pre @ [of_nat (v mod 128) OR 0x80]) @ int_tail (v div 128) @ rest"
  by (simp add: int_tail_step)

lemma decode_int_tail:
  assumes "0 \<le> res" "res + int v * 2 ^ shift \<le> 2 ^ 24" "shift \<le> 28"
    "length pre + length (int_tail v) \<le> endPos"
  shows "decode_int_loop (pre @ int_tail v @ rest) (length pre) endPos res shift =
    Inr (res + int v * 2 ^ shift, length pre + length (int_tail v))"
  using assms
proof (induction v arbitrary: res shift pre rule: int_tail.induct)
  case (1 v)
  have res: "res \<le> 2 ^ 24" using "1.prems"(2) by (smt (verit) of_nat_0_le_iff zero_le_mult_iff zero_le_power)
  have pos: "length pre < endPos" using "1.prems"(4) by (subst (asm) int_tail.simps) (simp split: if_splits)
  show ?case
  proof (cases "128 \<le> v")
    case True
    let ?res = "res + int (v mod 128) * 2 ^ shift" and ?pre = "pre @ [of_nat (v mod 128) OR 0x80]"
    have tot: "?res + int (v div 128) * 2 ^ (shift + 7) = res + int v * 2 ^ shift"
      using split_digit [of v shift] by simp
    have "(2 :: int) ^ (shift + 7) \<le> int (v div 128) * 2 ^ (shift + 7)"
      using True by simp
    also have "\<dots> \<le> 2 ^ 24" using tot "1.prems"(1,2) by (smt (verit) of_nat_0_le_iff zero_le_mult_iff zero_le_power)
    finally have sh: "shift + 7 \<le> 28" using power_le_imp_le_exp [of "2 :: int" "shift + 7" 24] by simp
    have le: "?res \<le> 2 ^ 24" using tot "1.prems"(2) by (smt (verit) of_nat_0_le_iff zero_le_mult_iff zero_le_power)
    have "decode_int_loop (?pre @ int_tail (v div 128) @ rest) (length ?pre) endPos ?res (shift + 7) =
        Inr (?res + int (v div 128) * 2 ^ (shift + 7), length ?pre + length (int_tail (v div 128)))"
      using True "1.prems"(1,2,4) tot sh
      by (intro "1.IH") (simp_all add: int_tail_step)
    then show ?thesis
      using True le decode_int_turn [OF "1.prems"(1) res "1.prems"(3) pos True, of rest] tot
      by (simp add: int_tail_cons_append [OF True] int_tail_step)
  next
    case False
    then show ?thesis
      using decode_int_last [OF "1.prems"(1) res "1.prems"(3) pos, of v rest] "1.prems"(2)
      by (simp add: int_tail_last)
  qed
qed

lemma decode_int_tail_sound:
  assumes "decode_int_loop (pre @ int_tail v @ rest) (length pre) endPos res shift = Inr (r, p)"
    "0 \<le> res" "res \<le> 2 ^ 24"
  shows "r = res + int v * 2 ^ shift"
  using assms
proof (induction v arbitrary: res shift pre rule: int_tail.induct)
  case (1 v)
  have c: "length pre < endPos" "shift \<le> 28"
    using "1.prems"(1) by (subst (asm) decode_int_loop.simps; simp split: if_splits)+
  show ?case
  proof (cases "128 \<le> v")
    case True
    let ?res = "res + int (v mod 128) * 2 ^ shift" and ?pre = "pre @ [of_nat (v mod 128) OR 0x80]"
    have le: "?res \<le> 2 ^ 24" and
      "decode_int_loop (?pre @ int_tail (v div 128) @ rest) (length ?pre) endPos ?res (shift + 7) = Inr (r, p)"
      using "1.prems"(1) decode_int_turn [OF "1.prems"(2,3) c(2,1) True, of rest]
      by (auto simp: int_tail_cons_append [OF True] split: if_splits)
    then have "r = ?res + int (v div 128) * 2 ^ (shift + 7)"
      using "1.prems"(2) by (intro "1.IH" [OF True, where pre = ?pre]) auto
    then show ?thesis using split_digit [of v shift] by simp
  next
    case False
    then show ?thesis
      using "1.prems"(1) decode_int_last [OF "1.prems"(2,3) c(2,1), of v rest] by (simp split: if_splits)
  qed
qed

text \<open>The first byte: the low bits hold the value or all ones, the others are the caller's.\<close>

lemma first_byte_low:
  assumes "fb AND mask n = 0" "x < 2 ^ n" "n \<le> 8"
  shows "uint (fb OR of_nat x :: byte) AND (2 ^ n - 1) = int x"
proof -
  have "take_bit n fb = 0" using assms(1) by (simp add: take_bit_eq_mask)
  moreover have "take_bit n (of_nat x :: byte) = of_nat x"
    using assms(2) by (simp add: take_bit_of_nat take_bit_nat_eq_self)
  ultimately have low: "take_bit n (fb OR of_nat x) = (of_nat x :: byte)" by simp
  have "uint (fb OR of_nat x :: byte) AND mask n = take_bit n (uint (fb OR of_nat x :: byte))"
    by (simp add: take_bit_eq_mask)
  also have "\<dots> = uint (of_nat x :: byte)"
    by (simp only: unsigned_take_bit_eq [symmetric] low)
  also have "uint (of_nat x :: byte) = int x"
    using assms(2,3) power_increasing [of n 8 "2 :: nat"] by (simp add: uint_nat unat_of_nat_byte)
  finally show ?thesis by (simp add: mask_eq_exp_minus_1)
qed

lemma decodeInt_encodeInt:
  assumes "fb AND mask n = 0" "1 \<le> n" "n \<le> 8" "int v \<le> 2 ^ 24"
    "length (encodeInt pre v n fb) \<le> endPos"
  shows "decodeInt (encodeInt pre v n fb @ rest) (length pre) endPos n =
    Inr (int v, length (encodeInt pre v n fb))"
proof (cases "v < 2 ^ n - 1")
  case True
  then have "uint (fb OR of_nat v) AND (2 ^ n - 1) = int v"
    using assms(1,3) by (intro first_byte_low) auto
  moreover have "int v < 2 ^ n - 1"
  proof -
    have "int v < int (2 ^ n - 1)" using True by (simp only: of_nat_less_iff)
    then show ?thesis by (simp add: of_nat_diff)
  qed
  ultimately show ?thesis using True assms(5)
    by (simp add: encodeInt_def decodeInt_def Let_def nth_append)
next
  case False
  let ?m = "2 ^ n - 1 :: nat" and ?pre = "pre @ [fb OR of_nat (2 ^ n - 1)]"
  have m: "uint (fb OR of_nat ?m) AND (2 ^ n - 1) = int ?m"
    using assms(1,3) by (intro first_byte_low) auto
  have enc: "encodeInt pre v n fb = ?pre @ int_tail (v - ?m)"
    using False by (simp add: encodeInt_def Let_def encode_int_loop_tail)
  have "decode_int_loop (?pre @ int_tail (v - ?m) @ rest) (length ?pre) endPos (int ?m) 0 =
      Inr (int ?m + int (v - ?m) * 2 ^ 0, length ?pre + length (int_tail (v - ?m)))"
    using assms(4,5) False enc by (intro decode_int_tail) (simp_all add: of_nat_diff)
  moreover have "int ?m + int (v - ?m) = int v" using False by simp
  moreover have "int ?m = 2 ^ n - 1" by (simp add: of_nat_diff)
  ultimately show ?thesis unfolding enc using m assms(5) enc
    by (simp add: decodeInt_def Let_def nth_append)
qed

lemma decodeInt_too_large:
  assumes "fb AND mask n = 0" "1 \<le> n" "n \<le> 8" "2 ^ 24 < int v"
  shows "\<exists>e. decodeInt (encodeInt pre v n fb @ rest) (length pre) endPos n = Inl e"
proof (cases "decodeInt (encodeInt pre v n fb @ rest) (length pre) endPos n")
  case (Inr a)
  obtain r p where a: "a = (r, p)" by (cases a)
  let ?m = "2 ^ n - 1 :: nat" and ?pre = "pre @ [fb OR of_nat (2 ^ n - 1)]"
  have m: "uint (fb OR of_nat ?m) AND (2 ^ n - 1) = int ?m"
    using assms(1,3) by (intro first_byte_low) auto
  have "(2 :: nat) ^ n \<le> 2 ^ 8" using assms(3) by (intro power_increasing) auto
  then have m255: "?m \<le> 255" by simp
  have "16777216 < int v" using assms(4) by simp
  then have "\<not> v < ?m" using m255 by linarith
  moreover have "int ?m \<le> int 255" using m255 by (simp only: of_nat_le_iff)
  then have "int ?m \<le> 2 ^ 24" by (rule order_trans) simp
  ultimately have big: "\<not> v < ?m" "int ?m \<le> 2 ^ 24" by blast+
  then have enc: "encodeInt pre v n fb = ?pre @ int_tail (v - ?m)"
    by (simp add: encodeInt_def Let_def encode_int_loop_tail)
  have "int ?m = 2 ^ n - 1" by (simp add: of_nat_diff)
  then have d: "decode_int_loop (?pre @ int_tail (v - ?m) @ rest) (length ?pre) endPos (int ?m) 0 = Inr (r, p)"
    using Inr m unfolding enc a by (simp add: decodeInt_def Let_def nth_append split: if_splits)
  have "r = int ?m + int (v - ?m) * 2 ^ 0" by (rule decode_int_tail_sound [OF d]) (use big in auto)
  then have "r = int v" using big(1) by simp
  then show ?thesis using decode_int_loop_result [OF d] assms(4) by simp
qed blast

text \<open>An integer the encoder writes is the integer the decoder reads. With any prefix of one to
  eight bits, any first byte whose prefix bits are free and any bytes before and after, the
  decoder returns the value and the position behind it when the value is at most two to the 24,
  and refuses every larger one, so a length or an index of a peer is never larger than that.
\<close>

theorem hpack_integer_roundtrip:
  assumes "fb AND mask n = 0" and "1 \<le> n" and "n \<le> 8"
    and "length (encodeInt pre v n fb) \<le> endPos"
  shows "(int v \<le> 2 ^ 24 \<longrightarrow>
      decodeInt (encodeInt pre v n fb @ rest) (length pre) endPos n =
        Inr (int v, length (encodeInt pre v n fb))) \<and>
    (2 ^ 24 < int v \<longrightarrow>
      (\<exists>e. decodeInt (encodeInt pre v n fb @ rest) (length pre) endPos n = Inl e))"
  using decodeInt_encodeInt [OF assms(1-3) _ assms(4)] decodeInt_too_large [OF assms(1-3)] by blast

theorem hpack_integer_roundtrip_witness:
  "decodeInt (encodeInt [0x10] 1337 5 0xe0 @ [0x2a]) 1 5 5 = Inr (1337, 4)"
proof -
  have len: "length (encodeInt [0x10] 1337 5 0xe0) = 4" by code_simp
  have "(0xe0 :: byte) AND mask 5 = 0" by (simp add: mask_eq_exp_minus_1)
  then show ?thesis
    using hpack_integer_roundtrip [of "0xe0" 5 "[0x10]" 1337 5 "[0x2a]"] len by simp
qed

section \<open>Nothing outside the buffer\<close>

lemma decode_int_loop_in_range:
  "endPos \<le> length buf \<Longrightarrow> decode_int_loop buf pos endPos res shift \<noteq> Inl IndexDefect"
proof (induction buf pos endPos res shift rule: decode_int_loop.induct)
  case (1 buf pos endPos res shift)
  then show ?case by (subst decode_int_loop.simps) (auto simp: Let_def)
qed

lemma decodeInt_in_range: "endPos \<le> length buf \<Longrightarrow> decodeInt buf pos endPos n \<noteq> Inl IndexDefect"
  by (auto simp: decodeInt_def Let_def decode_int_loop_in_range)

lemma huff_bits_in_range: "huff_bits tree bs s \<noteq> Inl IndexDefect"
  by (induction bs arbitrary: s) (auto simp: nbind_Inl_iff huff_bit_def Let_def split: if_splits)

lemma huff_bytes_in_range:
  "start + len \<le> length buf \<Longrightarrow> huff_bytes tree buf start len s \<noteq> Inl IndexDefect"
  by (induction len arbitrary: start s) (auto simp: nbind_Inl_iff huff_bits_in_range)

lemma decodeStr_in_range:
  assumes "endPos \<le> length buf"
  shows "decodeStr buf pos endPos n out \<noteq> Inl IndexDefect"
proof
  assume "decodeStr buf pos endPos n out = Inl IndexDefect"
  then obtain len p where d: "decodeInt buf pos endPos n = Inr (len, p)" "\<not> int endPos < int p + len"
      "huffmanDecode buf p (nat len) out = Inl IndexDefect \<or> length buf < p + nat len"
    using assms decodeInt_in_range [OF assms, of pos n]
    by (auto simp: decodeStr_def Let_def nbind_Inl_iff split: if_splits)
  have "p + nat len \<le> length buf" using d(2) decodeInt_result [OF d(1)] assms by linarith
  then show False using d(3) huff_bytes_in_range
    by (auto simp: huffmanDecode_def nbind_Inl_iff split: if_splits)
qed

lemma decode_field_in_range:
  "endPos \<le> length buf \<Longrightarrow> pos < endPos \<Longrightarrow> decode_field buf pos endPos s \<noteq> Inl IndexDefect"
  by (auto simp: decode_field_def literal_field_def decodeString_def hpack_lookup_def accrue_def Let_def
      nbind_Inl_iff decodeInt_in_range decodeStr_in_range split: if_splits)

section \<open>The limits of the decoder\<close>

definition table_ok :: "HpackDecoder \<Rightarrow> bool" where
  "table_ok d \<longleftrightarrow> dt_size d = sum_list (map entry_size (dt_entries d)) \<and>
     dt_size d \<le> dt_maxSize d \<and> 0 \<le> dt_maxSize d \<and> dt_maxSize d \<le> dt_settingsMax d"

lemma sum_entry_butlast:
  "xs \<noteq> [] \<Longrightarrow> sum_list (map entry_size (butlast xs)) = sum_list (map entry_size xs) - entry_size (last xs)"
  by (induction xs rule: rev_induct) auto

text \<open>Eviction drops entries from the old end, exactly until the rest fits.\<close>

lemma evict_ok:
  assumes "dt_size d = sum_list (map entry_size (dt_entries d))" "0 \<le> dt_maxSize d"
    "dt_maxSize d \<le> dt_settingsMax d"
  shows "table_ok (evict d) \<and> dt_settingsMax (evict d) = dt_settingsMax d \<and>
    dt_maxDecoded (evict d) = dt_maxDecoded d \<and> dt_maxSize (evict d) = dt_maxSize d \<and>
    (\<exists>k. dt_entries (evict d) = take k (dt_entries d))"
  using assms
proof (induction d rule: evict.induct)
  case (1 d)
  show ?case
  proof (cases "dt_maxSize d < dt_size d \<and> 0 < length (dt_entries d)")
    case True
    let ?d = "d\<lparr>dt_entries := butlast (dt_entries d), dt_size := dt_size d - entry_size (last (dt_entries d))\<rparr>"
    have e: "evict d = evict ?d" using True by (subst evict.simps) simp
    have "dt_size ?d = sum_list (map entry_size (dt_entries ?d))"
      using "1.prems"(1) True by (simp add: sum_entry_butlast)
    then have "table_ok (evict ?d) \<and> dt_settingsMax (evict ?d) = dt_settingsMax ?d \<and>
      dt_maxDecoded (evict ?d) = dt_maxDecoded ?d \<and> dt_maxSize (evict ?d) = dt_maxSize ?d \<and>
      (\<exists>k. dt_entries (evict ?d) = take k (dt_entries ?d))"
      using "1.prems"(2,3) by (intro "1.IH" [OF True]) simp_all
    then show ?thesis unfolding e by (auto simp: butlast_conv_take)
  next
    case False
    then have e: "evict d = d" by (subst evict.simps) (rule if_not_P)
    have "dt_size d \<le> dt_maxSize d" using False "1.prems" by auto
    then show ?thesis unfolding e using "1.prems" by (auto simp: table_ok_def intro: exI [of _ "length (dt_entries d)"])
  qed
qed

lemma entry_size_pos: "0 < entry_size e"
  by (cases e) (simp add: entry_size_def)

lemma addEntry_ok:
  "table_ok d \<Longrightarrow> table_ok (addEntry d n v) \<and> dt_settingsMax (addEntry d n v) = dt_settingsMax d \<and>
     dt_maxDecoded (addEntry d n v) = dt_maxDecoded d"
  unfolding addEntry_def table_ok_def
  by (use evict_ok [of "d\<lparr>dt_size := dt_size d + entry_size (n, v), dt_entries := (n, v) # dt_entries d\<rparr>"]
      in \<open>simp add: table_ok_def\<close>)

text \<open>What holds of the variables of \<open>decodeHeaderBlock\<close> between two fields.\<close>

definition block_ok :: "HpackDecoder \<Rightarrow> (bytes \<times> bytes) list \<Rightarrow> block_state \<Rightarrow> bool" where
  "block_ok d0 hs0 s \<longleftrightarrow>
     table_ok (bs_dec s) \<and> dt_settingsMax (bs_dec s) = dt_settingsMax d0 \<and>
     dt_maxDecoded (bs_dec s) = dt_maxDecoded d0 \<and>
     (\<exists>hs. bs_headers s = hs0 @ hs \<and> bs_decoded s = sum_list (map entry_size hs)) \<and>
     (0 < dt_maxDecoded d0 \<longrightarrow> bs_decoded s \<le> dt_maxDecoded d0)"

lemma block_ok_add:
  assumes "block_ok d0 hs0 s" "accrue e s = Inr s1"
  shows "block_ok d0 hs0 (add_header e s1)"
    "block_ok d0 hs0 (add_header e (s1\<lparr>bs_dec := addEntry (bs_dec s1) n v\<rparr>))"
proof -
  obtain hs where hs: "bs_headers s = hs0 @ hs" "bs_decoded s = sum_list (map entry_size hs)"
    using assms(1) by (auto simp: block_ok_def)
  have s1: "s1 = s\<lparr>bs_decoded := bs_decoded s + entry_size e\<rparr>"
      "0 < dt_maxDecoded d0 \<longrightarrow> bs_decoded s + entry_size e \<le> dt_maxDecoded d0"
    using assms by (auto simp: accrue_def Let_def block_ok_def split: if_splits)
  have "hs0 @ hs @ [e] = hs0 @ (hs @ [e])"
      "sum_list (map entry_size hs) + entry_size e = sum_list (map entry_size (hs @ [e]))" by simp_all
  then show "block_ok d0 hs0 (add_header e s1)"
    "block_ok d0 hs0 (add_header e (s1\<lparr>bs_dec := addEntry (bs_dec s1) n v\<rparr>))"
    using assms(1) hs s1 addEntry_ok [of "bs_dec s" n v] by (auto simp: block_ok_def add_header_def)
qed

lemma decode_field_ok:
  assumes "decode_field buf pos endPos s = Inr (p, s')" "block_ok d0 hs0 s"
  shows "block_ok d0 hs0 s'"
proof -
  have upd: "block_ok d0 hs0 (s\<lparr>bs_dec := evict ((bs_dec s)\<lparr>dt_maxSize := newMax\<rparr>)\<rparr>)"
    if "0 \<le> newMax" "newMax \<le> dt_settingsMax (bs_dec s)" for newMax
    using that assms(2) evict_ok [of "(bs_dec s)\<lparr>dt_maxSize := newMax\<rparr>"]
    by (auto simp: block_ok_def table_ok_def)
  from assms(1) consider
      (plain) e s1 where "accrue e s = Inr s1" "s' = add_header e s1"
    | (indexed) e s1 where "accrue e s = Inr s1"
        "s' = add_header e (s1\<lparr>bs_dec := addEntry (bs_dec s1) (fst e) (snd e)\<rparr>)"
    | (resize) newMax q where "decodeInt buf pos endPos 5 = Inr (newMax, q)"
        "newMax \<le> dt_settingsMax (bs_dec s)" "s' = s\<lparr>bs_dec := evict ((bs_dec s)\<lparr>dt_maxSize := newMax\<rparr>)\<rparr>"
    unfolding decode_field_def
    by (auto simp: Let_def nbind_Inr_iff not_less split: if_splits)
  then show ?thesis
  proof cases
    case plain
    then show ?thesis using block_ok_add(1) assms(2) by simp
  next
    case indexed
    then show ?thesis using block_ok_add(2) assms(2) by simp
  next
    case resize
    then show ?thesis using upd decodeInt_result [OF resize(1)] by simp
  qed
qed

lemma decode_block_loop_ok:
  assumes "block_ok d0 hs0 s" "endPos \<le> length buf"
  shows "block_ok d0 hs0 (snd (decode_block_loop buf pos endPos s)) \<and>
    fst (decode_block_loop buf pos endPos s) \<noteq> Some IndexDefect"
  using assms
proof (induction buf pos endPos s rule: decode_block_loop.induct)
  case (1 buf pos endPos s)
  show ?case
  proof (cases "pos < endPos")
    case True
    show ?thesis
    proof (cases "decode_field buf pos endPos s")
      case (Inl e)
      then show ?thesis using True "1.prems" decode_field_in_range [OF "1.prems"(2) True, of s]
        by (subst (1 2) decode_block_loop.simps) auto
    next
      case (Inr a)
      obtain p s' where a: "a = (p, s')" by (cases a)
      have "decode_block_loop buf pos endPos s = decode_block_loop buf p endPos s'"
        using True Inr a by (subst decode_block_loop.simps) simp
      then show ?thesis
        using "1.IH" [OF True Inr a [symmetric]] decode_field_ok [OF Inr [unfolded a] "1.prems"(1)] "1.prems"(2)
        by (simp add: a)
    qed
  next
    case False
    then show ?thesis using "1.prems" by (subst (1 2) decode_block_loop.simps) simp
  qed
qed

text \<open>C15: No header block can push the decoder over its limits. Whatever bytes a peer sends, the
  block decoder reads only inside its buffer, and when it ends, normally or with an error, the
  dynamic table's recorded size is the size of its entries and is within the current limit,
  which is within the advertised one; the fields already decoded stay in front of the new ones,
  and with a cap on the decoded list the new fields together stay within it.
\<close>

theorem hpack_block_within_limits:
  assumes "table_ok d" and "endPos \<le> length buf"
    and "decodeHeaderBlock d buf start endPos hs0 = (r, d', hs')"
  shows "r \<noteq> Some IndexDefect \<and> table_ok d' \<and> dt_settingsMax d' = dt_settingsMax d \<and>
    (\<exists>hs. hs' = hs0 @ hs \<and>
      (0 < dt_maxDecoded d \<longrightarrow> sum_list (map entry_size hs) \<le> dt_maxDecoded d))"
proof -
  let ?s = "\<lparr>bs_dec = d, bs_seenHeader = False, bs_decoded = 0, bs_headers = hs0\<rparr>"
  have "block_ok d hs0 ?s" using assms(1) by (simp add: block_ok_def)
  from decode_block_loop_ok [OF this assms(2), of start]
  obtain s' where s': "block_ok d hs0 s'" "r \<noteq> Some IndexDefect" "d' = bs_dec s'" "hs' = bs_headers s'"
    using assms(3) by (auto simp: decodeHeaderBlock_def split: prod.splits)
  then obtain hs where "hs' = hs0 @ hs" "bs_decoded s' = sum_list (map entry_size hs)"
    by (auto simp: block_ok_def)
  with s' show ?thesis by (intro conjI exI [of _ hs]) (auto simp: block_ok_def)
qed

theorem hpack_block_within_limits_witness:
  "case decodeHeaderBlock (initHpackDecoder 4096 65536) [0x82, 0x40, 0x01, 0x61, 0x01, 0x62] 0 6 [] of
     (r, d, hs) \<Rightarrow> r = None \<and> hs = [(bstr '':method'', bstr ''GET''), (bstr ''a'', bstr ''b'')] \<and>
       table_ok d \<and> dt_entries d = [(bstr ''a'', bstr ''b'')]"
proof -
  let ?d = "initHpackDecoder 4096 65536" and ?buf = "[0x82, 0x40, 0x01, 0x61, 0x01, 0x62] :: bytes"
  obtain r d hs where e: "decodeHeaderBlock ?d ?buf 0 6 [] = (r, d, hs)" by (metis prod_cases3)
  have "table_ok d"
    using hpack_block_within_limits [OF _ _ e] by (simp add: table_ok_def initHpackDecoder_def)
  moreover have "r = None \<and> hs = [(bstr '':method'', bstr ''GET''), (bstr ''a'', bstr ''b'')] \<and>
      dt_entries d = [(bstr ''a'', bstr ''b'')]"
  proof -
    have "case decodeHeaderBlock ?d ?buf 0 6 [] of (r, d, hs) \<Rightarrow> r = None \<and>
        hs = [(bstr '':method'', bstr ''GET''), (bstr ''a'', bstr ''b'')] \<and>
        dt_entries d = [(bstr ''a'', bstr ''b'')]" by code_simp
    then show ?thesis unfolding e by simp
  qed
  ultimately show ?thesis unfolding e by simp
qed

end
