(* ===== verification/Hpack_Roundtrip.thy ===== *)
theory Hpack_Roundtrip
  imports Hpack_Props
begin

text \<open>
  The encoder of \<open>hpack.nim\<close> against its decoder: a status, a list of fields and a table
  size update, as the encoder writes them, are what the decoder reads.
\<close>

section \<open>What the server encodes, a decoder reads\<close>

lemma encodeInt_append: "encodeInt pre v n fb = pre @ encodeInt [] v n fb"
  by (simp add: encodeInt_def Let_def encode_int_loop_tail)

lemma encodeRawString_append: "encodeRawString pre x = pre @ encodeRawString [] x"
  unfolding encodeRawString_def by (subst encodeInt_append) simp

lemma encodeHeader_append: "encodeHeader pre n v = pre @ encodeHeader [] n v"
  unfolding encodeHeader_def Let_def
  by (simp add: encodeInt_append [of pre] encodeRawString_append [of "encodeInt _ _ _ _"]
      encodeRawString_append [of "_ @ _"])

lemma encodeStatus_append: "encodeStatus pre st = pre @ encodeStatus [] st"
  unfolding encodeStatus_def Let_def
  by (simp add: encodeInt_append [of pre] encodeRawString_append [of "encodeInt _ _ _ _"]
      encodeRawString_append [of "_ @ _"])

lemma encodeInt_hd: "\<exists>x ys. encodeInt [] v n fb = (fb OR of_nat x) # ys \<and> x < 2 ^ n \<and> x \<le> v"
proof (cases "v < 2 ^ n - 1")
  case True
  then show ?thesis by (intro exI [of _ v] exI [of _ "[]"]) (simp add: encodeInt_def)
next
  case False
  then show ?thesis
    by (intro exI [of _ "2 ^ n - 1"] exI [of _ "int_tail (v - (2 ^ n - 1))"])
      (simp add: encodeInt_def encode_int_loop_tail)
qed

lemma raw_flag: "x < 128 \<Longrightarrow> (of_nat x :: byte) AND push_bit 7 1 = 0"
  using more_byte(4) by simp

lemma decodeString_encodeRawString:
  assumes "int (length x) \<le> 2 ^ 24" "length (encodeRawString pre x) \<le> endPos"
  shows "decodeString (encodeRawString pre x @ rest) (length pre) endPos [] =
    Inr (x, length (encodeRawString pre x))"
proof -
  let ?i = "encodeInt pre (length x) 7 0"
  have i: "decodeInt (?i @ x @ rest) (length pre) endPos 7 = Inr (int (length x), length ?i)"
    using assms by (intro decodeInt_encodeInt) (simp_all add: encodeRawString_def)
  obtain y ys where y: "encodeInt [] (length x) 7 0 = of_nat y # ys" "y < 128"
    using encodeInt_hd [of "length x" 7 0] by auto
  have hd: "?i = pre @ of_nat y # ys" using encodeInt_append [of pre] y(1) by simp
  have raw: "(?i @ x @ rest) ! length pre AND push_bit 7 1 = 0"
    using raw_flag [OF y(2)] by (simp add: hd nth_append)
  have "length pre < length ?i" by (simp add: hd)
  then show ?thesis using i raw assms(2)
    by (simp add: decodeString_def decodeStr_def encodeRawString_def Let_def)
qed

lemma static_index_table:
  "list_all (\<lambda>(n, i). 1 \<le> i \<and> i \<le> 61 \<and> fst (hpack_static_strings ! (i - 1)) = n) static_index_cases"
  by code_simp

lemma length_hpackStaticTable: "length hpackStaticTable = 61"
  by (simp add: hpackStaticTable_def hpack_static_strings_def)

lemma staticIndexOf_sound:
  assumes "0 < staticIndexOf n"
  shows "staticIndexOf n \<le> 61" "fst (hpackStaticTable ! (staticIndexOf n - 1)) = n"
proof -
  obtain i where i: "map_of (map (\<lambda>(n, i). (bstr n, i)) static_index_cases) n = Some i"
      "staticIndexOf n = i"
    using assms by (auto simp: staticIndexOf_def split: option.splits)
  from map_of_SomeD [OF i(1)] i(2) obtain m
    where m: "n = bstr m" "(m, i) \<in> set static_index_cases" "staticIndexOf n = i"
    by auto
  have i: "1 \<le> i" "i \<le> 61" "fst (hpack_static_strings ! (i - 1)) = m"
    using static_index_table m(2) by (auto simp: list_all_iff)
  then show "staticIndexOf n \<le> 61" unfolding m(3) by simp
  have "i - 1 < length hpack_static_strings" using i length_hpackStaticTable by (simp add: hpackStaticTable_def)
  then show "fst (hpackStaticTable ! (staticIndexOf n - 1)) = n"
    unfolding m(3) using i(3) by (simp add: hpackStaticTable_def m(1) case_prod_beta)
qed

lemma literal_kind:
  assumes "x < 16"
  shows "(of_nat x :: byte) AND 0x80 = 0" "(of_nat x :: byte) AND 0xc0 \<noteq> 0x40"
    "(of_nat x :: byte) AND 0xe0 \<noteq> 0x20"
proof -
  have *: "\<forall>x \<in> set [0..<16]. (of_nat x :: byte) AND 0x80 = 0 \<and> (of_nat x :: byte) AND 0xc0 \<noteq> 0x40 \<and>
      (of_nat x :: byte) AND 0xe0 \<noteq> 0x20" by code_simp
  have "x \<in> set [0..<16]" using assms by simp
  then show "(of_nat x :: byte) AND 0x80 = 0" "(of_nat x :: byte) AND 0xc0 \<noteq> 0x40"
    "(of_nat x :: byte) AND 0xe0 \<noteq> 0x20" using * by blast+
qed

text \<open>
  The name of a literal without indexing: an entry of the static table or a raw string.
\<close>

definition encodeName :: "bytes \<Rightarrow> bytes \<Rightarrow> bytes" where
  "encodeName buf name =
     (if 0 < staticIndexOf name then encodeInt buf (staticIndexOf name) 4 0
      else encodeRawString (encodeInt buf 0 4 0) name)"

lemma encodeHeader_name: "encodeHeader buf n v = encodeRawString (encodeName buf n) v"
  by (simp add: encodeHeader_def encodeName_def Let_def)

lemma encodeRawString_longer: "length pre < length (encodeRawString pre x)"
  using encodeInt_hd [of "length x" 7 0] encodeInt_append [of pre "length x" 7 0]
  by (auto simp: encodeRawString_def)

text \<open>Reading a literal field: any way of writing its name, then the raw value.\<close>

lemma literal_field_value:
  assumes "decodeInt (pre @ nm @ encodeRawString [] v @ rest) (length pre) endPos 4 = Inr (i, p)"
    and "(if i = 0 then decodeString (pre @ nm @ encodeRawString [] v @ rest) p endPos []
          else nbind (hpack_lookup d i) (\<lambda>(n, _). Inr (n, p))) = Inr (n, length pre + length nm)"
    and "int (length v) \<le> 2 ^ 24"
    and "length pre + length nm + length (encodeRawString [] v) \<le> endPos"
  shows "literal_field (pre @ nm @ encodeRawString [] v @ rest) (length pre) endPos 4 d =
    Inr ((n, v), length pre + length nm + length (encodeRawString [] v))"
proof -
  have "decodeString (encodeRawString (pre @ nm) v @ rest) (length (pre @ nm)) endPos [] =
      Inr (v, length (encodeRawString (pre @ nm) v))"
    using assms(3,4) encodeRawString_append [of "pre @ nm" v]
    by (intro decodeString_encodeRawString) simp_all
  then have "decodeString (pre @ nm @ encodeRawString [] v @ rest) (length pre + length nm) endPos [] =
      Inr (v, length pre + length nm + length (encodeRawString [] v))"
    using encodeRawString_append [of "pre @ nm" v] by (simp add: add.assoc)
  then show ?thesis using assms(1,2) by (simp add: literal_field_def)
qed

lemma literal_field_header:
  assumes "int (length n) \<le> 2 ^ 24" "int (length v) \<le> 2 ^ 24"
    "length pre + length (encodeHeader [] n v) \<le> endPos"
  shows "literal_field (pre @ encodeHeader [] n v @ rest) (length pre) endPos 4 d =
    Inr ((n, v), length pre + length (encodeHeader [] n v))"
proof -
  let ?nm = "encodeName [] n"
  have enc: "encodeHeader [] n v = ?nm @ encodeRawString [] v"
    unfolding encodeHeader_name by (rule encodeRawString_append)
  have len: "length pre + length ?nm + length (encodeRawString [] v) \<le> endPos"
    using assms(3) by (simp add: enc)
  let ?buf = "pre @ ?nm @ encodeRawString [] v @ rest"
  show ?thesis
  proof (cases "0 < staticIndexOf n")
    case True
    let ?i = "staticIndexOf n"
    have nm: "?nm = encodeInt [] ?i 4 0" using True by (simp add: encodeName_def)
    have "decodeInt (encodeInt pre ?i 4 0 @ encodeRawString [] v @ rest) (length pre) endPos 4 =
        Inr (int ?i, length (encodeInt pre ?i 4 0))"
      using staticIndexOf_sound(1) [OF True] len encodeInt_append [of pre ?i 4 0]
      by (intro decodeInt_encodeInt) (simp_all add: nm)
    then have i: "decodeInt ?buf (length pre) endPos 4 = Inr (int ?i, length pre + length ?nm)"
      using encodeInt_append [of pre ?i 4 0] by (simp add: nm)
    have "hpack_lookup d (int ?i) = Inr (hpackStaticTable ! (?i - 1))"
      using True staticIndexOf_sound(1) [OF True] by (simp add: hpack_lookup_def nat_diff_distrib)
    then have "nbind (hpack_lookup d (int ?i)) (\<lambda>(n, _). Inr (n, length pre + length ?nm)) =
        (Inr (n, length pre + length ?nm) :: hpack_exn + _)"
      using staticIndexOf_sound(2) [OF True] by (simp add: case_prod_beta)
    then show ?thesis
      using literal_field_value [OF i _ assms(2) len, where n = n] True by (simp add: enc add.assoc)
  next
    case False
    have one: "encodeInt q 0 4 0 = q @ [0]" for q by (simp add: encodeInt_def)
    have nm: "?nm = 0 # encodeRawString [] n"
      using False encodeRawString_append [of "[0]" n] by (simp add: encodeName_def one)
    have "decodeInt (encodeInt pre 0 4 0 @ encodeRawString [] n @ encodeRawString [] v @ rest)
        (length pre) endPos 4 = Inr (int 0, length (encodeInt pre 0 4 0))"
      using len by (intro decodeInt_encodeInt) (simp_all add: one nm)
    then have i: "decodeInt ?buf (length pre) endPos 4 = Inr (0, Suc (length pre))"
      by (simp add: one nm)
    have "decodeString (encodeRawString (pre @ [0]) n @ encodeRawString [] v @ rest)
        (length (pre @ [0])) endPos [] = Inr (n, length (encodeRawString (pre @ [0]) n))"
      using assms(1) len encodeRawString_append [of "pre @ [0]" n]
      by (intro decodeString_encodeRawString) (simp_all add: nm)
    then have "decodeString ?buf (Suc (length pre)) endPos [] = Inr (n, length pre + length ?nm)"
      using encodeRawString_append [of "pre @ [0]" n] by (simp add: nm)
    then show ?thesis
      using literal_field_value [OF i _ assms(2) len, where n = n] by (simp add: enc add.assoc)
  qed
qed

lemma encodeHeader_hd: "\<exists>x ys. encodeHeader [] n v = of_nat x # ys \<and> x < 16"
proof -
  obtain x ys where x: "encodeInt [] (staticIndexOf n) 4 0 = of_nat x # ys" "x < 16"
    using encodeInt_hd [of "staticIndexOf n" 4 0] by auto
  have "encodeName [] n = encodeInt [] (staticIndexOf n) 4 0 @
      (if 0 < staticIndexOf n then [] else encodeRawString [] n)"
    using encodeRawString_append [of "encodeInt [] 0 4 0" n] by (simp add: encodeName_def)
  then show ?thesis
    using x encodeRawString_append [of "encodeName [] n" v] by (auto simp: encodeHeader_name)
qed

text \<open>One encoded field, read back in any state of the decoder.\<close>

lemma decode_field_header:
  assumes "int (length n) \<le> 2 ^ 24" "int (length v) \<le> 2 ^ 24"
    "length pre + length (encodeHeader [] n v) \<le> endPos"
  shows "decode_field (pre @ encodeHeader [] n v @ rest) (length pre) endPos s =
    nbind (accrue (n, v) s) (\<lambda>s. Inr (length pre + length (encodeHeader [] n v), add_header (n, v) s))"
proof -
  obtain x ys where x: "encodeHeader [] n v = of_nat x # ys" "x < 16" using encodeHeader_hd by blast
  have "(pre @ encodeHeader [] n v @ rest) ! length pre = of_nat x" by (simp add: x(1) nth_append)
  moreover have "encodeHeader [] n v \<noteq> []" by (simp add: x(1))
  ultimately show ?thesis
    using literal_kind [OF x(2)] literal_field_header [OF assms, of rest "bs_dec s"]
    by (simp add: decode_field_def Let_def)
qed

definition status_field :: "nat \<Rightarrow> bytes \<times> bytes" where
  "status_field st = (bstr '':status'', map of_nat (dec st))"

definition status_index :: "nat \<Rightarrow> nat" where
  "status_index st = (if st = 200 then 8 else if st = 204 then 9 else if st = 206 then 10
     else if st = 304 then 11 else if st = 400 then 12 else if st = 404 then 13
     else if st = 500 then 14 else 0)"

lemma encodeStatus_indexed: "0 < status_index st \<Longrightarrow> encodeStatus [] st = [0x80 OR of_nat (status_index st)]"
  by (auto simp: encodeStatus_def status_index_def encodeInt_def split: if_splits)

lemma encodeStatus_literal:
  "status_index st = 0 \<Longrightarrow> encodeStatus [] st = encodeHeader [] (bstr '':status'') (map of_nat (dec st))"
proof -
  have "staticIndexOf (bstr '':status'') = 8"
    by (simp add: staticIndexOf_def static_index_cases_def)
  then show "status_index st = 0 \<Longrightarrow> encodeStatus [] st = encodeHeader [] (bstr '':status'') (map of_nat (dec st))"
    by (simp add: encodeStatus_def encodeHeader_def status_index_def split: if_splits)
qed

lemma status_static:
  "0 < status_index st \<Longrightarrow> hpackStaticTable ! (status_index st - 1) = status_field st \<and>
     status_index st \<in> {8, 9, 10, 11, 12, 13, 14}"
proof -
  have "hpackStaticTable ! 7 = status_field 200" "hpackStaticTable ! 8 = status_field 204"
    "hpackStaticTable ! 9 = status_field 206" "hpackStaticTable ! 10 = status_field 304"
    "hpackStaticTable ! 11 = status_field 400" "hpackStaticTable ! 12 = status_field 404"
    "hpackStaticTable ! 13 = status_field 500"
    by (simp_all add: hpackStaticTable_def hpack_static_strings_def status_field_def bstr_def dec.simps)
  then show "0 < status_index st \<Longrightarrow> hpackStaticTable ! (status_index st - 1) = status_field st \<and>
     status_index st \<in> {8, 9, 10, 11, 12, 13, 14}"
    by (auto simp: status_index_def split: if_splits)
qed

lemma indexed_byte:
  assumes "i \<in> {8, 9, 10, 11, 12, 13, 14 :: nat}"
  shows "(0x80 OR of_nat i :: byte) AND 0x80 \<noteq> 0"
    "pos < length buf \<Longrightarrow> pos < endPos \<Longrightarrow> buf ! pos = 0x80 OR of_nat i \<Longrightarrow>
      decodeInt buf pos endPos 7 = Inr (int i, Suc pos)"
  using assms by (auto simp: decodeInt_def Let_def)

lemma decode_field_status:
  assumes "st < 1000" "length pre + length (encodeStatus [] st) \<le> endPos"
  shows "decode_field (pre @ encodeStatus [] st @ rest) (length pre) endPos s =
    nbind (accrue (status_field st) s)
      (\<lambda>s. Inr (length pre + length (encodeStatus [] st), add_header (status_field st) s))"
proof (cases "0 < status_index st")
  case True
  let ?i = "status_index st"
  have i: "?i \<in> {8, 9, 10, 11, 12, 13, 14}" and e: "hpackStaticTable ! (?i - 1) = status_field st"
    using status_static [OF True] by blast+
  have enc: "encodeStatus [] st = [0x80 OR of_nat ?i]" by (rule encodeStatus_indexed [OF True])
  have at: "(pre @ encodeStatus [] st @ rest) ! length pre = 0x80 OR of_nat ?i" by (simp add: enc)
  have "decodeInt (pre @ encodeStatus [] st @ rest) (length pre) endPos 7 = Inr (int ?i, Suc (length pre))"
    using assms(2) at by (intro indexed_byte(2) [OF i]) (simp_all add: enc)
  moreover have "hpack_lookup (bs_dec s) (int ?i) = Inr (status_field st)"
    using i e by (auto simp: hpack_lookup_def nat_diff_distrib)
  ultimately show ?thesis
    using at indexed_byte(1) [OF i] True by (simp add: decode_field_def Let_def enc)
next
  case False
  then have "encodeStatus [] st = encodeHeader [] (bstr '':status'') (map of_nat (dec st))"
    by (simp add: encodeStatus_literal)
  moreover have "length (dec st) \<le> 3" using assms(1) by (intro length_dec_le) simp_all
  ultimately show ?thesis
    using decode_field_header [of "bstr '':status''" "map of_nat (dec st)" pre endPos rest s] assms(2)
    by (simp add: status_field_def)
qed

text \<open>A table size update, before any field.\<close>

lemma size_update_kind:
  assumes "x < 32"
  shows "(0x20 OR of_nat x :: byte) AND 0x80 = 0" "(0x20 OR of_nat x :: byte) AND 0xc0 \<noteq> 0x40"
    "(0x20 OR of_nat x :: byte) AND 0xe0 = 0x20"
proof -
  have *: "\<forall>x \<in> set [0..<32]. (0x20 OR of_nat x :: byte) AND 0x80 = 0 \<and>
      (0x20 OR of_nat x :: byte) AND 0xc0 \<noteq> 0x40 \<and> (0x20 OR of_nat x :: byte) AND 0xe0 = 0x20"
    by code_simp
  have "x \<in> set [0..<32]" using assms by simp
  then show "(0x20 OR of_nat x :: byte) AND 0x80 = 0" "(0x20 OR of_nat x :: byte) AND 0xc0 \<noteq> 0x40"
    "(0x20 OR of_nat x :: byte) AND 0xe0 = 0x20" using * by blast+
qed

lemma decode_field_size_update:
  assumes "int v \<le> 2 ^ 24" "int v \<le> dt_settingsMax (bs_dec s)" "\<not> bs_seenHeader s"
    "length pre + length (encodeInt [] v 5 0x20) \<le> endPos"
  shows "decode_field (pre @ encodeInt [] v 5 0x20 @ rest) (length pre) endPos s =
    Inr (length pre + length (encodeInt [] v 5 0x20),
         s\<lparr>bs_dec := evict ((bs_dec s)\<lparr>dt_maxSize := int v\<rparr>)\<rparr>)"
proof -
  obtain x ys where x: "encodeInt [] v 5 0x20 = (0x20 OR of_nat x) # ys" "x < 32"
    using encodeInt_hd [of v 5 "0x20"] by auto
  have at: "(pre @ encodeInt [] v 5 0x20 @ rest) ! length pre = 0x20 OR of_nat x"
    by (simp add: x(1) nth_append)
  have ne: "encodeInt [] v 5 0x20 \<noteq> []" by (simp add: x(1))
  have "decodeInt (encodeInt pre v 5 0x20 @ rest) (length pre) endPos 5 =
      Inr (int v, length (encodeInt pre v 5 0x20))"
    using assms(1,4) encodeInt_append [of pre v 5 "0x20"]
    by (intro decodeInt_encodeInt) (simp_all add: mask_eq_exp_minus_1)
  then have "decodeInt (pre @ encodeInt [] v 5 0x20 @ rest) (length pre) endPos 5 =
      Inr (int v, length pre + length (encodeInt [] v 5 0x20))"
    using encodeInt_append [of pre v 5 "0x20"] by simp
  then show ?thesis
    using at ne size_update_kind [OF x(2)] assms(2,3) by (simp add: decode_field_def Let_def)
qed

section \<open>Lists of fields\<close>

definition encode_fields :: "bytes \<Rightarrow> (bytes \<times> bytes) list \<Rightarrow> bytes" where
  "encode_fields = foldl (\<lambda>hb (n, v). encodeHeader hb n v)"

lemma encode_fields_simps [simp]:
  "encode_fields hb [] = hb"
  "encode_fields hb ((n, v) # hs) = encode_fields (encodeHeader hb n v) hs"
  by (simp_all add: encode_fields_def)

lemma encode_fields_append: "encode_fields hb hs = hb @ encode_fields [] hs"
proof (induction hs arbitrary: hb)
  case (Cons f hs)
  obtain n v where f: "f = (n, v)" by (cases f)
  have "encode_fields (encodeHeader hb n v) hs = encodeHeader hb n v @ encode_fields [] hs"
    by (rule Cons.IH)
  moreover have "encode_fields (encodeHeader [] n v) hs = encodeHeader [] n v @ encode_fields [] hs"
    by (rule Cons.IH)
  ultimately show ?case by (simp add: f encodeHeader_append [of hb])
qed simp

lemma encode_fields_concat: "encode_fields hb (hs @ hs') = encode_fields (encode_fields hb hs) hs'"
  by (simp add: encode_fields_def)

definition list_size :: "(bytes \<times> bytes) list \<Rightarrow> int" where
  "list_size hs = sum_list (map entry_size hs)"

lemma list_size_simps [simp]: "list_size [] = 0" "list_size (f # hs) = entry_size f + list_size hs"
  by (simp_all add: list_size_def)

lemma list_size_nonneg: "0 \<le> list_size hs"
  by (induction hs) (auto simp: entry_size_def intro: add_nonneg_nonneg split: prod.splits)

definition room :: "block_state \<Rightarrow> int \<Rightarrow> bool" where
  "room s n \<longleftrightarrow> dt_maxDecoded (bs_dec s) \<le> 0 \<or> bs_decoded s + n \<le> dt_maxDecoded (bs_dec s)"

definition got_fields :: "(bytes \<times> bytes) list \<Rightarrow> block_state \<Rightarrow> block_state" where
  "got_fields hs s = s\<lparr>bs_decoded := bs_decoded s + list_size hs, bs_headers := bs_headers s @ hs,
     bs_seenHeader := (bs_seenHeader s \<or> hs \<noteq> [])\<rparr>"

lemma accrue_room: "room s (entry_size f) \<Longrightarrow> accrue f s = Inr (s\<lparr>bs_decoded := bs_decoded s + entry_size f\<rparr>)"
  by (auto simp: accrue_def room_def Let_def)

definition sendable :: "(bytes \<times> bytes) list \<Rightarrow> bool" where
  "sendable hs \<longleftrightarrow> (\<forall>f \<in> set hs. int (length (fst f)) \<le> 2 ^ 24 \<and> int (length (snd f)) \<le> 2 ^ 24)"

lemma sendable_simps [simp]:
  "sendable []"
  "sendable (f # hs) \<longleftrightarrow> int (length (fst f)) \<le> 2 ^ 24 \<and> int (length (snd f)) \<le> 2 ^ 24 \<and> sendable hs"
  "sendable (hs @ hs') \<longleftrightarrow> sendable hs \<and> sendable hs'"
  by (auto simp: sendable_def)

lemma decode_block_step:
  assumes "decode_field buf pos endPos s = Inr (p, s')" "pos < endPos"
  shows "decode_block_loop buf pos endPos s = decode_block_loop buf p endPos s'"
  using assms by (subst decode_block_loop.simps) simp

lemma decode_block_fields:
  assumes "sendable hs" "room s (list_size hs)"
  shows "decode_block_loop (pre @ encode_fields [] hs) (length pre) (length (pre @ encode_fields [] hs)) s =
    (None, got_fields hs s)"
  using assms
proof (induction hs arbitrary: pre s)
  case Nil
  show ?case by (subst decode_block_loop.simps) (simp add: got_fields_def)
next
  case (Cons f hs)
  obtain n v where f: "f = (n, v)" by (cases f)
  let ?e = "encodeHeader [] n v" and ?stop = "length (pre @ encode_fields [] (f # hs))"
  let ?s = "add_header f (s\<lparr>bs_decoded := bs_decoded s + entry_size f\<rparr>)"
  have enc: "encode_fields [] (f # hs) = ?e @ encode_fields [] hs"
    using encode_fields_append [of ?e hs] by (simp add: f)
  have "room s (entry_size f)" "room ?s (list_size hs)"
    using Cons.prems(2) list_size_nonneg [of hs] by (auto simp: room_def add_header_def)
  then have "decode_field (pre @ ?e @ encode_fields [] hs) (length pre) ?stop s =
      Inr (length pre + length ?e, ?s)"
    using Cons.prems(1) decode_field_header [of n v pre ?stop "encode_fields [] hs" s] enc
    by (simp add: accrue_room f)
  moreover have "length pre < ?stop" using encodeHeader_hd [of n v] by (auto simp: enc)
  ultimately have "decode_block_loop (pre @ encode_fields [] (f # hs)) (length pre) ?stop s =
      decode_block_loop ((pre @ ?e) @ encode_fields [] hs) (length (pre @ ?e)) ?stop ?s"
    using decode_block_step by (simp add: enc)
  also have "\<dots> = (None, got_fields hs ?s)"
    using Cons.IH [of ?s "pre @ ?e"] Cons.prems(1) \<open>room ?s (list_size hs)\<close> by (simp add: enc)
  also have "got_fields hs ?s = got_fields (f # hs) s" by (simp add: got_fields_def add_header_def)
  finally show ?case .
qed

end
