(* ===== verification/H2_Frames.thy ===== *)
theory H2_Frames
  imports Nim_Prelude
begin

text \<open>
  \<open>src/vortex/http2/frames.nim\<close>: the nine-byte frame header of HTTP/2 and the writers of
  the control frames. What is written is read back, so the frame layer loses nothing.
\<close>

datatype FrameType =
    ftData | ftHeaders | ftPriority | ftRstStream | ftSettings | ftPushPromise | ftPing | ftGoaway
  | ftWindowUpdate | ftContinuation

fun frame_type :: "FrameType \<Rightarrow> byte" where
  "frame_type ftData = 0"
| "frame_type ftHeaders = 1"
| "frame_type ftPriority = 2"
| "frame_type ftRstStream = 3"
| "frame_type ftSettings = 4"
| "frame_type ftPushPromise = 5"
| "frame_type ftPing = 6"
| "frame_type ftGoaway = 7"
| "frame_type ftWindowUpdate = 8"
| "frame_type ftContinuation = 9"

record FrameHeader =
  fh_length :: nat
  fh_typ :: byte
  fh_flags :: byte
  fh_streamId :: "32 word"

definition frameHeaderLen :: nat where "frameHeaderLen = 9"
definition flagEndStream :: byte where "flagEndStream = 0x01"
definition flagAck :: byte where "flagAck = 0x01"
definition flagEndHeaders :: byte where "flagEndHeaders = 0x04"

text \<open>The readers. Their callers guarantee that the bytes are there.\<close>

definition get24 :: "bytes \<Rightarrow> nat \<Rightarrow> nat" where
  "get24 buf pos = push_bit 16 (unat (buf ! pos)) OR push_bit 8 (unat (buf ! (pos + 1))) OR
     unat (buf ! (pos + 2))"

definition get32 :: "bytes \<Rightarrow> nat \<Rightarrow> 32 word" where
  "get32 buf pos = push_bit 24 (ucast (buf ! pos)) OR push_bit 16 (ucast (buf ! (pos + 1))) OR
     push_bit 8 (ucast (buf ! (pos + 2))) OR ucast (buf ! (pos + 3))"

definition get16 :: "bytes \<Rightarrow> nat \<Rightarrow> 16 word" where
  "get16 buf pos = push_bit 8 (ucast (buf ! pos)) OR ucast (buf ! (pos + 1))"

definition add24 :: "bytes \<Rightarrow> nat \<Rightarrow> bytes" where
  "add24 buf v = buf @ [of_nat (drop_bit 16 v), of_nat (drop_bit 8 v), of_nat v]"

definition add32 :: "bytes \<Rightarrow> 32 word \<Rightarrow> bytes" where
  "add32 buf v = buf @ [ucast (drop_bit 24 v), ucast (drop_bit 16 v), ucast (drop_bit 8 v), ucast v]"

definition add16 :: "bytes \<Rightarrow> 16 word \<Rightarrow> bytes" where
  "add16 buf v = buf @ [ucast (drop_bit 8 v), ucast v]"

definition parseFrameHeader :: "bytes \<Rightarrow> nat \<Rightarrow> FrameHeader" where
  "parseFrameHeader buf pos =
     \<lparr>fh_length = get24 buf pos, fh_typ = buf ! (pos + 3), fh_flags = buf ! (pos + 4),
      fh_streamId = get32 buf (pos + 5) AND 0x7fffffff\<rparr>"

definition addFrameHeader :: "bytes \<Rightarrow> nat \<Rightarrow> FrameType \<Rightarrow> byte \<Rightarrow> 32 word \<Rightarrow> bytes" where
  "addFrameHeader buf len typ flags streamId = add32 (add24 buf len @ [frame_type typ] @ [flags]) streamId"

definition addRstStream :: "bytes \<Rightarrow> 32 word \<Rightarrow> 32 word \<Rightarrow> bytes" where
  "addRstStream buf streamId err = add32 (addFrameHeader buf 4 ftRstStream 0 streamId) err"

definition addGoaway :: "bytes \<Rightarrow> 32 word \<Rightarrow> 32 word \<Rightarrow> bytes" where
  "addGoaway buf lastStreamId err = add32 (add32 (addFrameHeader buf 8 ftGoaway 0 0) lastStreamId) err"

definition addWindowUpdate :: "bytes \<Rightarrow> 32 word \<Rightarrow> nat \<Rightarrow> bytes" where
  "addWindowUpdate buf streamId increment =
     add32 (addFrameHeader buf 4 ftWindowUpdate 0 streamId) (of_nat increment)"

definition addPingAck :: "bytes \<Rightarrow> bytes \<Rightarrow> bytes" where
  "addPingAck buf payload = addFrameHeader buf 8 ftPing flagAck 0 @ payload"

definition addSetting :: "bytes \<Rightarrow> 16 word \<Rightarrow> 32 word \<Rightarrow> bytes" where
  "addSetting buf ident value = add32 (add16 buf ident) value"

section \<open>What is written is read back\<close>

lemma get32_add32 [simp]: "get32 (add32 buf v @ rest) (length buf) = v"
proof (rule bit_word_eqI)
  fix k assume "k < LENGTH(32)"
  then consider "k < 8" | "8 \<le> k \<and> k < 16" | "16 \<le> k \<and> k < 24" | "24 \<le> k \<and> k < 32"
    by fastforce
  then show "bit (get32 (add32 buf v @ rest) (length buf)) k = bit v k"
    unfolding get32_def add32_def by cases (auto simp: nth_append bit_simps)
qed

lemma get16_add16 [simp]: "get16 (add16 buf v @ rest) (length buf) = v"
  unfolding get16_def add16_def
  by (rule bit_word_eqI) (auto simp: nth_append bit_simps)

lemma length_adds [simp]:
  "length (add24 buf n) = length buf + 3" "length (add32 buf v) = length buf + 4"
  "length (add16 buf w) = length buf + 2"
  by (simp_all add: add24_def add32_def add16_def)

lemma length_addFrameHeader [simp]:
  "length (addFrameHeader buf n t f sid) = length buf + frameHeaderLen"
  by (simp add: addFrameHeader_def frameHeaderLen_def)

lemma get24_add24:
  assumes "n < 2 ^ 24"
  shows "get24 (add24 buf n @ rest) (length buf) = n"
proof -
  have top: "bit n k \<Longrightarrow> k < 24" for k
    using assms by (metis bit_take_bit_iff take_bit_nat_eq_self)
  show ?thesis
  proof (rule bit_eqI)
    fix k :: nat
    consider "k < 8" | "8 \<le> k \<and> k < 16" | "16 \<le> k \<and> k < 24" | "24 \<le> k" by fastforce
    then show "bit (get24 (add24 buf n @ rest) (length buf)) k = bit n k"
      unfolding get24_def add24_def using top [of k] by cases (auto simp: nth_append bit_simps)
  qed
qed

lemma parse_addFrameHeader:
  assumes "n < 2 ^ 24"
  shows "parseFrameHeader (addFrameHeader buf n t f sid @ rest) (length buf) =
    \<lparr>fh_length = n, fh_typ = frame_type t, fh_flags = f, fh_streamId = sid AND 0x7fffffff\<rparr>"
proof -
  let ?pre = "add24 buf n @ [frame_type t] @ [f]"
  have "addFrameHeader buf n t f sid @ rest = add32 ?pre sid @ rest" by (simp add: addFrameHeader_def)
  moreover have "get32 (add32 ?pre sid @ rest) (length ?pre) = sid" by (rule get32_add32)
  moreover have "length ?pre = length buf + 5" by simp
  ultimately have sid: "get32 (addFrameHeader buf n t f sid @ rest) (length buf + 5) = sid" by metis
  have split: "addFrameHeader buf n t f sid @ rest = add24 buf n @ ([frame_type t, f] @ add32 [] sid @ rest)"
    by (simp add: addFrameHeader_def add32_def)
  have "get24 (addFrameHeader buf n t f sid @ rest) (length buf) = n"
    unfolding split by (rule get24_add24 [OF assms])
  then show ?thesis using sid
    by (simp add: parseFrameHeader_def) (simp add: split nth_append)
qed

end
