(* ===== verification/Fieldrules.thy ===== *)
theory Fieldrules
  imports Nim_Prelude
begin

text \<open>
  \<open>src/vortex/fieldrules.nim\<close>: the validation rules for header fields that the HTTP/1,
  HTTP/2 and HTTP/3 request paths share. Every function of the module is a definition
  here. \<open>classifyRequestHead\<close> is shown to decide a declarative specification of a
  well-formed request head (\<open>head_class\<close>), and \<open>parseContentLength\<close> to read exactly
  the decimal numbers it accepts, with no wrap-around.
\<close>

section \<open>Field names and values\<close>

text \<open>The separators, in the order of the source: quote, parentheses, comma, slash, colon, \<dots>\<close>

definition tokenDelims :: bytes where
  "tokenDelims = [34, 40, 41, 44, 47, 58, 59, 60, 61, 62, 63, 64, 91, 92, 93, 123, 125]"

definition eqIgnoreAsciiCase :: "bytes \<Rightarrow> bytes \<Rightarrow> bool" where
  "eqIgnoreAsciiCase s lit \<longleftrightarrow>
     length s = length lit \<and>
     (\<forall>i < length lit. (let c = s ! i; c = (if upperA c then c OR 0x20 else c) in c = lit ! i))"

definition isLowerAscii :: "bytes \<Rightarrow> bool" where
  "isLowerAscii s \<longleftrightarrow> list_all (\<lambda>c. \<not> upperA c) s"

definition validFieldValue :: "bytes \<Rightarrow> bool" where
  "validFieldValue val \<longleftrightarrow>
     list_all (\<lambda>b. \<not> (b = 0x00 \<or> b = 0x0a \<or> b = 0x0d)) val \<and>
     (0 < length val \<longrightarrow>
        (let f = val ! 0; l = last val in
         \<not> (f = 0x20 \<or> f = 0x09 \<or> l = 0x20 \<or> l = 0x09)))"

definition knownMethods :: "bytes list" where
  "knownMethods = map bstr [''GET'', ''HEAD'', ''POST'', ''PUT'', ''DELETE'', ''PATCH'', ''OPTIONS'',
     ''TRACE'', ''CONNECT'']"

definition isKnownMethod :: "bytes \<Rightarrow> bool" where
  "isKnownMethod m \<longleftrightarrow> m \<in> set knownMethods"

definition validFieldName :: "bytes \<Rightarrow> bool" where
  "validFieldName name \<longleftrightarrow>
     list_all (\<lambda>b. \<not> (upperA b \<or> b \<le> 0x20 \<or> 0x7f \<le> b \<or> b \<in> set tokenDelims)) name"

section \<open>Content-Length\<close>

datatype ContentLengthResult = clOk | clMalformed | clOverflow | clConflict

fun content_length_loop :: "bytes \<Rightarrow> int \<Rightarrow> ContentLengthResult + int" where
  "content_length_loop [] v = Inr v"
| "content_length_loop (ch # chs) v =
     (if \<not> digitA ch then Inl clMalformed
      else if (int64_high - 9) div 10 < v then Inl clOverflow
      else content_length_loop chs (int64 (v * 10 + int (unat (ch - byte_of CHR ''0'')))))"

text \<open>The result and the out-parameter \<open>value\<close>, which only \<open>clOk\<close> assigns.\<close>

definition parseContentLength :: "bytes \<Rightarrow> int \<Rightarrow> int \<Rightarrow> ContentLengthResult \<times> int" where
  "parseContentLength val prev value =
     (if length val = 0 then (clMalformed, value)
      else case content_length_loop val 0 of
        Inl r \<Rightarrow> (r, value)
      | Inr v \<Rightarrow> if 0 \<le> prev \<and> prev \<noteq> v then (clConflict, value) else (clOk, v))"

section \<open>Fields an endpoint must not send\<close>

definition isForbiddenResponseField :: "bytes \<Rightarrow> bool \<Rightarrow> bool" where
  "isForbiddenResponseField name trailer \<longleftrightarrow>
     eqIgnoreAsciiCase name (bstr ''connection'') \<or>
     eqIgnoreAsciiCase name (bstr ''proxy-connection'') \<or>
     eqIgnoreAsciiCase name (bstr ''keep-alive'') \<or>
     eqIgnoreAsciiCase name (bstr ''transfer-encoding'') \<or>
     eqIgnoreAsciiCase name (bstr ''upgrade'') \<or>
     (trailer \<and> eqIgnoreAsciiCase name (bstr ''te''))"

definition forbiddenResponseTrailerField :: "bytes \<Rightarrow> bool" where
  "forbiddenResponseTrailerField name \<longleftrightarrow>
     isForbiddenResponseField name True \<or> eqIgnoreAsciiCase name (bstr ''content-length'')"

definition validTrailerField :: "bytes \<Rightarrow> bytes \<Rightarrow> bool" where
  "validTrailerField name val \<longleftrightarrow>
     0 < length name \<and> name ! 0 \<noteq> byte_of CHR '':'' \<and>
     validFieldName name \<and> validFieldValue val \<and> \<not> forbiddenResponseTrailerField name"

section \<open>The request head\<close>

datatype RequestHeadClass = rhInvalid | rhRequest | rhWebSocket

type_synonym field = "bytes \<times> bytes"

text \<open>The local flags of \<open>classifyRequestHead\<close> and its five out-parameters.\<close>

record head_scan =
  seenMethod :: bool
  seenPath :: bool
  seenScheme :: bool
  seenAuthority :: bool
  seenProtocol :: bool
  hasHost :: bool
  pseudoDone :: bool
  rh_meth :: bytes
  rh_path :: bytes
  rh_scheme :: bytes
  rh_authority :: bytes
  rh_protocol :: bytes

text \<open>The \<open>case name\<close> over the pseudo-headers; \<open>False\<close> is \<open>return rhInvalid\<close>.\<close>

definition pseudo_field :: "bytes \<Rightarrow> bytes \<Rightarrow> head_scan \<Rightarrow> bool \<times> head_scan" where
  "pseudo_field name val s =
     (if pseudoDone s then (False, s)
      else if name = bstr '':method'' then
        (if seenMethod s then (False, s) else (True, s\<lparr>seenMethod := True, rh_meth := val\<rparr>))
      else if name = bstr '':path'' then
        (if seenPath s then (False, s) else (True, s\<lparr>seenPath := True, rh_path := val\<rparr>))
      else if name = bstr '':scheme'' then
        (if seenScheme s then (False, s) else (True, s\<lparr>seenScheme := True, rh_scheme := val\<rparr>))
      else if name = bstr '':authority'' then
        (if seenAuthority s then (False, s) else (True, s\<lparr>seenAuthority := True, rh_authority := val\<rparr>))
      else if name = bstr '':protocol'' then
        (if seenProtocol s then (False, s) else (True, s\<lparr>seenProtocol := True, rh_protocol := val\<rparr>))
      else (False, s))"

definition scan_field :: "field \<Rightarrow> head_scan \<Rightarrow> bool \<times> head_scan" where
  "scan_field f s =
     (case f of (name, val) \<Rightarrow>
        if length name = 0 then (False, s)
        else if \<not> validFieldValue val then (False, s)
        else if name ! 0 = byte_of CHR '':'' then pseudo_field name val s
        else let s = s\<lparr>pseudoDone := True\<rparr> in
          if \<not> validFieldName name then (False, s)
          else if name = bstr ''host'' then (True, s\<lparr>hasHost := True\<rparr>)
          else (True, s))"

fun scan_fields :: "field list \<Rightarrow> head_scan \<Rightarrow> bool \<times> head_scan" where
  "scan_fields [] s = (True, s)"
| "scan_fields (f # fs) s =
     (case scan_field f s of (False, s') \<Rightarrow> (False, s') | (True, s') \<Rightarrow> scan_fields fs s')"

text \<open>The checks after the loop.\<close>

definition classify_scan :: "head_scan \<Rightarrow> RequestHeadClass" where
  "classify_scan s =
     (if rh_meth s = bstr ''CONNECT'' \<and> rh_protocol s = bstr ''websocket'' then
        (if length (rh_path s) = 0 \<or> length (rh_scheme s) = 0 \<or> \<not> seenAuthority s then rhInvalid
         else rhWebSocket)
      else if seenProtocol s then rhInvalid
      else if rh_meth s = bstr ''CONNECT'' then rhInvalid
      else if \<not> isKnownMethod (rh_meth s) then rhInvalid
      else if length (rh_path s) = 0 \<or> length (rh_scheme s) = 0 then rhInvalid
      else if (rh_scheme s = bstr ''http'' \<or> rh_scheme s = bstr ''https'') \<and> \<not> seenAuthority s \<and> \<not> hasHost s
      then rhInvalid
      else rhRequest)"

text \<open>
  The callers pass five fresh (empty) strings as \<open>meth\<close>, \<open>path\<close>, \<open>scheme\<close>,
  \<open>authority\<close> and \<open>protocol\<close>; their final values are those of the returned scan.
\<close>

definition head_scan0 :: head_scan where
  "head_scan0 = \<lparr>seenMethod = False, seenPath = False, seenScheme = False, seenAuthority = False,
     seenProtocol = False, hasHost = False, pseudoDone = False, rh_meth = [], rh_path = [],
     rh_scheme = [], rh_authority = [], rh_protocol = []\<rparr>"

definition classifyRequestHead :: "field list \<Rightarrow> RequestHeadClass \<times> head_scan" where
  "classifyRequestHead headers =
     (case scan_fields headers head_scan0 of
        (False, s) \<Rightarrow> (rhInvalid, s)
      | (True, s) \<Rightarrow> (classify_scan s, s))"

lemma eqIgnoreAsciiCase_eq: "eqIgnoreAsciiCase s lit \<longleftrightarrow> map toLowerA s = lit"
  unfolding eqIgnoreAsciiCase_def Let_def toLowerA_def [symmetric]
  by (auto simp: list_eq_iff_nth_eq)

section \<open>What a well-formed head is\<close>

text \<open>
  The specification: no empty name, every value clean, the pseudo-headers first, each
  one known and at most once, and every name after them a lower-case token.
\<close>

definition is_pseudo :: "field \<Rightarrow> bool" where
  "is_pseudo f \<longleftrightarrow> fst f \<noteq> [] \<and> hd (fst f) = byte_of CHR '':''"

definition pseudoNames :: "bytes list" where
  "pseudoNames = map bstr ['':method'', '':path'', '':scheme'', '':authority'', '':protocol'']"

definition wf_head :: "field list \<Rightarrow> bool" where
  "wf_head hs \<longleftrightarrow>
     (\<forall>f \<in> set hs. fst f \<noteq> [] \<and> validFieldValue (snd f)) \<and>
     distinct (map fst (takeWhile is_pseudo hs)) \<and>
     fst ` set (takeWhile is_pseudo hs) \<subseteq> set pseudoNames \<and>
     (\<forall>f \<in> set (dropWhile is_pseudo hs). \<not> is_pseudo f \<and> validFieldName (fst f))"

definition has_pseudo :: "field list \<Rightarrow> string \<Rightarrow> bool" where
  "has_pseudo hs n \<longleftrightarrow> bstr n \<in> fst ` set (takeWhile is_pseudo hs)"

definition pseudo_value :: "field list \<Rightarrow> string \<Rightarrow> bytes" where
  "pseudo_value hs n = (case map_of (takeWhile is_pseudo hs) (bstr n) of None \<Rightarrow> [] | Some v \<Rightarrow> v)"

definition has_target :: "field list \<Rightarrow> bool" where
  "has_target hs \<longleftrightarrow> pseudo_value hs '':path'' \<noteq> [] \<and> pseudo_value hs '':scheme'' \<noteq> []"

definition has_authority :: "field list \<Rightarrow> bool" where
  "has_authority hs \<longleftrightarrow> has_pseudo hs '':authority'' \<or> bstr ''host'' \<in> fst ` set hs"

definition websocket_head :: "field list \<Rightarrow> bool" where
  "websocket_head hs \<longleftrightarrow>
     wf_head hs \<and> pseudo_value hs '':method'' = bstr ''CONNECT'' \<and>
     pseudo_value hs '':protocol'' = bstr ''websocket'' \<and> has_target hs \<and> has_pseudo hs '':authority''"

definition request_head :: "field list \<Rightarrow> bool" where
  "request_head hs \<longleftrightarrow>
     wf_head hs \<and> \<not> has_pseudo hs '':protocol'' \<and>
     pseudo_value hs '':method'' \<in> set knownMethods - {bstr ''CONNECT''} \<and> has_target hs \<and>
     (pseudo_value hs '':scheme'' \<in> {bstr ''http'', bstr ''https''} \<longrightarrow> has_authority hs)"

text \<open>What the scan holds after a well-formed list of fields.\<close>

definition scan_of :: "field list \<Rightarrow> head_scan" where
  "scan_of hs = \<lparr>seenMethod = has_pseudo hs '':method'', seenPath = has_pseudo hs '':path'',
     seenScheme = has_pseudo hs '':scheme'', seenAuthority = has_pseudo hs '':authority'',
     seenProtocol = has_pseudo hs '':protocol'', hasHost = (bstr ''host'' \<in> fst ` set hs),
     pseudoDone = (\<exists>f \<in> set hs. \<not> is_pseudo f),
     rh_meth = pseudo_value hs '':method'', rh_path = pseudo_value hs '':path'',
     rh_scheme = pseudo_value hs '':scheme'', rh_authority = pseudo_value hs '':authority'',
     rh_protocol = pseudo_value hs '':protocol''\<rparr>"

lemma scan_fields_append:
  "scan_fields (xs @ ys) s =
     (case scan_fields xs s of (False, s') \<Rightarrow> (False, s') | (True, s') \<Rightarrow> scan_fields ys s')"
  by (induction xs arbitrary: s) (auto split: prod.splits bool.splits)

lemma takeWhile_snoc_all: "\<forall>x \<in> set xs. P x \<Longrightarrow> takeWhile P (xs @ [x]) = xs @ (if P x then [x] else [])"
  by (simp add: takeWhile_append)

lemma takeWhile_snoc_some: "\<not> (\<forall>x \<in> set xs. P x) \<Longrightarrow> takeWhile P (xs @ ys) = takeWhile P xs"
  by (auto simp: takeWhile_append)

lemma wf_head_Nil: "wf_head []"
  by (simp add: wf_head_def)

lemma wf_head_snoc_pseudo:
  assumes "is_pseudo f"
  shows "wf_head (hs @ [f]) \<longleftrightarrow>
    wf_head hs \<and> validFieldValue (snd f) \<and> (\<forall>g \<in> set hs. is_pseudo g) \<and>
    fst f \<in> set pseudoNames \<and> fst f \<notin> fst ` set hs"
proof (cases "\<forall>g \<in> set hs. is_pseudo g")
  case True
  then have eqs: "dropWhile is_pseudo hs = []" "takeWhile is_pseudo hs = hs"
      "dropWhile is_pseudo (hs @ [f]) = []" "takeWhile is_pseudo (hs @ [f]) = hs @ [f]"
    using assms by simp_all
  show ?thesis unfolding wf_head_def eqs using True assms by (auto simp: is_pseudo_def)
next
  case False
  then have "dropWhile is_pseudo (hs @ [f]) = dropWhile is_pseudo hs @ [f]"
    by (auto simp: dropWhile_append)
  with False assms show ?thesis by (auto simp: wf_head_def)
qed

lemma wf_head_snoc_regular:
  assumes "\<not> is_pseudo f"
  shows "wf_head (hs @ [f]) \<longleftrightarrow>
    wf_head hs \<and> fst f \<noteq> [] \<and> validFieldValue (snd f) \<and> validFieldName (fst f)"
proof (cases "\<forall>g \<in> set hs. is_pseudo g")
  case True
  then have eqs: "dropWhile is_pseudo hs = []" "takeWhile is_pseudo hs = hs"
      "dropWhile is_pseudo (hs @ [f]) = [f]" "takeWhile is_pseudo (hs @ [f]) = hs"
    using assms by (simp_all add: takeWhile_snoc_all)
  show ?thesis unfolding wf_head_def eqs using True assms by auto
next
  case False
  then have "dropWhile is_pseudo (hs @ [f]) = dropWhile is_pseudo hs @ [f]"
    by (auto simp: dropWhile_append)
  with False assms show ?thesis by (auto simp: wf_head_def takeWhile_snoc_some)
qed

lemma has_pseudo_snoc:
  "has_pseudo (hs @ [f]) n \<longleftrightarrow>
     has_pseudo hs n \<or> (\<forall>g \<in> set hs. is_pseudo g) \<and> is_pseudo f \<and> fst f = bstr n"
proof (cases "\<forall>g \<in> set hs. is_pseudo g")
  case True
  then have eq: "takeWhile is_pseudo hs = hs" by simp
  show ?thesis unfolding has_pseudo_def eq takeWhile_snoc_all [OF True] using True by auto
next
  case False
  then show ?thesis unfolding has_pseudo_def takeWhile_snoc_some [OF False] by auto
qed

lemma pseudo_value_snoc:
  assumes "fst f \<notin> fst ` set hs \<or> \<not> is_pseudo f \<or> \<not> (\<forall>g \<in> set hs. is_pseudo g)"
  shows "pseudo_value (hs @ [f]) n =
     (if (\<forall>g \<in> set hs. is_pseudo g) \<and> is_pseudo f \<and> fst f = bstr n then snd f else pseudo_value hs n)"
proof (cases "(\<forall>g \<in> set hs. is_pseudo g) \<and> is_pseudo f")
  case True
  then have eqs: "takeWhile is_pseudo (hs @ [f]) = hs @ [f]" "takeWhile is_pseudo hs = hs"
    by (simp_all add: takeWhile_snoc_all)
  have "fst f \<notin> fst ` set hs" using True assms by blast
  then show ?thesis unfolding pseudo_value_def eqs using True
    by (cases f) (auto simp: map_add_def split: option.splits dest: map_of_SomeD intro: rev_image_eqI)
next
  case False
  have "takeWhile is_pseudo (hs @ [f]) = takeWhile is_pseudo hs"
  proof (cases "\<forall>g \<in> set hs. is_pseudo g")
    case True
    then have "takeWhile is_pseudo hs = hs" "takeWhile is_pseudo (hs @ [f]) = hs"
      using False by (simp_all add: takeWhile_snoc_all)
    then show ?thesis by metis
  next
    case nall: False
    show ?thesis by (rule takeWhile_snoc_some [OF nall])
  qed
  then show ?thesis unfolding pseudo_value_def using False by (simp only:) auto
qed

lemma pseudo_names_regular: "bstr ''host'' \<notin> set pseudoNames"
  by (simp add: pseudoNames_def)

lemma is_pseudo_name: "fst f \<in> set pseudoNames \<Longrightarrow> is_pseudo f"
  by (auto simp: is_pseudo_def pseudoNames_def)

text \<open>One more field: the scan goes on exactly when the longer list is well-formed.\<close>

lemma scan_field_pseudo:
  assumes "is_pseudo f" and "wf_head hs"
  shows "fst (scan_field f (scan_of hs)) = wf_head (hs @ [f])"
    and "wf_head (hs @ [f]) \<Longrightarrow> snd (scan_field f (scan_of hs)) = scan_of (hs @ [f])"
proof -
  obtain name val where f: "f = (name, val)" by (cases f)
  have n: "name \<noteq> []" "name ! 0 = byte_of CHR '':''"
    using assms(1) by (auto simp: f is_pseudo_def hd_conv_nth)
  have seen: "has_pseudo hs n \<longleftrightarrow> bstr n \<in> fst ` set hs" if "\<forall>g \<in> set hs. is_pseudo g" for n
    using that by (simp add: has_pseudo_def takeWhile_eq_all_conv [THEN iffD2])
  have fst_eq: "fst (scan_field f (scan_of hs)) \<longleftrightarrow> validFieldValue val \<and>
      (\<forall>g \<in> set hs. is_pseudo g) \<and> name \<in> set pseudoNames \<and> name \<notin> fst ` set hs"
  proof (cases "validFieldValue val \<and> (\<forall>g \<in> set hs. is_pseudo g) \<and> name \<in> set pseudoNames")
    case True
    then have all: "\<forall>g \<in> set hs. is_pseudo g" and
      "name = bstr '':method'' \<or> name = bstr '':path'' \<or> name = bstr '':scheme'' \<or>
       name = bstr '':authority'' \<or> name = bstr '':protocol''"
      by (simp_all add: pseudoNames_def)
    then show ?thesis using True n
      by (elim disjE) (simp_all add: f scan_field_def pseudo_field_def scan_of_def seen [OF all])
  next
    case False
    then consider "\<not> validFieldValue val" | "\<exists>g \<in> set hs. \<not> is_pseudo g" | "name \<notin> set pseudoNames"
      by blast
    then show ?thesis
      using n by cases (auto simp: f scan_field_def pseudo_field_def scan_of_def pseudoNames_def)
  qed
  then show "fst (scan_field f (scan_of hs)) = wf_head (hs @ [f])"
    unfolding wf_head_snoc_pseudo [OF assms(1)] using assms(2) by (simp add: f)
  assume "wf_head (hs @ [f])"
  then have w: "validFieldValue val" "\<forall>g \<in> set hs. is_pseudo g" "name \<in> set pseudoNames"
      "name \<notin> fst ` set hs"
    unfolding wf_head_snoc_pseudo [OF assms(1)] by (simp_all add: f)
  have host: "name \<noteq> bstr ''host''" using w(3) pseudo_names_regular by blast
  have hp: "has_pseudo (hs @ [f]) n \<longleftrightarrow> has_pseudo hs n \<or> name = bstr n" for n
    using w(2) assms(1) by (simp add: has_pseudo_snoc f)
  have pv: "pseudo_value (hs @ [f]) n = (if name = bstr n then val else pseudo_value hs n)" for n
    using w(2,4) assms(1) by (simp add: pseudo_value_snoc f)
  have hh: "bstr ''host'' \<in> fst ` set (hs @ [f]) \<longleftrightarrow> bstr ''host'' \<in> fst ` set hs"
    using host by (auto simp: f)
  have scan: "scan_field f s = pseudo_field name val s" for s
    using w(1) n by (simp add: f scan_field_def)
  have "name = bstr '':method'' \<or> name = bstr '':path'' \<or> name = bstr '':scheme'' \<or>
       name = bstr '':authority'' \<or> name = bstr '':protocol''"
    using w(3) by (simp add: pseudoNames_def)
  then show "snd (scan_field f (scan_of hs)) = scan_of (hs @ [f])"
    unfolding scan scan_of_def hp pv hh using w(2,4) assms(1)
    by (elim disjE) (simp_all add: pseudo_field_def seen [OF w(2)])
qed

lemma scan_field_regular:
  assumes "\<not> is_pseudo f" and "wf_head hs"
  shows "fst (scan_field f (scan_of hs)) = wf_head (hs @ [f])"
    and "wf_head (hs @ [f]) \<Longrightarrow> snd (scan_field f (scan_of hs)) = scan_of (hs @ [f])"
proof -
  obtain name val where f: "f = (name, val)" by (cases f)
  have n: "name \<noteq> [] \<Longrightarrow> name ! 0 \<noteq> byte_of CHR '':''"
    using assms(1) by (auto simp: f is_pseudo_def hd_conv_nth)
  show "fst (scan_field f (scan_of hs)) = wf_head (hs @ [f])"
    unfolding wf_head_snoc_regular [OF assms(1)] using assms(2) n
    by (auto simp: f scan_field_def Let_def)
  assume "wf_head (hs @ [f])"
  then show "snd (scan_field f (scan_of hs)) = scan_of (hs @ [f])"
    unfolding wf_head_snoc_regular [OF assms(1)] using assms(1) n
    by (auto simp: f scan_field_def Let_def scan_of_def has_pseudo_snoc pseudo_value_snoc)
qed

lemma scan_fields_decides:
  "fst (scan_fields hs head_scan0) = wf_head hs \<and>
   (wf_head hs \<longrightarrow> snd (scan_fields hs head_scan0) = scan_of hs)"
proof (induction hs rule: rev_induct)
  case Nil
  show ?case by (simp add: wf_head_Nil head_scan0_def scan_of_def has_pseudo_def pseudo_value_def)
next
  case (snoc f hs)
  show ?case
  proof (cases "wf_head hs")
    case True
    with snoc.IH have "scan_fields hs head_scan0 = (True, scan_of hs)" by (simp add: prod_eq_iff)
    then have "scan_fields (hs @ [f]) head_scan0 = scan_field f (scan_of hs)"
      by (simp add: scan_fields_append split: prod.splits bool.splits)
    then show ?thesis
      using scan_field_pseudo [OF _ True] scan_field_regular [OF _ True] by (cases "is_pseudo f") simp_all
  next
    case False
    then have "\<not> wf_head (hs @ [f])"
      by (cases "is_pseudo f") (simp_all add: wf_head_snoc_pseudo wf_head_snoc_regular)
    moreover have "\<not> fst (scan_fields hs head_scan0)" using snoc.IH False by simp
    ultimately show ?thesis by (auto simp: scan_fields_append split: prod.splits bool.splits)
  qed
qed

text \<open>C17: The shared head classifier decides exactly the well-formed request heads. A field list
  is a request when the pseudo-headers come first, are known and unrepeated, every value and
  every regular name is clean, the method is one the server routes, the target is complete
  and an http(s) target has an authority; it is a WebSocket upgrade when it is a complete
  extended CONNECT; everything else is invalid. For an accepted head the extracted method,
  path, scheme, authority and protocol are the values of the pseudo-headers.
\<close>

theorem classify_decides_heads:
  "(fst (classifyRequestHead hs) = rhRequest \<longleftrightarrow> request_head hs) \<and>
   (fst (classifyRequestHead hs) = rhWebSocket \<longleftrightarrow> websocket_head hs) \<and>
   (fst (classifyRequestHead hs) \<noteq> rhInvalid \<longrightarrow> snd (classifyRequestHead hs) = scan_of hs)"
proof (cases "wf_head hs")
  case True
  then have s: "scan_fields hs head_scan0 = (True, scan_of hs)"
    using scan_fields_decides [of hs] by (simp add: prod_eq_iff)
  have p: "\<not> has_pseudo hs '':protocol'' \<Longrightarrow> pseudo_value hs '':protocol'' = []"
    by (auto simp: has_pseudo_def pseudo_value_def split: option.splits dest: map_of_SomeD
        intro: rev_image_eqI)
  have "fst (classifyRequestHead hs) = classify_scan (scan_of hs)"
      "snd (classifyRequestHead hs) = scan_of hs"
    by (simp_all add: classifyRequestHead_def s)
  moreover have "classify_scan (scan_of hs) = rhRequest \<longleftrightarrow> request_head hs"
      "classify_scan (scan_of hs) = rhWebSocket \<longleftrightarrow> websocket_head hs"
    using True p by (auto simp: classify_scan_def scan_of_def request_head_def websocket_head_def
        has_target_def has_authority_def isKnownMethod_def)
  ultimately show ?thesis by simp
next
  case False
  then have "\<not> fst (scan_fields hs head_scan0)" using scan_fields_decides [of hs] by simp
  then have "fst (classifyRequestHead hs) = rhInvalid"
    by (auto simp: classifyRequestHead_def split: prod.splits bool.splits)
  with False show ?thesis by (simp add: request_head_def websocket_head_def)
qed

text \<open>A GET with its four pseudo-headers and one regular field.\<close>

definition sample_head :: "field list" where
  "sample_head = [(bstr '':method'', bstr ''GET''), (bstr '':path'', bstr ''/echo''),
     (bstr '':scheme'', bstr ''https''), (bstr '':authority'', bstr ''localhost''),
     (bstr ''accept'', bstr ''text/plain'')]"

theorem classify_decides_heads_witness:
  "fst (classifyRequestHead sample_head) = rhRequest \<and>
   rh_path (snd (classifyRequestHead sample_head)) = bstr ''/echo''"
proof -
  have "fst (classifyRequestHead sample_head) = rhRequest" by code_simp
  moreover from this have "snd (classifyRequestHead sample_head) = scan_of sample_head"
    using classify_decides_heads [of sample_head] by simp
  moreover have "rh_path (scan_of sample_head) = bstr ''/echo''" by code_simp
  ultimately show ?thesis by simp
qed

section \<open>Reading a content length\<close>

definition decimal_from :: "int \<Rightarrow> bytes \<Rightarrow> int" where
  "decimal_from = foldl (\<lambda>v c. v * 10 + int (unat (c - byte_of CHR ''0'')))"

lemma decimal_from_simps [simp]:
  "decimal_from v [] = v"
  "decimal_from v (c # cs) = decimal_from (v * 10 + int (unat (c - 48))) cs"
  by (simp_all add: decimal_from_def)

lemma decimal_from_ge: "0 \<le> v \<Longrightarrow> v \<le> decimal_from v cs"
proof (induction cs arbitrary: v)
  case (Cons c cs)
  have "v \<le> v * 10 + int (unat (c - 48))" using Cons.prems by linarith
  also have "\<dots> \<le> decimal_from (v * 10 + int (unat (c - 48))) cs" using Cons.prems by (intro Cons.IH) simp
  finally show ?case by simp
qed simp

lemma digitA_value: "digitA c \<Longrightarrow> unat (c - 48) \<le> 9"
  by (auto simp: digitA_def unat_sub word_le_nat_alt)

text \<open>The largest length the loop accepts: eight below the largest \<open>int64\<close>.\<close>

definition content_length_max :: int where
  "content_length_max = 9223372036854775799"

lemma content_length_loop_digits:
  "list_all digitA cs \<Longrightarrow> 0 \<le> v \<Longrightarrow> v \<le> content_length_max \<Longrightarrow>
   content_length_loop cs v =
     (if decimal_from v cs \<le> content_length_max then Inr (decimal_from v cs) else Inl clOverflow)"
proof (induction cs arbitrary: v)
  case (Cons c cs)
  let ?v = "v * 10 + int (unat (c - 48))"
  have d: "unat (c - 48) \<le> 9" using Cons.prems(1) by (simp add: digitA_value)
  show ?case
  proof (cases "(int64_high - 9) div 10 < v")
    case True
    then have "content_length_max < v * 10" by (simp add: int64_high_def content_length_max_def)
    then have "content_length_max < ?v" by linarith
    moreover have "?v \<le> decimal_from ?v cs" using Cons.prems(2) by (intro decimal_from_ge) simp
    ultimately show ?thesis using True Cons.prems(1) by simp
  next
    case False
    then have "v \<le> 922337203685477579" by (simp add: int64_high_def)
    then have le: "0 \<le> ?v" "?v \<le> content_length_max"
      unfolding content_length_max_def using d Cons.prems(2) by linarith+
    then have "int64 ?v = ?v"
      by (intro int64_id) (simp_all add: int64_high_def content_length_max_def)
    then show ?thesis using False le Cons.IH [of ?v] Cons.prems(1) by simp
  qed
qed simp

lemma content_length_loop_junk:
  "\<not> list_all digitA cs \<Longrightarrow> content_length_loop cs v \<in> {Inl clMalformed, Inl clOverflow}"
  by (induction cs arbitrary: v) auto

text \<open>A content length is read exactly or refused. A value made of digits is accepted with its
  decimal value when it is at most 9223372036854775799, so no step of the accumulation wraps
  around, unless it contradicts an earlier length; a larger one is an overflow; an empty value
  or one with any other byte in it (a sign, a space, an underscore) is never accepted, and
  whatever is refused leaves the caller's value alone.
\<close>

theorem content_length_exact:
  "parseContentLength val prev value =
     (if val \<noteq> [] \<and> list_all digitA val then
        (if content_length_max < decimal_from 0 val then (clOverflow, value)
         else if 0 \<le> prev \<and> prev \<noteq> decimal_from 0 val then (clConflict, value)
         else (clOk, decimal_from 0 val))
      else (fst (parseContentLength val prev value), value)) \<and>
   (val = [] \<or> \<not> list_all digitA val \<longrightarrow> fst (parseContentLength val prev value) \<in> {clMalformed, clOverflow})"
proof (cases "val \<noteq> [] \<and> list_all digitA val")
  case True
  then show ?thesis
    by (simp add: parseContentLength_def content_length_loop_digits content_length_max_def)
next
  case False
  then show ?thesis using content_length_loop_junk [of val 0] by (auto simp: parseContentLength_def)
qed

theorem content_length_exact_witness:
  "parseContentLength (bstr ''1024'') (- 1) 0 = (clOk, 1024) \<and>
   fst (parseContentLength (bstr ''1_0'') (- 1) 0) \<in> {clMalformed, clOverflow}"
proof -
  have "parseContentLength (bstr ''1024'') (- 1) 0 = (clOk, 1024)"
    using content_length_exact [of "bstr ''1024''" "- 1" 0]
    by (simp add: bstr_def digitA_def content_length_max_def)
  moreover have "\<not> list_all digitA (bstr ''1_0'')" by code_simp
  ultimately show ?thesis using content_length_exact [of "bstr ''1_0''" "- 1" 0] by blast
qed

end
