(* ===== verification/H2_Headers.thy ===== *)
theory H2_Headers
  imports Hpack_Roundtrip H2_Frames Fieldrules
begin

text \<open>
  The header blocks an HTTP/2 response is made of (\<open>src/vortex/http2/codec.nim\<close>):
  \<open>encodeExtraHeader\<close>, \<open>encodeTrailerField\<close>, \<open>emitTableSizeUpdate\<close>, the block that
  \<open>h2Respond\<close>, \<open>h2SendInformational\<close> and \<open>emitTrailers\<close> build, and its split into a
  HEADERS frame and CONTINUATION frames (\<open>emitHeaderBlock\<close>). Of the connection they use
  the pending table size and the peer's frame size.
\<close>

section \<open>The writers\<close>

text \<open>\<open>strutils.toLowerAscii\<close>\<close>

definition toLowerAscii :: "bytes \<Rightarrow> bytes" where
  "toLowerAscii s = map toLowerA s"

definition encodeExtraHeader :: "bytes \<Rightarrow> bytes \<Rightarrow> bytes \<Rightarrow> bytes" where
  "encodeExtraHeader hb name val =
     (if isForbiddenResponseField name False then hb
      else if isLowerAscii name then encodeHeader hb name val
      else encodeHeader hb (toLowerAscii name) val)"

definition encodeTrailerField :: "bytes \<Rightarrow> bytes \<Rightarrow> bytes \<Rightarrow> bytes" where
  "encodeTrailerField hb name val =
     (if length name = 0 \<or> name ! 0 = byte_of CHR '':'' then hb
      else if forbiddenResponseTrailerField name then hb
      else if \<not> validFieldValue val then hb
      else if isLowerAscii name then (if validFieldName name then encodeHeader hb name val else hb)
      else let ln = toLowerAscii name in
        if validFieldName ln then encodeHeader hb ln val else hb)"

text \<open>The block and the new \<open>pendingTableSizeUpdate\<close> (\<open>None\<close> for -1).\<close>

definition emitTableSizeUpdate :: "nat option \<Rightarrow> bytes \<Rightarrow> bytes \<times> nat option" where
  "emitTableSizeUpdate pend hb =
     (case pend of Some v \<Rightarrow> (encodeInt hb v 5 0x20, None) | None \<Rightarrow> (hb, None))"

text \<open>\<open>connection.bodilessStatus\<close>\<close>

definition bodilessStatus :: "nat \<Rightarrow> bool" where
  "bodilessStatus code \<longleftrightarrow> (100 \<le> code \<and> code \<le> 199) \<or> code = 204 \<or> code = 304"

text \<open>\<open>strutils.cmpIgnoreCase(a, b) == 0\<close>\<close>

definition same_name :: "bytes \<Rightarrow> bytes \<Rightarrow> bool" where
  "same_name a b \<longleftrightarrow> map toLowerA a = map toLowerA b"

record response_head =
  rs_code :: nat
  rs_date :: bytes
  rs_server :: bytes
  rs_contentType :: bytes
  rs_extra :: "field list"
  rs_bodyLen :: nat
  rs_altSvc :: bytes
  rs_sec :: "field list"

definition respond_block :: "nat option \<Rightarrow> response_head \<Rightarrow> bytes" where
  "respond_block pend r =
     (let bodiless = bodilessStatus (rs_code r);
          hb = fst (emitTableSizeUpdate pend []);
          hb = encodeStatus hb (rs_code r);
          hb = (if 0 < length (rs_server r) then encodeHeader hb (bstr ''server'') (rs_server r) else hb);
          hb = encodeHeader hb (bstr ''date'') (rs_date r);
          hb = (if 0 < length (rs_contentType r) \<and> \<not> bodiless
                then encodeHeader hb (bstr ''content-type'') (rs_contentType r) else hb);
          hb = (if \<not> bodiless then encodeHeader hb (bstr ''content-length'') (map of_nat (dec (rs_bodyLen r))) else hb);
          hb = (if 0 < length (rs_altSvc r) then encodeHeader hb (bstr ''alt-svc'') (rs_altSvc r) else hb);
          hb = foldl (\<lambda>hb (name, val). encodeExtraHeader hb name val) hb (rs_extra r) in
      foldl (\<lambda>hb (name, val).
        if list_ex (\<lambda>(hn, _). same_name hn name) (rs_extra r) then hb
        else encodeExtraHeader hb name val) hb (rs_sec r))"

definition informational_block :: "nat option \<Rightarrow> nat \<Rightarrow> field list \<Rightarrow> bytes" where
  "informational_block pend code headers =
     foldl (\<lambda>hb (name, val). encodeExtraHeader hb name val)
       (encodeStatus (fst (emitTableSizeUpdate pend [])) code) headers"

definition trailer_block :: "nat option \<Rightarrow> field list \<Rightarrow> bytes" where
  "trailer_block pend trailers =
     foldl (\<lambda>hb (name, val). encodeTrailerField hb name val) (fst (emitTableSizeUpdate pend [])) trailers"

text \<open>The loop of \<open>emitHeaderBlock\<close>. With a frame size of zero it would not end: \<open>None\<close>.\<close>

partial_function (option) emit_block_loop ::
  "nat \<Rightarrow> 32 word \<Rightarrow> bytes \<Rightarrow> byte \<Rightarrow> nat \<Rightarrow> bool \<Rightarrow> bytes \<Rightarrow> bytes option" where
  "emit_block_loop peerMaxFrame sid hb firstFrameFlags off isFirst wbuf =
     (if isFirst \<or> off < length hb then
        let chunk = min (length hb - off) peerMaxFrame;
            flags = (if length hb \<le> off + chunk then flagEndHeaders else 0);
            flags = (if isFirst then flags OR firstFrameFlags else flags);
            wbuf = addFrameHeader wbuf chunk (if isFirst then ftHeaders else ftContinuation) flags sid;
            wbuf = wbuf @ take chunk (drop off hb) in
        emit_block_loop peerMaxFrame sid hb firstFrameFlags (off + chunk) False wbuf
      else Some wbuf)"

definition emitHeaderBlock :: "nat \<Rightarrow> 32 word \<Rightarrow> bytes \<Rightarrow> byte \<Rightarrow> bytes \<Rightarrow> bytes option" where
  "emitHeaderBlock peerMaxFrame sid hb firstFrameFlags wbuf =
     emit_block_loop peerMaxFrame sid hb firstFrameFlags 0 True wbuf"

section \<open>The fields of a response\<close>

text \<open>What \<open>encodeExtraHeader\<close> lets through, and under which name.\<close>

definition extra_fields :: "field list \<Rightarrow> field list" where
  "extra_fields hs = map (\<lambda>(n, v). (toLowerAscii n, v)) (filter (\<lambda>(n, _). \<not> isForbiddenResponseField n False) hs)"

definition unshadowed :: "field list \<Rightarrow> field list \<Rightarrow> field list" where
  "unshadowed extra sec = filter (\<lambda>(n, _). \<not> list_ex (\<lambda>(hn, _). same_name hn n) extra) sec"

definition response_fields :: "response_head \<Rightarrow> field list" where
  "response_fields r =
     (if rs_server r \<noteq> [] then [(bstr ''server'', rs_server r)] else []) @
     [(bstr ''date'', rs_date r)] @
     (if rs_contentType r \<noteq> [] \<and> \<not> bodilessStatus (rs_code r)
      then [(bstr ''content-type'', rs_contentType r)] else []) @
     (if \<not> bodilessStatus (rs_code r)
      then [(bstr ''content-length'', map of_nat (dec (rs_bodyLen r)))] else []) @
     (if rs_altSvc r \<noteq> [] then [(bstr ''alt-svc'', rs_altSvc r)] else []) @
     extra_fields (rs_extra r) @ extra_fields (unshadowed (rs_extra r) (rs_sec r))"

lemma toLowerAscii_id: "isLowerAscii s \<Longrightarrow> toLowerAscii s = s"
  unfolding toLowerAscii_def isLowerAscii_def by (induction s) (auto simp: toLowerA_id)

lemma encodeExtraHeader_eq:
  "encodeExtraHeader hb n v =
     (if isForbiddenResponseField n False then hb else encodeHeader hb (toLowerAscii n) v)"
  by (simp add: encodeExtraHeader_def toLowerAscii_id)

lemma extra_fields_simps [simp]:
  "extra_fields [] = []"
  "extra_fields ((n, v) # hs) =
     (if isForbiddenResponseField n False then extra_fields hs else (toLowerAscii n, v) # extra_fields hs)"
  by (simp_all add: extra_fields_def)

lemma unshadowed_simps [simp]:
  "unshadowed extra [] = []"
  "unshadowed extra ((n, v) # hs) =
     (if list_ex (\<lambda>(hn, _). same_name hn n) extra then unshadowed extra hs else (n, v) # unshadowed extra hs)"
  by (simp_all add: unshadowed_def)

lemma foldl_extra: "foldl (\<lambda>hb (n, v). encodeExtraHeader hb n v) hb hs = encode_fields hb (extra_fields hs)"
  by (induction hs arbitrary: hb) (auto simp: encodeExtraHeader_eq)

lemma foldl_unshadowed:
  "foldl (\<lambda>hb (n, v). if list_ex (\<lambda>(hn, _). same_name hn n) extra then hb else encodeExtraHeader hb n v) hb hs =
   encode_fields hb (extra_fields (unshadowed extra hs))"
proof (induction hs arbitrary: hb)
  case (Cons f hs)
  obtain n v where "f = (n, v)" by (cases f)
  then show ?case using Cons.IH
    by (cases "list_ex (\<lambda>(hn, _). same_name hn n) extra") (simp_all add: encodeExtraHeader_eq)
qed simp

lemma respond_block_eq:
  "respond_block pend r =
     encode_fields (encodeStatus (fst (emitTableSizeUpdate pend [])) (rs_code r)) (response_fields r)"
  by (simp add: respond_block_def response_fields_def Let_def foldl_extra foldl_unshadowed encode_fields_concat)

text \<open>No connection-specific field and no upper-case name leaves in a response.\<close>

lemma isForbidden_lower: "isForbiddenResponseField (toLowerAscii n) t = isForbiddenResponseField n t"
proof -
  have "eqIgnoreAsciiCase (toLowerAscii n) lit = eqIgnoreAsciiCase n lit" for lit
    by (auto simp: eqIgnoreAsciiCase_eq toLowerAscii_def)
  then show ?thesis by (simp add: isForbiddenResponseField_def)
qed

lemma extra_fields_clean:
  "f \<in> set (extra_fields hs) \<Longrightarrow> \<not> isForbiddenResponseField (fst f) False \<and> isLowerAscii (fst f)"
  by (auto simp: extra_fields_def isForbidden_lower isLowerAscii_def list_all_iff) (auto simp: toLowerAscii_def)

lemma own_names_clean:
  "n \<in> {''server'', ''date'', ''content-type'', ''content-length'', ''alt-svc''} \<Longrightarrow>
     \<not> isForbiddenResponseField (bstr n) False \<and> isLowerAscii (bstr n)"
proof -
  have "list_all (\<lambda>n. \<not> isForbiddenResponseField (bstr n) False \<and> isLowerAscii (bstr n))
      [''server'', ''date'', ''content-type'', ''content-length'', ''alt-svc'']" by code_simp
  then show "n \<in> {''server'', ''date'', ''content-type'', ''content-length'', ''alt-svc''} \<Longrightarrow>
     \<not> isForbiddenResponseField (bstr n) False \<and> isLowerAscii (bstr n)" by auto
qed

lemma response_fields_clean:
  assumes "f \<in> set (response_fields r)"
  shows "\<not> isForbiddenResponseField (fst f) False \<and> isLowerAscii (fst f)"
proof -
  consider "f \<in> set (extra_fields (rs_extra r))"
    | "f \<in> set (extra_fields (unshadowed (rs_extra r) (rs_sec r)))"
    | n where "fst f = bstr n" "n \<in> {''server'', ''date'', ''content-type'', ''content-length'', ''alt-svc''}"
    using assms by (auto simp: response_fields_def split: if_splits)
  then show ?thesis
    by cases (simp_all add: extra_fields_clean own_names_clean)
qed

section \<open>Frames\<close>

definition frame_bytes :: "FrameType \<Rightarrow> byte \<Rightarrow> 32 word \<Rightarrow> bytes \<Rightarrow> bytes" where
  "frame_bytes t f sid p = addFrameHeader [] (length p) t f sid @ p"

text \<open>A receiver: the frames of a buffer, header by header.\<close>

function read_frames :: "bytes \<Rightarrow> (FrameHeader \<times> bytes) list" where
  "read_frames buf =
     (let h = parseFrameHeader buf 0 in
      if length buf < frameHeaderLen + fh_length h then []
      else (h, take (fh_length h) (drop frameHeaderLen buf))
        # read_frames (drop (frameHeaderLen + fh_length h) buf))"
  by pat_completeness auto
termination
  by (relation "measure length") (auto simp: frameHeaderLen_def)

declare read_frames.simps [simp del]

lemma read_frames_Nil: "read_frames [] = []"
  by (subst read_frames.simps) (simp add: frameHeaderLen_def)

lemma addFrameHeader_append: "addFrameHeader buf n t f sid = buf @ addFrameHeader [] n t f sid"
  by (simp add: addFrameHeader_def add24_def add32_def)

lemma read_frames_Cons:
  assumes "length p < 2 ^ 24"
  shows "read_frames (frame_bytes t f sid p @ rest) =
    (\<lparr>fh_length = length p, fh_typ = frame_type t, fh_flags = f, fh_streamId = sid AND 0x7fffffff\<rparr>, p)
      # read_frames rest"
proof -
  have "parseFrameHeader (frame_bytes t f sid p @ rest) 0 =
      \<lparr>fh_length = length p, fh_typ = frame_type t, fh_flags = f, fh_streamId = sid AND 0x7fffffff\<rparr>"
    using parse_addFrameHeader [OF assms, of "[]" t f sid "p @ rest"] by (simp add: frame_bytes_def)
  then show ?thesis
    by (subst read_frames.simps) (simp add: frame_bytes_def)
qed

text \<open>The CONTINUATION frames of what is left of a block: flags and payloads.\<close>

function split_block :: "nat \<Rightarrow> bytes \<Rightarrow> (byte \<times> bytes) list" where
  "split_block m hb =
     (if hb = [] \<or> m = 0 then []
      else (if length hb \<le> m then flagEndHeaders else 0, take m hb) # split_block m (drop m hb))"
  by pat_completeness auto
termination
  by (relation "measure (\<lambda>(_, hb). length hb)") auto

declare split_block.simps [simp del]

lemma emit_continuations:
  assumes "0 < m" "off \<le> length hb"
  shows "emit_block_loop m sid hb fl off False wbuf =
    Some (wbuf @ concat (map (\<lambda>(f, p). frame_bytes ftContinuation f sid p) (split_block m (drop off hb))))"
  using assms
proof (induction "length hb - off" arbitrary: off wbuf rule: less_induct)
  case less
  show ?case
  proof (cases "off < length hb")
    case True
    let ?c = "min (length hb - off) m"
    let ?f = "if length hb \<le> off + ?c then flagEndHeaders else 0"
    let ?w = "addFrameHeader wbuf ?c ftContinuation ?f sid @ take ?c (drop off hb)"
    have step: "emit_block_loop m sid hb fl off False wbuf = emit_block_loop m sid hb fl (off + ?c) False ?w"
      using True by (subst emit_block_loop.simps) (simp add: Let_def)
    have "emit_block_loop m sid hb fl (off + ?c) False ?w =
        Some (?w @ concat (map (\<lambda>(f, p). frame_bytes ftContinuation f sid p) (split_block m (drop (off + ?c) hb))))"
      using True less.prems by (intro less.hyps) auto
    moreover have "split_block m (drop off hb) =
        (?f, take ?c (drop off hb)) # split_block m (drop (off + ?c) hb)"
      using True less.prems by (subst split_block.simps) (auto simp: min_def add.commute)
    moreover have "?w = wbuf @ frame_bytes ftContinuation ?f sid (take ?c (drop off hb))"
      unfolding frame_bytes_def by (subst addFrameHeader_append) (simp add: min_def)
    ultimately show ?thesis unfolding step by simp
  next
    case False
    then show ?thesis by (subst emit_block_loop.simps) (simp add: split_block.simps)
  qed
qed

lemma emitHeaderBlock_frames:
  assumes "0 < m"
  shows "emitHeaderBlock m sid hb fl wbuf =
    Some (wbuf @ frame_bytes ftHeaders ((if length hb \<le> m then flagEndHeaders else 0) OR fl) sid (take m hb) @
      concat (map (\<lambda>(f, p). frame_bytes ftContinuation f sid p) (split_block m (drop m hb))))"
proof -
  let ?c = "min (length hb) m" and ?f = "(if length hb \<le> m then flagEndHeaders else 0) OR fl"
  let ?w = "addFrameHeader wbuf ?c ftHeaders ?f sid @ take ?c hb"
  have "emitHeaderBlock m sid hb fl wbuf = emit_block_loop m sid hb fl ?c False ?w"
    unfolding emitHeaderBlock_def by (subst emit_block_loop.simps) (auto simp: Let_def min_def)
  also have "\<dots> = Some (?w @ concat (map (\<lambda>(f, p). frame_bytes ftContinuation f sid p) (split_block m (drop ?c hb))))"
    using assms by (intro emit_continuations) auto
  also have "split_block m (drop ?c hb) = split_block m (drop m hb)" by (simp add: min_def)
  also have "?w = wbuf @ frame_bytes ftHeaders ?f sid (take m hb)"
    unfolding frame_bytes_def by (subst addFrameHeader_append) (simp add: min_def)
  finally show ?thesis by simp
qed

lemma split_block_payload: "0 < m \<Longrightarrow> concat (map snd (split_block m hb)) = hb"
proof (induction m hb rule: split_block.induct)
  case (1 m hb)
  then show ?case by (subst split_block.simps) auto
qed

lemma split_block_sizes: "f \<in> set (split_block m hb) \<Longrightarrow> length (snd f) \<le> m"
proof (induction m hb rule: split_block.induct)
  case (1 m hb)
  then show ?case by (subst (asm) (2) split_block.simps) (auto split: if_splits)
qed

lemma split_block_flags:
  "0 < m \<Longrightarrow> hb \<noteq> [] \<Longrightarrow> \<exists>k. map fst (split_block m hb) = replicate k 0 @ [flagEndHeaders]"
proof (induction m hb rule: split_block.induct)
  case (1 m hb)
  show ?case
  proof (cases "length hb \<le> m")
    case True
    then have "split_block m hb = [(flagEndHeaders, take m hb)]"
      using "1.prems" by (subst split_block.simps) (simp add: split_block.simps)
    then show ?thesis by (intro exI [of _ 0]) simp
  next
    case False
    then have s: "split_block m hb = (0, take m hb) # split_block m (drop m hb)"
      using "1.prems" by (subst split_block.simps) simp
    obtain k where "map fst (split_block m (drop m hb)) = replicate k 0 @ [flagEndHeaders]"
      using "1.IH" "1.prems" False by auto
    then show ?thesis by (intro exI [of _ "Suc k"]) (simp add: s)
  qed
qed

definition received_frame :: "FrameType \<Rightarrow> 32 word \<Rightarrow> byte \<times> bytes \<Rightarrow> FrameHeader \<times> bytes" where
  "received_frame t sid x = (\<lparr>fh_length = length (snd x), fh_typ = frame_type t, fh_flags = fst x,
     fh_streamId = sid AND 0x7fffffff\<rparr>, snd x)"

lemma read_frames_concat:
  "\<forall>x \<in> set xs. length (snd x) < 2 ^ 24 \<Longrightarrow>
   read_frames (concat (map (\<lambda>(f, p). frame_bytes t f sid p) xs)) = map (received_frame t sid) xs"
  by (induction xs) (auto simp: read_frames_Nil read_frames_Cons received_frame_def)

text \<open>
  A block on the wire: one HEADERS frame with the caller's stream flag, then CONTINUATION
  frames, all on one stream and within the peer's frame size, END_HEADERS on the last only.
\<close>

definition frames_ok :: "nat \<Rightarrow> 32 word \<Rightarrow> byte \<Rightarrow> (FrameHeader \<times> bytes) list \<Rightarrow> bool" where
  "frames_ok m sid fl fs \<longleftrightarrow>
     fs \<noteq> [] \<and> fh_typ (fst (hd fs)) = frame_type ftHeaders \<and>
     fh_flags (fst (hd fs)) AND flagEndStream = fl \<and>
     (\<forall>f \<in> set (tl fs). fh_typ (fst f) = frame_type ftContinuation) \<and>
     (\<forall>f \<in> set fs. fh_length (fst f) = length (snd f) \<and> length (snd f) \<le> m \<and>
        fh_streamId (fst f) = sid AND 0x7fffffff) \<and>
     (\<exists>k. map (\<lambda>f. fh_flags (fst f) AND flagEndHeaders) fs = replicate k 0 @ [flagEndHeaders])"

lemma emitHeaderBlock_ok:
  assumes "0 < m" "m < 2 ^ 24" "fl = 0 \<or> fl = flagEndStream"
  shows "\<exists>out. emitHeaderBlock m sid hb fl wbuf = Some (wbuf @ out) \<and> frames_ok m sid fl (read_frames out) \<and>
    concat (map snd (read_frames out)) = hb"
proof -
  let ?f = "(if length hb \<le> m then flagEndHeaders else 0) OR fl" and ?xs = "split_block m (drop m hb)"
  let ?out = "frame_bytes ftHeaders ?f sid (take m hb) @
    concat (map (\<lambda>(f, p). frame_bytes ftContinuation f sid p) ?xs)"
  have sizes: "\<forall>x \<in> set ?xs. length (snd x) \<le> m" using split_block_sizes by blast
  then have "\<forall>x \<in> set ?xs. length (snd x) < 2 ^ 24" using assms(2) by (meson le_less_trans)
  then have rd: "read_frames ?out =
      received_frame ftHeaders sid (?f, take m hb) # map (received_frame ftContinuation sid) ?xs"
    using assms(2) by (simp add: read_frames_Cons read_frames_concat received_frame_def)
  have pay: "concat (map snd (read_frames ?out)) = hb"
    using split_block_payload [OF assms(1), of "drop m hb"]
    by (simp add: rd received_frame_def comp_def)
  have flags: "\<exists>k. map (\<lambda>f. fh_flags (fst f) AND flagEndHeaders) (read_frames ?out) = replicate k 0 @ [flagEndHeaders]"
  proof (cases "length hb \<le> m")
    case True
    then have "?xs = []" by (simp add: split_block.simps)
    then show ?thesis using True assms(3) unfolding rd
      by (intro exI [of _ 0]) (auto simp: received_frame_def flagEndHeaders_def flagEndStream_def)
  next
    case False
    then obtain k where k: "map fst ?xs = replicate k 0 @ [flagEndHeaders]"
      using split_block_flags [OF assms(1), of "drop m hb"] by auto
    have "map (\<lambda>f. fh_flags (fst f) AND flagEndHeaders) (map (received_frame ftContinuation sid) ?xs) =
        map (\<lambda>f. f AND flagEndHeaders) (map fst ?xs)"
      by (simp add: received_frame_def comp_def)
    also have "\<dots> = replicate k 0 @ [flagEndHeaders]" unfolding k by simp
    finally show ?thesis using False assms(3) unfolding rd
      by (intro exI [of _ "Suc k"]) (auto simp: received_frame_def flagEndHeaders_def flagEndStream_def)
  qed
  have "fh_flags (fst (hd (read_frames ?out))) AND flagEndStream = fl"
    using assms(3) unfolding rd by (auto simp: received_frame_def flagEndHeaders_def flagEndStream_def)
  then have "frames_ok m sid fl (read_frames ?out)"
    using flags sizes unfolding frames_ok_def by (auto simp: rd received_frame_def)
  then show ?thesis using pay emitHeaderBlock_frames [OF assms(1), of sid hb fl wbuf] by blast
qed

section \<open>A response, read back\<close>

lemma evict_keeps: "dt_maxDecoded (evict d) = dt_maxDecoded d"
proof (induction d rule: evict.induct)
  case (1 d)
  then show ?case by (subst evict.simps) simp
qed

definition resized :: "nat option \<Rightarrow> HpackDecoder \<Rightarrow> HpackDecoder" where
  "resized pend d = (case pend of None \<Rightarrow> d | Some v \<Rightarrow> evict (d\<lparr>dt_maxSize := int v\<rparr>))"

definition resize_allowed :: "nat option \<Rightarrow> HpackDecoder \<Rightarrow> bool" where
  "resize_allowed pend d = (case pend of None \<Rightarrow> True | Some v \<Rightarrow> int v \<le> 2 ^ 24 \<and> int v \<le> dt_settingsMax d)"

definition fits :: "HpackDecoder \<Rightarrow> field list \<Rightarrow> bool" where
  "fits d hs \<longleftrightarrow> sendable hs \<and> (dt_maxDecoded d \<le> 0 \<or> list_size hs \<le> dt_maxDecoded d)"

lemma decode_status_block:
  assumes "st < 1000" "resize_allowed pend d" "fits d (status_field st # hs)"
    and hb: "hb = encode_fields (encodeStatus (fst (emitTableSizeUpdate pend [])) st) hs"
  shows "decodeHeaderBlock d hb 0 (length hb) hs0 = (None, resized pend d, hs0 @ status_field st # hs)"
proof -
  let ?u = "fst (emitTableSizeUpdate pend [])" and ?e = "encodeStatus [] st" and ?f = "encode_fields [] hs"
  have split: "hb = ?u @ ?e @ ?f"
    unfolding hb by (subst encode_fields_append, subst encodeStatus_append) simp
  let ?s0 = "\<lparr>bs_dec = d, bs_seenHeader = False, bs_decoded = 0, bs_headers = hs0\<rparr>"
  let ?s1 = "?s0\<lparr>bs_dec := resized pend d\<rparr>"
  let ?s2 = "add_header (status_field st) (?s1\<lparr>bs_decoded := entry_size (status_field st)\<rparr>)"
  have md: "dt_maxDecoded (resized pend d) = dt_maxDecoded d"
    by (simp add: resized_def evict_keeps split: option.splits)
  have ne: "?e \<noteq> []"
    using encodeStatus_indexed [of st] encodeStatus_literal [of st]
      encodeHeader_hd [of "bstr '':status''" "map of_nat (dec st)"]
    by (cases "0 < status_index st") auto
  have 1: "decode_block_loop hb 0 (length hb) ?s0 = decode_block_loop hb (length ?u) (length hb) ?s1"
  proof (cases pend)
    case None
    then show ?thesis by (simp add: emitTableSizeUpdate_def resized_def)
  next
    case (Some v)
    have "decode_field ([] @ encodeInt [] v 5 0x20 @ ?e @ ?f) (length ([] :: bytes)) (length hb) ?s0 =
        Inr (length ([] :: bytes) + length (encodeInt [] v 5 0x20),
          ?s0\<lparr>bs_dec := evict ((bs_dec ?s0)\<lparr>dt_maxSize := int v\<rparr>)\<rparr>)"
      using assms(2) by (intro decode_field_size_update) (simp_all add: resize_allowed_def Some split emitTableSizeUpdate_def)
    then have "decode_field hb 0 (length hb) ?s0 = Inr (length ?u, ?s1)"
      by (simp add: split emitTableSizeUpdate_def resized_def Some)
    then show ?thesis using ne by (intro decode_block_step) (simp_all add: split)
  qed
  have room: "room ?s1 (entry_size (status_field st))" "room ?s2 (list_size hs)"
    using assms(3) list_size_nonneg [of hs] by (auto simp: room_def add_header_def fits_def md)
  have "decode_field (?u @ ?e @ ?f) (length ?u) (length hb) ?s1 =
      nbind (accrue (status_field st) ?s1)
        (\<lambda>s. Inr (length ?u + length ?e, add_header (status_field st) s))"
    by (rule decode_field_status [OF assms(1)]) (simp add: split)
  then have "decode_field hb (length ?u) (length hb) ?s1 = Inr (length ?u + length ?e, ?s2)"
    using accrue_room [OF room(1)] by (simp add: split)
  then have 2: "decode_block_loop hb (length ?u) (length hb) ?s1 =
      decode_block_loop hb (length ?u + length ?e) (length hb) ?s2"
    using ne by (intro decode_block_step) (simp_all add: split)
  have 3: "decode_block_loop hb (length ?u + length ?e) (length hb) ?s2 = (None, got_fields hs ?s2)"
    using decode_block_fields [OF _ room(2), of "?u @ ?e"] assms(3) by (simp add: split fits_def)
  show ?thesis
    unfolding decodeHeaderBlock_def 1 2 3 by (simp add: got_fields_def add_header_def)
qed

text \<open>C9: The header block of an HTTP/2 response arrives as it was meant. For every response the
  handler asks for, the block of \<open>h2Respond\<close> is sent as one HEADERS frame followed by
  CONTINUATION frames of at most the peer's frame size, with END_HEADERS on the last alone and
  END_STREAM as asked; a receiver that joins the fragments and decodes them gets the status and
  exactly the fields of the response, in order, after any pending table size update. No field
  among them is connection-specific and every name is in lower case.
\<close>

theorem h2_response_arrives:
  assumes "0 < m" and "m < 2 ^ 24" and "fl = 0 \<or> fl = flagEndStream"
    and "rs_code r < 1000" and "resize_allowed pend d"
    and "fits d (status_field (rs_code r) # response_fields r)"
  shows "\<exists>out. emitHeaderBlock m sid (respond_block pend r) fl wbuf = Some (wbuf @ out) \<and>
    frames_ok m sid fl (read_frames out) \<and>
    (let hb = concat (map snd (read_frames out)) in
       decodeHeaderBlock d hb 0 (length hb) [] =
         (None, resized pend d, status_field (rs_code r) # response_fields r)) \<and>
    (\<forall>f \<in> set (response_fields r). \<not> isForbiddenResponseField (fst f) False \<and> isLowerAscii (fst f))"
proof -
  obtain out where out: "emitHeaderBlock m sid (respond_block pend r) fl wbuf = Some (wbuf @ out)"
      "frames_ok m sid fl (read_frames out)" "concat (map snd (read_frames out)) = respond_block pend r"
    using emitHeaderBlock_ok [OF assms(1-3)] by blast
  moreover have "decodeHeaderBlock d (respond_block pend r) 0 (length (respond_block pend r)) [] =
      (None, resized pend d, [] @ status_field (rs_code r) # response_fields r)"
    by (rule decode_status_block [OF assms(4-6) respond_block_eq])
  ultimately show ?thesis using response_fields_clean by (intro exI [of _ out]) (simp add: Let_def)
qed

text \<open>A 200 whose handler also tried to set \<open>Connection\<close>, after a table size update to 0.\<close>

definition sample_response :: response_head where
  "sample_response = \<lparr>rs_code = 200, rs_date = bstr ''Thu, 01 Jan 1970 00:00:00 GMT'', rs_server = bstr ''vortex'',
     rs_contentType = bstr ''text/plain'', rs_extra = [(bstr ''Connection'', bstr ''close''), (bstr ''X-Id'', bstr ''7'')],
     rs_bodyLen = 13, rs_altSvc = [], rs_sec = []\<rparr>"

theorem h2_response_arrives_witness:
  "\<exists>out. emitHeaderBlock 40 1 (respond_block (Some 0) sample_response) flagEndStream [] = Some out \<and>
    (let hb = concat (map snd (read_frames out)) in
       snd (snd (decodeHeaderBlock (initHpackDecoder 4096 65536) hb 0 (length hb) [])) =
         [(bstr '':status'', bstr ''200''), (bstr ''server'', bstr ''vortex''),
          (bstr ''date'', bstr ''Thu, 01 Jan 1970 00:00:00 GMT''), (bstr ''content-type'', bstr ''text/plain''),
          (bstr ''content-length'', bstr ''13''), (bstr ''x-id'', bstr ''7'')])"
proof -
  have fields: "status_field (rs_code sample_response) # response_fields sample_response =
      [(bstr '':status'', bstr ''200''), (bstr ''server'', bstr ''vortex''),
       (bstr ''date'', bstr ''Thu, 01 Jan 1970 00:00:00 GMT''), (bstr ''content-type'', bstr ''text/plain''),
       (bstr ''content-length'', bstr ''13''), (bstr ''x-id'', bstr ''7'')]"
    by code_simp
  have "fits (initHpackDecoder 4096 65536) (status_field (rs_code sample_response) # response_fields sample_response)"
    unfolding fields by (simp add: fits_def initHpackDecoder_def entry_size_def)
  moreover have "rs_code sample_response < 1000" by (simp add: sample_response_def)
  moreover have "resize_allowed (Some 0) (initHpackDecoder 4096 65536)"
    by (simp add: resize_allowed_def initHpackDecoder_def)
  ultimately obtain out where
      "emitHeaderBlock 40 1 (respond_block (Some 0) sample_response) flagEndStream [] = Some out"
      "let hb = concat (map snd (read_frames out)) in
       decodeHeaderBlock (initHpackDecoder 4096 65536) hb 0 (length hb) [] =
         (None, resized (Some 0) (initHpackDecoder 4096 65536),
          status_field (rs_code sample_response) # response_fields sample_response)"
    using h2_response_arrives [of 40 flagEndStream sample_response "Some 0" "initHpackDecoder 4096 65536" 1 "[]"]
    by auto
  then show ?thesis unfolding fields Let_def by (intro exI [of _ out]) simp
qed

end
