(* ===== verification/Hpack_Huffman.thy ===== *)
theory Hpack_Huffman
  imports Hpack
begin

text \<open>
  The Huffman code of HPACK. The tree that \<open>hpack.nim\<close> builds from the table of codes is
  shown to be the trie of the codes, and the codes to be prefix-free and complete: every bit
  string runs into a code or stays on the way to one.
\<close>

section \<open>Codes as bit strings\<close>

definition code_bits :: "int \<times> nat \<Rightarrow> bool list" where
  "code_bits p = (case p of (code, bits) \<Rightarrow> map (\<lambda>i. drop_bit i code AND 1 \<noteq> 0) (rev [0..<bits]))"

lemma code_bits_simps [simp]:
  "code_bits (c, 0) = []"
  "code_bits (c, Suc n) = (drop_bit n c AND 1 \<noteq> 0) # code_bits (c, n)"
  by (simp_all add: code_bits_def)

lemma length_code_bits [simp]: "length (code_bits (c, n)) = n"
  by (simp add: code_bits_def)

fun add_bits :: "bool list \<Rightarrow> HuffNode list \<Rightarrow> nat \<Rightarrow> HuffNode list \<times> nat" where
  "add_bits [] nodes cur = (nodes, cur)"
| "add_bits (b # bs) nodes cur =
     (if huff_child b (nodes ! cur) < 0 then
        add_bits bs ((nodes @ [huff_leaf])[cur := set_huff_child b (int (length nodes)) ((nodes @ [huff_leaf]) ! cur)])
          (length nodes)
      else add_bits bs nodes (nat (huff_child b (nodes ! cur))))"

lemma huff_add_path_bits: "huff_add_path c n nodes cur = add_bits (code_bits (c, n)) nodes cur"
  by (induction c n nodes cur rule: huff_add_path.induct) (simp_all add: Let_def)

section \<open>The tree is a trie\<close>

text \<open>Node \<open>i\<close> stands for the path \<open>ps ! i\<close> from the root.\<close>

definition labelled :: "HuffNode list \<Rightarrow> bool list list \<Rightarrow> bool" where
  "labelled nodes ps \<longleftrightarrow>
     length ps = length nodes \<and> distinct ps \<and> ps \<noteq> [] \<and> ps ! 0 = [] \<and>
     (\<forall>p b. p @ [b] \<in> set ps \<longrightarrow> p \<in> set ps) \<and>
     (\<forall>i < length nodes. \<forall>b.
        (\<exists>j < length nodes. ps ! j = ps ! i @ [b] \<and> huff_child b (nodes ! i) = int j) \<or>
        (ps ! i @ [b] \<notin> set ps \<and> huff_child b (nodes ! i) = - 1))"

lemma child_simps [simp]:
  "huff_child b (set_huff_child b' i n) = (if b = b' then i else huff_child b n)"
  "huff_child b huff_leaf = - 1"
  "huff_sym huff_leaf = - 1"
  "huff_sym (set_huff_child b' i n) = huff_sym n"
  "huff_child b (n\<lparr>huff_sym := k\<rparr>) = huff_child b n"
  by (auto simp: huff_child_def set_huff_child_def huff_leaf_def)

lemma labelled_child:
  assumes "labelled nodes ps" "i < length nodes"
  shows "ps ! i @ [b] \<in> set ps \<Longrightarrow> \<exists>j < length nodes. ps ! j = ps ! i @ [b] \<and> huff_child b (nodes ! i) = int j"
    "ps ! i @ [b] \<notin> set ps \<Longrightarrow> huff_child b (nodes ! i) = - 1"
  using assms unfolding labelled_def by (metis nth_mem)+

lemma labelled_grow:
  assumes lab: "labelled nodes ps" and cur: "cur < length nodes" and new: "ps ! cur @ [b] \<notin> set ps"
  shows "labelled ((nodes @ [huff_leaf])[cur := set_huff_child b (int (length nodes)) ((nodes @ [huff_leaf]) ! cur)])
    (ps @ [ps ! cur @ [b]])"
    (is "labelled ?nodes ?ps")
proof -
  have len: "length ps = length nodes" and dist: "distinct ps" and ne: "ps \<noteq> []" and root: "ps ! 0 = []"
    and closed: "\<And>p b. p @ [b] \<in> set ps \<Longrightarrow> p \<in> set ps"
    using lab by (auto simp: labelled_def)
  have child: "(\<exists>j < length ?nodes. ?ps ! j = ?ps ! i @ [c] \<and> huff_child c (?nodes ! i) = int j) \<or>
      (?ps ! i @ [c] \<notin> set ?ps \<and> huff_child c (?nodes ! i) = - 1)"
    if i: "i < length ?nodes" for i c
  proof (cases "i = length nodes")
    case True
    have "(ps ! cur @ [b]) @ [c] \<notin> set ps" using closed [of "ps ! cur @ [b]" c] new by blast
    then show ?thesis using True cur len by (simp add: nth_append nth_list_update)
  next
    case False
    then have i': "i < length nodes" using i by simp
    have pi: "?ps ! i = ps ! i" using i' len by (simp add: nth_append)
    show ?thesis
    proof (cases "i = cur \<and> c = b")
      case True
      then show ?thesis using cur len
        by (intro disjI1 exI [of _ "length nodes"]) (simp add: nth_append)
    next
      case other: False
      have hc: "huff_child c (?nodes ! i) = huff_child c (nodes ! i)"
        using other i' by (auto simp: nth_append nth_list_update)
      have "ps ! i @ [c] \<noteq> ps ! cur @ [b]"
        using other dist i' cur len nth_eq_iff_index_eq by fastforce
      then show ?thesis unfolding pi hc using labelled_child [OF lab i', of c] len
        by (cases "ps ! i @ [c] \<in> set ps") (force simp: nth_append)+
    qed
  qed
  have "p \<in> set ?ps" if "p @ [c] \<in> set ?ps" for p c
    using that closed cur len by (auto simp: in_set_conv_nth)
  moreover have "nodes \<noteq> []" using ne len by auto
  moreover have "distinct ?ps" "?ps ! 0 = []" using dist new ne root by (simp_all add: nth_append)
  ultimately show ?thesis unfolding labelled_def using child len by simp
qed

text \<open>Walking down a code adds what is missing of its path and nothing else.\<close>

definition grown :: "HuffNode list \<Rightarrow> bool list list \<Rightarrow> bool list \<Rightarrow> HuffNode list \<Rightarrow> bool list list \<Rightarrow> nat \<Rightarrow> bool" where
  "grown nodes ps c nodes' qs cur' \<longleftrightarrow>
     labelled nodes' (ps @ qs) \<and> cur' < length nodes' \<and> (ps @ qs) ! cur' = c \<and>
     (\<forall>q \<in> set qs. prefix q c) \<and>
     (\<forall>i < length nodes'. huff_sym (nodes' ! i) = (if i < length nodes then huff_sym (nodes ! i) else - 1))"

lemma add_bits_grows:
  assumes "labelled nodes ps" "cur < length nodes"
  shows "\<exists>qs. grown nodes ps (ps ! cur @ bs) (fst (add_bits bs nodes cur)) qs (snd (add_bits bs nodes cur))"
  using assms
proof (induction bs arbitrary: nodes ps cur)
  case Nil
  then show ?case by (intro exI [of _ "[]"]) (simp add: grown_def)
next
  case (Cons b bs)
  have len: "length ps = length nodes" using Cons.prems(1) by (simp add: labelled_def)
  show ?case
  proof (cases "ps ! cur @ [b] \<in> set ps")
    case True
    then obtain j where j: "j < length nodes" "ps ! j = ps ! cur @ [b]" "huff_child b (nodes ! cur) = int j"
      using labelled_child(1) [OF Cons.prems] by blast
    then show ?thesis using Cons.IH [OF Cons.prems(1) j(1)] by simp
  next
    case False
    let ?nodes = "(nodes @ [huff_leaf])[cur := set_huff_child b (int (length nodes)) ((nodes @ [huff_leaf]) ! cur)]"
    let ?p = "ps ! cur @ [b]"
    have lab: "labelled ?nodes (ps @ [?p])" by (rule labelled_grow [OF Cons.prems False])
    have add: "add_bits (b # bs) nodes cur = add_bits bs ?nodes (length nodes)"
      using labelled_child(2) [OF Cons.prems False] by simp
    have syms: "huff_sym (?nodes ! i) = (if i < length nodes then huff_sym (nodes ! i) else - 1)"
      if "i < length ?nodes" for i
      using that Cons.prems(2) by (auto simp: nth_append nth_list_update)
    obtain qs where "grown ?nodes (ps @ [?p]) ((ps @ [?p]) ! length nodes @ bs)
        (fst (add_bits bs ?nodes (length nodes))) qs (snd (add_bits bs ?nodes (length nodes)))"
      using Cons.IH [OF lab, of "length nodes"] by auto
    then show ?thesis unfolding add using syms len
      by (intro exI [of _ "?p # qs"]) (auto simp: grown_def nth_append)
  qed
qed

text \<open>The tree of a list of codes: its paths are their prefixes, its symbols their positions.\<close>

definition trie_of :: "bool list list \<Rightarrow> HuffNode list \<Rightarrow> bool list list \<Rightarrow> bool" where
  "trie_of cs nodes ps \<longleftrightarrow>
     labelled nodes ps \<and> set ps = {p. p = [] \<or> (\<exists>c \<in> set cs. prefix p c)} \<and>
     (\<forall>i < length nodes. (ps ! i \<notin> set cs \<longrightarrow> huff_sym (nodes ! i) = - 1) \<and>
        (\<forall>k < length cs. ps ! i = cs ! k \<longrightarrow> huff_sym (nodes ! i) = int k))"

lemma labelled_sym: "labelled (nodes[i := (nodes ! i)\<lparr>huff_sym := k\<rparr>]) ps = labelled nodes ps"
proof -
  have "huff_child b (nodes[i := (nodes ! i)\<lparr>huff_sym := k\<rparr>] ! j) = huff_child b (nodes ! j)"
    if "j < length nodes" for b j
    using that by (cases "i = j") auto
  then show ?thesis unfolding labelled_def by (auto cong: conj_cong)
qed

lemma labelled_prefix: "labelled nodes ps \<Longrightarrow> c \<in> set ps \<Longrightarrow> prefix p c \<Longrightarrow> p \<in> set ps"
proof (induction c rule: rev_induct)
  case (snoc b c)
  then show ?case unfolding labelled_def by (metis prefix_snoc)
qed simp

lemma trie_of_add:
  assumes t: "trie_of cs nodes ps" and new: "c \<notin> set cs" and c: "c = code_bits (code, bits)"
  shows "\<exists>ps'. trie_of (cs @ [c]) (huff_add_code nodes (length cs, code, bits)) ps'"
proof -
  have lab: "labelled nodes ps" and paths: "set ps = {p. p = [] \<or> (\<exists>c \<in> set cs. prefix p c)}"
    using t by (simp_all add: trie_of_def)
  have root: "ps ! 0 = []" "0 < length nodes" "length ps = length nodes"
    using lab by (auto simp: labelled_def)
  obtain qs where g: "grown nodes ps c (fst (add_bits c nodes 0)) qs (snd (add_bits c nodes 0))"
    using add_bits_grows [OF lab root(2), of c] root(1) by auto
  let ?n = "fst (add_bits c nodes 0)" and ?cur = "snd (add_bits c nodes 0)"
  let ?n' = "?n[?cur := (?n ! ?cur)\<lparr>huff_sym := int (length cs)\<rparr>]" and ?ps = "ps @ qs"
  have code: "huff_add_code nodes (length cs, code, bits) = ?n'"
    by (simp add: huff_add_code_def huff_add_path_bits c case_prod_beta)
  have lab': "labelled ?n ?ps" and cur: "?cur < length ?n" "?ps ! ?cur = c"
    and qs: "\<forall>q \<in> set qs. prefix q c"
    and syms: "\<And>i. i < length ?n \<Longrightarrow> huff_sym (?n ! i) = (if i < length nodes then huff_sym (nodes ! i) else - 1)"
    using g by (auto simp: grown_def)
  have len: "length ?ps = length ?n" and dist: "distinct ?ps" using lab' by (auto simp: labelled_def)
  have c_in: "c \<in> set ?ps" using cur len by (metis nth_mem)
  have set_eq: "set ?ps = {p. p = [] \<or> (\<exists>d \<in> set (cs @ [c]). prefix p d)}"
    using paths qs labelled_prefix [OF lab' c_in] by auto
  have sym: "(?ps ! i \<notin> set (cs @ [c]) \<longrightarrow> huff_sym (?n' ! i) = - 1) \<and>
      (\<forall>k < length (cs @ [c]). ?ps ! i = (cs @ [c]) ! k \<longrightarrow> huff_sym (?n' ! i) = int k)"
    if i: "i < length ?n" for i
  proof (cases "i = ?cur")
    case True
    then show ?thesis using cur new by (auto simp: nth_append in_set_conv_nth)
  next
    case False
    then have ne: "?ps ! i \<noteq> c" using i cur len dist nth_eq_iff_index_eq by metis
    have n: "huff_sym (?n' ! i) = (if i < length nodes then huff_sym (nodes ! i) else - 1)"
      using False i syms by simp
    show ?thesis
    proof (cases "i < length nodes")
      case True
      then have "?ps ! i = ps ! i" using root(3) by (simp add: nth_append)
      then show ?thesis using t True n ne by (auto simp: trie_of_def nth_append)
    next
      case big: False
      then have "?ps ! i \<notin> set ps" using dist i len root(3) by (auto simp: nth_append distinct_append)
      then have "?ps ! i \<notin> set cs" using paths by auto
      then show ?thesis using n ne big by (auto simp: nth_append)
    qed
  qed
  have "trie_of (cs @ [c]) ?n' ?ps"
    unfolding trie_of_def using lab' set_eq sym by (simp add: labelled_sym)
  then show ?thesis unfolding code by blast
qed

lemma trie_of_tree:
  "distinct (map code_bits codes) \<Longrightarrow> \<exists>ps. trie_of (map code_bits codes) (huff_tree_of codes) ps"
proof (induction codes rule: rev_induct)
  case Nil
  have "trie_of [] [huff_leaf] [[]]" by (auto simp: trie_of_def labelled_def)
  then show ?case by (auto simp: huff_tree_of_def)
next
  case (snoc p codes)
  obtain code bits where p: "p = (code, bits)" by (cases p)
  obtain ps where "trie_of (map code_bits codes) (huff_tree_of codes) ps" using snoc by auto
  from trie_of_add [OF this _ refl, of code bits] snoc.prems
  show ?case by (simp add: p huff_tree_of_def enumerate_append_eq)
qed

section \<open>The code is complete and prefix-free\<close>

definition tails :: "bool \<Rightarrow> bool list list \<Rightarrow> bool list list" where
  "tails b cs = map tl (filter (\<lambda>c. hd c = b) cs)"

text \<open>Bit by bit, a set of codes splits until one empty code is left on every path.\<close>

fun complete_code :: "nat \<Rightarrow> bool list list \<Rightarrow> bool" where
  "complete_code 0 cs \<longleftrightarrow> cs = [[]]"
| "complete_code (Suc n) cs \<longleftrightarrow>
     cs = [[]] \<or> [] \<notin> set cs \<and> complete_code n (tails True cs) \<and> complete_code n (tails False cs)"

definition apart :: "bool list \<Rightarrow> bool list \<Rightarrow> bool" where
  "apart c d \<longleftrightarrow> \<not> prefix c d \<and> \<not> prefix d c"

lemma in_tails:
  assumes "[] \<notin> set cs"
  shows "t \<in> set (tails b cs) \<longleftrightarrow> b # t \<in> set cs"
proof
  assume "t \<in> set (tails b cs)"
  then obtain c where c: "c \<in> set cs" "hd c = b" "t = tl c" by (auto simp: tails_def)
  then have "c \<noteq> []" using assms by blast
  then have "c = b # t" using c(2,3) hd_Cons_tl [of c] by simp
  then show "b # t \<in> set cs" using c(1) by simp
next
  assume "b # t \<in> set cs"
  then have "b # t \<in> set (filter (\<lambda>c. hd c = b) cs)" by simp
  then have "tl (b # t) \<in> tl ` set (filter (\<lambda>c. hd c = b) cs)" by (rule imageI)
  then show "t \<in> set (tails b cs)" by (simp add: tails_def)
qed

lemma not_complete_Nil: "\<not> complete_code n []"
  by (induction n) (simp_all add: tails_def)

lemma apart_Cons [simp]: "apart (b # t) (b' # t') \<longleftrightarrow> b \<noteq> b' \<or> apart t t'"
  by (auto simp: apart_def)

lemma apart_tails:
  "[] \<notin> set cs \<Longrightarrow> sorted_wrt apart (tails True cs) \<Longrightarrow> sorted_wrt apart (tails False cs) \<Longrightarrow> sorted_wrt apart cs"
proof (induction cs)
  case (Cons c cs)
  obtain b t where c: "c = b # t" using Cons.prems(1) by (cases c) auto
  have t: "tails b' (c # cs) = (if b' = b then t # tails b' cs else tails b' cs)" for b'
    by (auto simp: tails_def c)
  have sub: "sorted_wrt apart (tails b' cs)" for b'
    using Cons.prems(2,3) unfolding t by (cases b') (auto split: if_splits)
  have "apart c d" if "d \<in> set cs" for d
  proof -
    have "d \<noteq> []" using that Cons.prems(1) by auto
    then obtain b' t' where d: "d = b' # t'" by (cases d) auto
    have "apart t t'" if "b' = b"
    proof -
      have "t' \<in> set (tails b cs)"
        using in_tails [of cs t' b] Cons.prems(1) \<open>d \<in> set cs\<close> that by (simp add: d)
      then show ?thesis using Cons.prems(2,3) unfolding t by (cases b) auto
    qed
    then show ?thesis by (auto simp: c d)
  qed
  then show ?case using Cons.IH Cons.prems(1) sub by simp
qed simp

lemma complete_code_apart: "complete_code n cs \<Longrightarrow> sorted_wrt apart cs"
  by (induction n cs rule: complete_code.induct) (auto intro: apart_tails)

lemma complete_code_covers:
  "complete_code n cs \<Longrightarrow> (\<exists>c \<in> set cs. prefix c p) \<or> (\<exists>c \<in> set cs. prefix p c)"
proof (induction n cs arbitrary: p rule: complete_code.induct)
  case (2 n cs)
  show ?case
  proof (cases "cs = [[]]")
    case False
    then have split: "[] \<notin> set cs" "complete_code n (tails True cs)" "complete_code n (tails False cs)"
      using "2.prems" by auto
    show ?thesis
    proof (cases p)
      case Nil
      have "tails True cs \<noteq> []" using split(2) not_complete_Nil by metis
      then show ?thesis using Nil by (auto simp: tails_def)
    next
      case (Cons b q)
      have "(\<exists>c \<in> set (tails b cs). prefix c q) \<or> (\<exists>c \<in> set (tails b cs). prefix q c)"
        using "2.IH" False split by (cases b) auto
      then show ?thesis using in_tails [OF split(1)] unfolding Cons by (meson Cons_prefix_Cons)
    qed
  qed simp
qed simp

definition huff_codes :: "bool list list" where
  "huff_codes = map code_bits huffmanCodes"

lemma huff_codes_complete: "complete_code 30 huff_codes"
  by code_simp

lemma length_huff_codes [simp]: "length huff_codes = 257"
  by (simp add: huff_codes_def huffmanCodes_def)

lemma huff_eos: "huff_codes ! 256 = replicate 30 True"
  by code_simp

end
