(* ===== verification/Hpack_Huffman_Props.thy ===== *)
theory Hpack_Huffman_Props
  imports Hpack_Huffman
begin

text \<open>
  The bit-by-bit walk of \<open>huffmanDecode\<close>: it decodes exactly the concatenations of codes with
  a padding of at most seven ones.
\<close>

lemma huff_codes_distinct: "distinct huff_codes"
  using complete_code_apart [OF huff_codes_complete]
  by (auto simp: distinct_conv_nth sorted_wrt_iff_nth_less apart_def) (metis linorder_neqE_nat prefix_order.refl)

lemma huff_prefix_free:
  assumes "c \<in> set huff_codes" "d \<in> set huff_codes" "prefix c d"
  shows "c = d"
proof -
  obtain i j where ij: "c = huff_codes ! i" "i < 257" "d = huff_codes ! j" "j < 257"
    using assms(1,2) by (auto simp: in_set_conv_nth)
  have "apart (huff_codes ! k) (huff_codes ! l)" if "k < l" "l < 257" for k l
    using complete_code_apart [OF huff_codes_complete] that by (simp add: sorted_wrt_iff_nth_less)
  then have "\<not> i < j" "\<not> j < i" using ij assms(3) by (auto simp: apart_def)
  then show ?thesis using ij by (metis linorder_neqE_nat)
qed

text \<open>A path inside the tree: a proper prefix of a code.\<close>

definition open_path :: "bool list \<Rightarrow> bool" where
  "open_path p \<longleftrightarrow> p \<notin> set huff_codes \<and> (\<exists>c \<in> set huff_codes. prefix p c)"

lemma open_path_no_code: "open_path p \<Longrightarrow> c \<in> set huff_codes \<Longrightarrow> \<not> prefix c p"
  unfolding open_path_def using huff_prefix_free prefix_order.trans prefix_order.antisym by metis

lemma open_path_step: "open_path p \<Longrightarrow> p @ [b] \<in> set huff_codes \<or> open_path (p @ [b])"
proof -
  assume p: "open_path p"
  consider c where "c \<in> set huff_codes" "prefix c (p @ [b])" | c where "c \<in> set huff_codes" "prefix (p @ [b]) c"
    using complete_code_covers [OF huff_codes_complete] by blast
  then show ?thesis
  proof cases
    case 1
    then show ?thesis using open_path_no_code [OF p] by (auto simp: prefix_snoc)
  next
    case 2
    then show ?thesis by (auto simp: open_path_def)
  qed
qed

lemma open_ones: "k < 30 \<Longrightarrow> open_path (replicate k True)"
proof -
  assume k: "k < 30"
  have eos: "replicate 30 True \<in> set huff_codes" using nth_mem [of 256 huff_codes] by (simp add: huff_eos)
  have "replicate 30 True = replicate k True @ replicate (30 - k) True"
    using k by (simp add: replicate_add [symmetric])
  then have pre: "prefix (replicate k True) (replicate 30 True)" by (metis prefixI)
  moreover have "replicate k True \<noteq> replicate 30 True" using k by (metis length_replicate less_irrefl)
  ultimately show ?thesis using eos huff_prefix_free [OF _ eos pre] by (auto simp: open_path_def)
qed

lemma open_Nil: "open_path []"
  using open_ones [of 0] by simp

section \<open>The walk\<close>

definition on_path :: "bool list list \<Rightarrow> bool list \<Rightarrow> huff_scan \<Rightarrow> bool" where
  "on_path ps p s \<longleftrightarrow> open_path p \<and> hs_node s < length huffTree \<and> ps ! hs_node s = p \<and>
     hs_depth s = length p \<and> (hs_padOnes s \<longleftrightarrow> list_all id p)"

definition tree_paths :: "bool list list \<Rightarrow> bool" where
  "tree_paths ps \<longleftrightarrow> trie_of huff_codes huffTree ps"

lemma tree_paths_exist: "\<exists>ps. tree_paths ps"
  using trie_of_tree [of huffmanCodes] huff_codes_distinct
  by (simp add: tree_paths_def huff_codes_def huffTree_def)

text \<open>One bit: a symbol at the end of a code, a step down before.\<close>

lemma huff_bit_open:
  assumes "tree_paths ps" "on_path ps p s" "open_path (p @ [b])"
  shows "\<exists>s'. huff_bit huffTree b s = Inr s' \<and> on_path ps (p @ [b]) s' \<and> hs_output s' = hs_output s"
proof -
  have lab: "labelled huffTree ps" and paths: "set ps = {p. p = [] \<or> (\<exists>c \<in> set huff_codes. prefix p c)}"
    and syms: "\<And>i. i < length huffTree \<Longrightarrow> ps ! i \<notin> set huff_codes \<Longrightarrow> huff_sym (huffTree ! i) = - 1"
    using assms(1) by (auto simp: tree_paths_def trie_of_def)
  have "p @ [b] \<in> set ps" using assms(3) paths by (auto simp: open_path_def)
  then obtain j where j: "j < length huffTree" "ps ! j = p @ [b]" "huff_child b (huffTree ! hs_node s) = int j"
    using labelled_child(1) [OF lab, of "hs_node s" b] assms(2) by (auto simp: on_path_def)
  have "huff_sym (huffTree ! j) = - 1" using syms j assms(3) by (simp add: open_path_def)
  then show ?thesis using assms(2,3) j by (simp add: huff_bit_def on_path_def)
qed

lemma huff_bit_code:
  assumes "tree_paths ps" "on_path ps p s" "k < 257" "p @ [b] = huff_codes ! k"
  shows "k < 256 \<Longrightarrow> \<exists>s'. huff_bit huffTree b s = Inr s' \<and> on_path ps [] s' \<and>
      hs_output s' = hs_output s @ [of_nat k]"
    and "k = 256 \<Longrightarrow> huff_bit huffTree b s = Inl EosInHuffmanString"
proof -
  have lab: "labelled huffTree ps" and paths: "set ps = {p. p = [] \<or> (\<exists>c \<in> set huff_codes. prefix p c)}"
    and syms: "\<And>i. i < length huffTree \<Longrightarrow> ps ! i = huff_codes ! k \<Longrightarrow> huff_sym (huffTree ! i) = int k"
    using assms(1,3) by (auto simp: tree_paths_def trie_of_def)
  have root: "ps ! 0 = []" "0 < length huffTree" using lab by (auto simp: labelled_def)
  have "huff_codes ! k \<in> set huff_codes" using assms(3) by simp
  then have "p @ [b] \<in> set ps" unfolding assms(4) using paths by blast
  then obtain j where j: "j < length huffTree" "ps ! j = p @ [b]" "huff_child b (huffTree ! hs_node s) = int j"
    using labelled_child(1) [OF lab, of "hs_node s" b] assms(2) by (auto simp: on_path_def)
  have "huff_sym (huffTree ! j) = int k" using syms j assms(4) by simp
  then show "k < 256 \<Longrightarrow> \<exists>s'. huff_bit huffTree b s = Inr s' \<and> on_path ps [] s' \<and>
      hs_output s' = hs_output s @ [of_nat k]"
    and "k = 256 \<Longrightarrow> huff_bit huffTree b s = Inl EosInHuffmanString"
    using j root by (auto simp: huff_bit_def on_path_def open_Nil)
qed

definition encode_huff :: "bytes \<Rightarrow> bool list" where
  "encode_huff s = concat (map (\<lambda>c. huff_codes ! unat c) s)"

lemma encode_huff_simps [simp]:
  "encode_huff [] = []" "encode_huff (c # s) = huff_codes ! unat c @ encode_huff s"
  by (simp_all add: encode_huff_def)

lemma byte_code: "huff_codes ! unat (c :: byte) \<in> set huff_codes"
  using unat_byte_less [of c] by simp

text \<open>Whatever is accepted was an encoding with an open path behind it.\<close>

lemma huff_bits_sound:
  assumes "tree_paths ps"
  shows "huff_bits huffTree bs s = Inr s' \<Longrightarrow> on_path ps p s \<Longrightarrow>
    \<exists>x q. p @ bs = encode_huff x @ q \<and> on_path ps q s' \<and> hs_output s' = hs_output s @ x"
proof (induction bs arbitrary: p s)
  case Nil
  then show ?case by (intro exI [of _ "[]"] exI [of _ p]) simp
next
  case (Cons b bs)
  from Cons.prems(1) obtain s1 where s1: "huff_bit huffTree b s = Inr s1" "huff_bits huffTree bs s1 = Inr s'"
    by (auto simp: nbind_Inr_iff)
  show ?case
  proof (cases "open_path (p @ [b])")
    case True
    then have "on_path ps (p @ [b]) s1" "hs_output s1 = hs_output s"
      using huff_bit_open [OF assms Cons.prems(2) True] s1(1) by auto
    then show ?thesis using Cons.IH [OF s1(2)] by fastforce
  next
    case False
    then have "p @ [b] \<in> set huff_codes"
      using open_path_step Cons.prems(2) by (auto simp: on_path_def)
    then obtain k where k: "k < 257" "p @ [b] = huff_codes ! k" by (metis in_set_conv_nth length_huff_codes)
    then have k256: "k < 256" using huff_bit_code(2) [OF assms Cons.prems(2) k] s1(1) by fastforce
    then have s1': "on_path ps [] s1" "hs_output s1 = hs_output s @ [of_nat k]"
      using huff_bit_code(1) [OF assms Cons.prems(2) k] s1(1) by auto
    obtain x q where x: "[] @ bs = encode_huff x @ q" "on_path ps q s'" "hs_output s' = hs_output s1 @ x"
      using Cons.IH [OF s1(2) s1'(1)] by blast
    have "unat (of_nat k :: byte) = k" using k256 by (simp add: unat_of_nat_byte)
    then show ?thesis using x s1'(2) k(2)
      by (intro exI [of _ "of_nat k # x"] exI [of _ q]) simp
  qed
qed

text \<open>And every encoding with an open path behind it is accepted.\<close>

lemma huff_bits_complete:
  assumes "tree_paths ps"
  shows "on_path ps p s \<Longrightarrow> p @ bs = encode_huff x @ q \<Longrightarrow> open_path q \<Longrightarrow>
    \<exists>s'. huff_bits huffTree bs s = Inr s' \<and> on_path ps q s' \<and> hs_output s' = hs_output s @ x"
proof (induction bs arbitrary: p s x)
  case Nil
  have "x = []"
  proof (cases x)
    case (Cons c y)
    then have "prefix (huff_codes ! unat c) p" using Nil.prems(2) by simp
    then show ?thesis using open_path_no_code byte_code Nil.prems(1) by (auto simp: on_path_def)
  qed simp
  then show ?case using Nil.prems by simp
next
  case (Cons b bs)
  have p: "open_path p" using Cons.prems(1) by (simp add: on_path_def)
  show ?case
  proof (cases "open_path (p @ [b])")
    case True
    then obtain s1 where s1: "huff_bit huffTree b s = Inr s1" "on_path ps (p @ [b]) s1" "hs_output s1 = hs_output s"
      using huff_bit_open [OF assms Cons.prems(1)] by blast
    then show ?thesis using Cons.IH [OF s1(2), of x] Cons.prems(2,3) by simp
  next
    case False
    then have code: "p @ [b] \<in> set huff_codes" using open_path_step [OF p] by blast
    have pre: "prefix (p @ [b]) (encode_huff x @ q)" using Cons.prems(2) by (metis append.assoc append_Cons append_Nil prefixI)
    obtain c y where x: "x = c # y"
      using pre open_path_no_code [OF Cons.prems(3) code] by (cases x) auto
    have "prefix (huff_codes ! unat c) (encode_huff x @ q)" by (simp add: x)
    then have "p @ [b] = huff_codes ! unat c"
      using prefix_same_cases [OF pre] huff_prefix_free code byte_code by metis
    note k = this
    obtain s1 where s1: "huff_bit huffTree b s = Inr s1" "on_path ps [] s1" "hs_output s1 = hs_output s @ [c]"
      using huff_bit_code(1) [OF assms Cons.prems(1) _ k] unat_byte_less [of c] by auto
    have "(p @ [b]) @ bs = huff_codes ! unat c @ (encode_huff y @ q)" using Cons.prems(2) by (simp add: x)
    then have "[] @ bs = encode_huff y @ q" unfolding k by simp
    then show ?thesis using Cons.IH [OF s1(2)] Cons.prems(3) s1 by (fastforce simp: x)
  qed
qed

lemma huff_bits_error:
  assumes "tree_paths ps"
  shows "on_path ps p s \<Longrightarrow> huff_bits huffTree bs s = Inl e \<Longrightarrow> e = EosInHuffmanString"
proof (induction bs arbitrary: p s)
  case (Cons b bs)
  show ?case
  proof (cases "open_path (p @ [b])")
    case True
    then show ?thesis using huff_bit_open [OF assms Cons.prems(1) True] Cons by (auto simp: nbind_Inl_iff)
  next
    case False
    then obtain k where k: "k < 257" "p @ [b] = huff_codes ! k"
      using open_path_step Cons.prems(1) by (metis in_set_conv_nth length_huff_codes on_path_def)
    then consider "k < 256" | "k = 256" by fastforce
    then show ?thesis
      using huff_bit_code [OF assms Cons.prems(1) k] Cons by cases (auto simp: nbind_Inl_iff)
  qed
qed simp

section \<open>Strings\<close>

definition bits_of :: "bytes \<Rightarrow> bool list" where
  "bits_of bs = concat (map byte_bits bs)"

lemma huff_bits_append: "huff_bits tree (xs @ ys) s = nbind (huff_bits tree xs s) (huff_bits tree ys)"
  by (induction xs arbitrary: s) (auto simp: nbind_def split: sum.splits)

lemma huff_bytes_bits:
  "start + len \<le> length buf \<Longrightarrow>
   huff_bytes tree buf start len s = huff_bits tree (bits_of (take len (drop start buf))) s"
proof (induction len arbitrary: start s)
  case (Suc len)
  have "take (Suc len) (drop start buf) = buf ! start # take len (drop (Suc start) buf)"
    using Suc.prems by (simp add: Cons_nth_drop_Suc [symmetric])
  then have "bits_of (take (Suc len) (drop start buf)) =
      byte_bits (buf ! start) @ bits_of (take len (drop (Suc start) buf))" by (simp add: bits_of_def)
  moreover have "huff_bytes tree buf (Suc start) len = huff_bits tree (bits_of (take len (drop (Suc start) buf)))"
    using Suc.IH [of "Suc start"] Suc.prems by auto
  ultimately show ?case using Suc.prems by (simp add: huff_bits_append)
qed (simp add: bits_of_def)

lemma all_ones: "list_all id q \<longleftrightarrow> q = replicate (length q) True"
  by (induction q) auto

text \<open>C16: The Huffman decoder accepts exactly the encodings of RFC 7541. It returns a string
  if and only if the bits of its input are the codes of that string's bytes, one after the other,
  followed by at most seven ones; so the string is unique and a longer padding, a padding with a
  zero in it and the end-of-string code are all refused. The tree built from the table has a
  node for every bit string that can come up: the decoder never finds a missing child, and
  the only errors inside its buffer are the end-of-string code and a bad padding.
\<close>

theorem huffman_decodes_exactly:
  assumes "start + len \<le> length buf"
  shows "(huffmanDecode buf start len out = Inr r \<longleftrightarrow>
      (\<exists>s k. bits_of (take len (drop start buf)) = encode_huff s @ replicate k True \<and> k \<le> 7 \<and> r = out @ s)) \<and>
    (huffmanDecode buf start len out = Inl e \<longrightarrow> e \<in> {EosInHuffmanString, BadHuffmanPadding})"
proof -
  obtain ps where ps: "tree_paths ps" using tree_paths_exist by blast
  let ?bs = "bits_of (take len (drop start buf))"
  let ?s0 = "\<lparr>hs_node = 0, hs_padOnes = True, hs_depth = 0, hs_output = out\<rparr>"
  have s0: "on_path ps [] ?s0"
    using ps by (auto simp: on_path_def open_Nil tree_paths_def trie_of_def labelled_def)
  have dec: "huffmanDecode buf start len out =
      nbind (huff_bits huffTree ?bs ?s0)
        (\<lambda>s. if 7 < hs_depth s \<or> \<not> hs_padOnes s then Inl BadHuffmanPadding else Inr (hs_output s))"
    by (simp add: huffmanDecode_def huff_bytes_bits [OF assms])
  have "\<exists>s k. ?bs = encode_huff s @ replicate k True \<and> k \<le> 7 \<and> r = out @ s"
    if "huffmanDecode buf start len out = Inr r"
  proof -
    obtain s' where s': "huff_bits huffTree ?bs ?s0 = Inr s'" "hs_depth s' \<le> 7" "hs_padOnes s'" "r = hs_output s'"
      using \<open>huffmanDecode buf start len out = Inr r\<close> by (auto simp: dec nbind_Inr_iff split: if_splits)
    obtain x q where "[] @ ?bs = encode_huff x @ q" "on_path ps q s'" "hs_output s' = hs_output ?s0 @ x"
      using huff_bits_sound [OF ps s'(1) s0] by blast
    then show ?thesis using s' all_ones [of q]
      by (intro exI [of _ x] exI [of _ "length q"]) (auto simp: on_path_def)
  qed
  moreover have "huffmanDecode buf start len out = Inr r"
    if "?bs = encode_huff x @ replicate k True" "k \<le> 7" "r = out @ x" for x k
  proof -
    have "open_path (replicate k True)" using that(2) by (intro open_ones) simp
    from huff_bits_complete [OF ps s0 _ this, of ?bs x] that(1)
    obtain s' where "huff_bits huffTree ?bs ?s0 = Inr s'" "on_path ps (replicate k True) s'"
        "hs_output s' = out @ x" by auto
    then show ?thesis using that(2,3) by (simp add: dec on_path_def list_all_iff)
  qed
  moreover have "e \<in> {EosInHuffmanString, BadHuffmanPadding}" if "huffmanDecode buf start len out = Inl e"
    using that huff_bits_error [OF ps s0] by (auto simp: dec nbind_Inl_iff split: if_splits)
  ultimately show ?thesis by blast
qed

text \<open>The example of RFC 7541, C.4.1.\<close>

theorem huffman_decodes_exactly_witness:
  "huffmanDecode [0xf1, 0xe3, 0xc2, 0xe5, 0xf2, 0x3a, 0x6b, 0xa0, 0xab, 0x90, 0xf4, 0xff] 0 12 [] =
     Inr (bstr ''www.example.com'')"
proof -
  let ?buf = "[0xf1, 0xe3, 0xc2, 0xe5, 0xf2, 0x3a, 0x6b, 0xa0, 0xab, 0x90, 0xf4, 0xff] :: bytes"
  have "bits_of (take 12 (drop 0 ?buf)) = encode_huff (bstr ''www.example.com'') @ replicate 7 True"
    by code_simp
  then show ?thesis
    using huffman_decodes_exactly [of 0 12 ?buf "[]" "bstr ''www.example.com''"] by auto
qed

end
