(* ===== verification/Http1_Parser.thy ===== *)
theory Http1_Parser
  imports Fieldrules
begin

text \<open>
  \<open>src/vortex/http1/parser.nim\<close>: the incremental HTTP/1.1 request parser. The receive buffer is
  a list of bytes of which the first \<open>dataEnd\<close> have arrived; a header is a pair of slices of it.
  One turn of the loop in \<open>parse\<close> is \<open>parse_turn\<close>, with one definition per phase. Offsets are
  natural numbers: the receive buffer is far below the 2 GiB at which the \<open>int32\<close> conversions
  of the source would raise.
\<close>

section \<open>State\<close>

datatype ParseResult = prNeedMore | prComplete | prError

datatype ParsePhase =
    ppReqLine | ppHeaders | ppBody | ppChunkSize | ppChunkData | ppChunkCRLF | ppTrailers
  | ppComplete | ppError

datatype HttpMethod =
    HttpHead | HttpGet | HttpPost | HttpPut | HttpDelete | HttpTrace | HttpOptions | HttpConnect | HttpPatch

record HeaderSlice =
  nameStart :: nat
  nameLen :: nat
  valStart :: nat
  valLen :: nat

record ParserLimits =
  maxHeaderSize :: nat
  maxHeaderCount :: nat
  maxBodySize :: nat

record RequestParser =
  phase :: ParsePhase
  reqStart :: nat
  rp_pos :: nat
  httpMethod :: HttpMethod
  pathStart :: nat
  pathLen :: nat
  minor :: nat
  rp_headers :: "HeaderSlice list"
  rp_trailers :: "HeaderSlice list"
  contentLength :: int
  chunked :: bool
  keepAlive :: bool
  expectContinue :: bool
  bodyStart :: nat
  bodyLen :: nat
  chunkRemaining :: int
  trailerCount :: nat
  seenContentLength :: bool
  seenTE :: bool
  seenHost :: bool
  errorStatus :: nat

definition disallowedTrailers :: "bytes list" where
  "disallowedTrailers = map bstr [''transfer-encoding'', ''content-length'', ''host'',
     ''trailer'', ''te'', ''connection'', ''keep-alive'', ''upgrade'', ''content-encoding'',
     ''content-type'', ''content-range'', ''authorization'', ''proxy-authorization'',
     ''www-authenticate'', ''proxy-authenticate'', ''set-cookie'', ''cache-control'',
     ''expect'', ''pragma'', ''range'', ''max-forwards'']"

section \<open>Bytes\<close>

definition eqLit :: "bytes \<Rightarrow> nat \<Rightarrow> nat \<Rightarrow> bytes \<Rightarrow> bool" where
  "eqLit buf start len lit \<longleftrightarrow> len = length lit \<and> (\<forall>i < length lit. buf ! (start + i) = lit ! i)"

definition ieqLit :: "bytes \<Rightarrow> nat \<Rightarrow> nat \<Rightarrow> bytes \<Rightarrow> bool" where
  "ieqLit buf start len lit \<longleftrightarrow>
     len = length lit \<and> (\<forall>i < length lit. toLowerA (buf ! (start + i)) = lit ! i)"

text \<open>\<open>while i < last and P(buf[i]): inc i\<close>\<close>

function skip_while :: "(byte \<Rightarrow> bool) \<Rightarrow> bytes \<Rightarrow> nat \<Rightarrow> nat \<Rightarrow> nat" where
  "skip_while P buf i lst = (if i < lst \<and> P (buf ! i) then skip_while P buf (Suc i) lst else i)"
  by pat_completeness auto
termination
  by (relation "measure (\<lambda>(_, _, i, lst). lst - i)") auto

declare skip_while.simps [simp del]

lemma skip_while_ge: "i \<le> skip_while P buf i lst"
proof (induction P buf i lst rule: skip_while.induct)
  case (1 P buf i lst)
  then show ?case by (subst skip_while.simps) auto
qed

lemma skip_while_le: "i \<le> lst \<Longrightarrow> skip_while P buf i lst \<le> lst"
proof (induction P buf i lst rule: skip_while.induct)
  case (1 P buf i lst)
  then show ?case by (subst skip_while.simps) auto
qed

lemma skip_while_gt: "i < lst \<Longrightarrow> P (buf ! i) \<Longrightarrow> i < skip_while P buf i lst"
  by (subst skip_while.simps) (simp add: Suc_le_lessD skip_while_ge)

definition list_sep :: "byte \<Rightarrow> bool" where
  "list_sep c \<longleftrightarrow> c = byte_of CHR '' '' \<or> c = 9 \<or> c = byte_of CHR '',''"

definition blank :: "byte \<Rightarrow> bool" where
  "blank c \<longleftrightarrow> c = byte_of CHR '' '' \<or> c = 9"

function has_token_loop :: "bytes \<Rightarrow> nat \<Rightarrow> nat \<Rightarrow> bytes \<Rightarrow> bool" where
  "has_token_loop buf i lst token =
     (if i < lst then
        let k = skip_while list_sep buf i lst;
            j = skip_while (\<lambda>c. \<not> list_sep c) buf k lst in
        if ieqLit buf k (j - k) token then True
        else has_token_loop buf j lst token
      else False)"
  by pat_completeness auto
termination
proof (relation "measure (\<lambda>(_, i, lst, _). lst - i)", simp)
  fix buf :: bytes and i lst k j :: nat and token :: bytes
  assume i: "i < lst" and k: "k = skip_while list_sep buf i lst"
    and j: "j = skip_while (\<lambda>c. \<not> list_sep c) buf k lst"
  have "i < j"
  proof (cases "list_sep (buf ! i)")
    case True
    then have "i < k" using skip_while_gt i k by blast
    then show ?thesis using skip_while_ge j less_le_trans by blast
  next
    case False
    then have "k = i" using k by (subst (asm) skip_while.simps) simp
    then show ?thesis using False i j skip_while_gt [of i lst "\<lambda>c. \<not> list_sep c" buf] by simp
  qed
  then show "((buf, j, lst, token), (buf, i, lst, token)) \<in> measure (\<lambda>(_, i, lst, _). lst - i)"
    using i by auto
qed

definition hasToken :: "bytes \<Rightarrow> nat \<Rightarrow> nat \<Rightarrow> bytes \<Rightarrow> bool" where
  "hasToken buf start len token = has_token_loop buf start (start + len) token"

section \<open>The request line\<close>

definition inBody :: "RequestParser \<Rightarrow> bool" where
  "inBody p \<longleftrightarrow> phase p \<in> {ppBody, ppChunkSize, ppChunkData, ppChunkCRLF, ppTrailers}"

definition started :: "RequestParser \<Rightarrow> bool" where
  "started p \<longleftrightarrow> phase p \<noteq> ppReqLine \<or> rp_pos p \<noteq> reqStart p"

definition reset :: "RequestParser \<Rightarrow> nat \<Rightarrow> RequestParser" where
  "reset p start = p\<lparr>phase := ppReqLine, reqStart := start, rp_pos := start, pathStart := 0, pathLen := 0,
     minor := 1, rp_headers := [], rp_trailers := [], contentLength := - 1, chunked := False,
     keepAlive := True, expectContinue := False, bodyStart := 0, bodyLen := 0, chunkRemaining := 0,
     trailerCount := 0, seenContentLength := False, seenTE := False, seenHost := False\<rparr>"

definition fail :: "RequestParser \<Rightarrow> nat \<Rightarrow> ParseResult \<times> RequestParser" where
  "fail p status = (prError, p\<lparr>phase := ppError, errorStatus := status\<rparr>)"

definition parseMethod :: "RequestParser \<Rightarrow> bytes \<Rightarrow> nat \<Rightarrow> nat \<Rightarrow> bool \<times> RequestParser" where
  "parseMethod p buf start len =
     (if eqLit buf start len (bstr ''GET'') then (True, p\<lparr>httpMethod := HttpGet\<rparr>)
      else if eqLit buf start len (bstr ''PUT'') then (True, p\<lparr>httpMethod := HttpPut\<rparr>)
      else if eqLit buf start len (bstr ''POST'') then (True, p\<lparr>httpMethod := HttpPost\<rparr>)
      else if eqLit buf start len (bstr ''HEAD'') then (True, p\<lparr>httpMethod := HttpHead\<rparr>)
      else if eqLit buf start len (bstr ''PATCH'') then (True, p\<lparr>httpMethod := HttpPatch\<rparr>)
      else if eqLit buf start len (bstr ''TRACE'') then (True, p\<lparr>httpMethod := HttpTrace\<rparr>)
      else if eqLit buf start len (bstr ''DELETE'') then (True, p\<lparr>httpMethod := HttpDelete\<rparr>)
      else if eqLit buf start len (bstr ''OPTIONS'') then (True, p\<lparr>httpMethod := HttpOptions\<rparr>)
      else if eqLit buf start len (bstr ''CONNECT'') then (True, p\<lparr>httpMethod := HttpConnect\<rparr>)
      else (False, p))"

definition any_in :: "(byte \<Rightarrow> bool) \<Rightarrow> bytes \<Rightarrow> nat \<Rightarrow> nat \<Rightarrow> bool" where
  "any_in P buf i j \<longleftrightarrow> list_ex (\<lambda>k. P (buf ! k)) [i..<j]"

definition version_shape :: "bytes \<Rightarrow> nat \<Rightarrow> nat \<Rightarrow> bool" where
  "version_shape buf vs lineEnd \<longleftrightarrow>
     int lineEnd - int vs = 8 \<and> buf ! vs = byte_of CHR ''H'' \<and> buf ! (vs + 1) = byte_of CHR ''T'' \<and>
     buf ! (vs + 2) = byte_of CHR ''T'' \<and> buf ! (vs + 3) = byte_of CHR ''P'' \<and>
     buf ! (vs + 4) = byte_of CHR ''/'' \<and> buf ! (vs + 6) = byte_of CHR ''.''"

definition parseReqLine :: "RequestParser \<Rightarrow> bytes \<Rightarrow> nat \<Rightarrow> ParseResult \<times> RequestParser" where
  "parseReqLine p buf lineEnd =
     (case findByte buf (rp_pos p) lineEnd (byte_of CHR '' '') of
        None \<Rightarrow> fail p 400
      | Some sp1 \<Rightarrow>
          (case parseMethod p buf (rp_pos p) (sp1 - rp_pos p) of
             (False, p) \<Rightarrow> fail p 501
           | (True, p) \<Rightarrow>
               (case findByte buf (sp1 + 1) lineEnd (byte_of CHR '' '') of
                  None \<Rightarrow> fail p 400
                | Some sp2 \<Rightarrow>
                    if sp2 = sp1 + 1 then fail p 400
                    else if any_in (\<lambda>b. b < 0x21 \<or> b = 0x7f) buf (sp1 + 1) sp2 then fail p 400
                    else
                      let p = p\<lparr>pathStart := sp1 + 1, pathLen := sp2 - sp1 - 1\<rparr>;
                          vs = sp2 + 1 in
                      if \<not> version_shape buf vs lineEnd then fail p 400
                      else if buf ! (vs + 5) \<noteq> byte_of CHR ''1'' then fail p 505
                      else if buf ! (vs + 7) = byte_of CHR ''0''
                      then (prNeedMore, p\<lparr>minor := 0, keepAlive := False, phase := ppHeaders\<rparr>)
                      else if buf ! (vs + 7) = byte_of CHR ''1''
                      then (prNeedMore, p\<lparr>minor := 1, keepAlive := True, phase := ppHeaders\<rparr>)
                      else fail p 505)))"

section \<open>Header fields\<close>

record te_scan =
  te_codings :: nat
  te_prevChunked :: bool
  te_lastChunked :: bool
  te_nonFinal :: bool

function te_loop :: "bytes \<Rightarrow> nat \<Rightarrow> nat \<Rightarrow> te_scan \<Rightarrow> te_scan" where
  "te_loop buf i lst s =
     (if i < lst then
        let ns = skip_while list_sep buf i lst in
        if lst \<le> ns then s
        else
          let i = skip_while (\<lambda>c. \<not> (list_sep c \<or> c = byte_of CHR '';'')) buf ns lst;
              isChunked = ieqLit buf ns (i - ns) (bstr ''chunked'');
              s = \<lparr>te_codings = Suc (te_codings s), te_prevChunked = isChunked, te_lastChunked = isChunked,
                   te_nonFinal = (te_nonFinal s \<or> te_prevChunked s)\<rparr>;
              i = skip_while (\<lambda>c. c \<noteq> byte_of CHR '','') buf i lst in
          te_loop buf i lst s
      else s)"
  by pat_completeness auto
termination
proof (relation "measure (\<lambda>(_, i, lst, _). lst - i)", simp)
  fix buf :: bytes and i lst ns i1 i2 :: nat and s s1 :: te_scan and c
  assume i: "i < lst" and ns: "ns = skip_while list_sep buf i lst" and nl: "\<not> lst \<le> ns"
    and i1: "i1 = skip_while (\<lambda>c. \<not> (list_sep c \<or> c = byte_of CHR '';'')) buf ns lst"
    and i2: "i2 = skip_while (\<lambda>c. c \<noteq> byte_of CHR '','') buf i1 lst"
  have ge: "i \<le> ns" "ns \<le> i1" "i1 \<le> i2" using ns i1 i2 skip_while_ge by auto
  have "i < i2"
  proof (cases "list_sep (buf ! i)")
    case True
    then have "i < ns" using skip_while_gt i ns by blast
    then show ?thesis using ge by linarith
  next
    case False
    then have "ns = i" using ns by (subst (asm) skip_while.simps) simp
    show ?thesis
    proof (cases "buf ! i = byte_of CHR '';''")
      case True
      then have "i1 = i" using i1 \<open>ns = i\<close> by (subst (asm) skip_while.simps) simp
      then show ?thesis
        using i2 i True skip_while_gt [of i lst "\<lambda>c. c \<noteq> byte_of CHR '',''" buf] by simp
    next
      case nsemi: False
      then have "i < i1"
        using i1 \<open>ns = i\<close> i False skip_while_gt [of i lst "\<lambda>c. \<not> (list_sep c \<or> c = byte_of CHR '';'')" buf]
        by simp
      then show ?thesis using ge by linarith
    qed
  qed
  then show "((buf, i2, lst, s1), (buf, i, lst, s)) \<in> measure (\<lambda>(_, i, lst, _). lst - i)"
    using i by auto
qed

declare te_loop.simps [simp del] has_token_loop.simps [simp del]

definition transfer_codings :: "bytes \<Rightarrow> HeaderSlice \<Rightarrow> te_scan" where
  "transfer_codings buf h =
     te_loop buf (valStart h) (valStart h + valLen h)
       \<lparr>te_codings = 0, te_prevChunked = False, te_lastChunked = False, te_nonFinal = False\<rparr>"

definition field_named :: "bytes \<Rightarrow> HeaderSlice \<Rightarrow> string \<Rightarrow> bool" where
  "field_named buf h lit \<longleftrightarrow> ieqLit buf (nameStart h) (nameLen h) (bstr lit)"

definition value_of :: "bytes \<Rightarrow> HeaderSlice \<Rightarrow> bytes" where
  "value_of buf h = take (valLen h) (drop (valStart h) buf)"

definition processHeader :: "RequestParser \<Rightarrow> bytes \<Rightarrow> HeaderSlice \<Rightarrow> ParseResult \<times> RequestParser" where
  "processHeader p buf h =
     (if field_named buf h ''content-length'' then
        (if seenContentLength p \<or> chunked p then fail p 400
         else case parseContentLength (value_of buf h) (- 1) 0 of
           (clOk, v) \<Rightarrow> (prNeedMore, p\<lparr>contentLength := v, seenContentLength := True\<rparr>)
         | (clOverflow, _) \<Rightarrow> fail p 413
         | _ \<Rightarrow> fail p 400)
      else if field_named buf h ''transfer-encoding'' then
        (if seenContentLength p then fail p 400
         else if seenTE p then fail p 400
         else
           let p = p\<lparr>seenTE := True\<rparr> in
           if minor p = 0 then fail p 400
           else
             let s = transfer_codings buf h in
             if te_codings s = 0 \<or> te_nonFinal s then fail p 400
             else if te_lastChunked s then (prNeedMore, p\<lparr>chunked := True\<rparr>)
             else fail p 501)
      else if field_named buf h ''connection'' then
        (if hasToken buf (valStart h) (valLen h) (bstr ''close'') then (prNeedMore, p\<lparr>keepAlive := False\<rparr>)
         else if hasToken buf (valStart h) (valLen h) (bstr ''keep-alive'') then (prNeedMore, p\<lparr>keepAlive := True\<rparr>)
         else (prNeedMore, p))
      else if field_named buf h ''expect'' then
        (if 1 \<le> minor p \<and> ieqLit buf (valStart h) (valLen h) (bstr ''100-continue'')
         then (prNeedMore, p\<lparr>expectContinue := True\<rparr>)
         else (prNeedMore, p))
      else if field_named buf h ''host'' then
        (if seenHost p then fail p 400
         else
           let p = p\<lparr>seenHost := True\<rparr> in
           if any_in (\<lambda>b. b \<le> 0x20 \<or> b = 0x7f) buf (valStart h) (valStart h + valLen h) then fail p 400
           else (prNeedMore, p))
      else (prNeedMore, p))"

text \<open>
  The two slices of a field line, or \<open>None\<close> where the source fails with 400. The header line and
  the trailer line of the source are checked by the same statements.
\<close>

definition bad_name_byte :: "byte \<Rightarrow> bool" where
  "bad_name_byte b \<longleftrightarrow> b \<le> 0x20 \<or> 0x7f \<le> b \<or> b \<in> set tokenDelims"

definition bad_value_byte :: "byte \<Rightarrow> bool" where
  "bad_value_byte b \<longleftrightarrow> (b < 0x20 \<and> b \<noteq> 0x09) \<or> b = 0x7f"

text \<open>\<open>while ve > vs and buf[ve-1] in {' ', '\t'}: dec ve\<close>\<close>

fun trim_end :: "bytes \<Rightarrow> nat \<Rightarrow> nat \<Rightarrow> nat" where
  "trim_end buf vs 0 = 0"
| "trim_end buf vs (Suc ve) = (if vs < Suc ve \<and> blank (buf ! ve) then trim_end buf vs ve else Suc ve)"

definition field_line :: "bytes \<Rightarrow> nat \<Rightarrow> nat \<Rightarrow> HeaderSlice option" where
  "field_line buf start lineEnd =
     (case findByte buf start lineEnd (byte_of CHR '':'') of
        None \<Rightarrow> None
      | Some colon \<Rightarrow>
          if colon = start then None
          else if any_in bad_name_byte buf start colon then None
          else
            let vs = skip_while blank buf (colon + 1) lineEnd;
                ve = trim_end buf vs lineEnd in
            if any_in bad_value_byte buf vs ve then None
            else Some \<lparr>nameStart = start, nameLen = colon - start, valStart = vs, valLen = ve - vs\<rparr>)"

definition parseHeaderLine ::
  "RequestParser \<Rightarrow> bytes \<Rightarrow> nat \<Rightarrow> ParserLimits \<Rightarrow> ParseResult \<times> RequestParser" where
  "parseHeaderLine p buf lineEnd limits =
     (if maxHeaderCount limits \<le> length (rp_headers p) then fail p 431
      else case field_line buf (rp_pos p) lineEnd of
        None \<Rightarrow> fail p 400
      | Some h \<Rightarrow> processHeader (p\<lparr>rp_headers := rp_headers p @ [h]\<rparr>) buf h)"

section \<open>The loop\<close>

text \<open>What one turn does: go on with a state and a body, or return.\<close>

datatype turn = Go RequestParser bytes | Stop ParseResult RequestParser bytes

definition failed :: "RequestParser \<Rightarrow> nat \<Rightarrow> bytes \<Rightarrow> turn" where
  "failed p status body = (case fail p status of (r, p) \<Rightarrow> Stop r p body)"

text \<open>The end of the head: \<open>if lineEnd == p.pos\<close> in the phase \<open>ppHeaders\<close>.\<close>

definition head_done :: "RequestParser \<Rightarrow> nat \<Rightarrow> ParserLimits \<Rightarrow> bytes \<Rightarrow> turn" where
  "head_done p nl limits body =
     (if minor p = 1 \<and> \<not> seenHost p then failed p 400 body
      else
        let p = p\<lparr>rp_pos := nl + 1\<rparr> in
        if chunked p then Go (p\<lparr>bodyStart := rp_pos p, phase := ppChunkSize\<rparr>) body
        else if 0 < contentLength p then
          (if int (maxBodySize limits) < contentLength p then failed p 413 body
           else Go (p\<lparr>bodyStart := rp_pos p, bodyLen := nat (contentLength p), phase := ppBody\<rparr>) body)
        else Stop prComplete (p\<lparr>bodyStart := rp_pos p, bodyLen := 0, phase := ppComplete\<rparr>) body)"

definition head_turn :: "RequestParser \<Rightarrow> bytes \<Rightarrow> nat \<Rightarrow> ParserLimits \<Rightarrow> bytes \<Rightarrow> turn" where
  "head_turn p buf dataEnd limits body =
     (let too_long = (if phase p = ppReqLine then 414 else 431) in
      case findByte buf (rp_pos p) dataEnd 10 of
        None \<Rightarrow>
          if maxHeaderSize limits < dataEnd - reqStart p then failed p too_long body
          else Stop prNeedMore p body
      | Some nl \<Rightarrow>
          if nl = rp_pos p \<or> buf ! (nl - 1) \<noteq> 13 then failed p 400 body
          else
            let lineEnd = nl - 1 in
            if maxHeaderSize limits < nl - reqStart p then failed p too_long body
            else if phase p = ppReqLine then
              (if lineEnd = rp_pos p then Go (p\<lparr>rp_pos := nl + 1, reqStart := nl + 1\<rparr>) body
               else case parseReqLine p buf lineEnd of
                 (prError, p) \<Rightarrow> Stop prError p body
               | (_, p) \<Rightarrow> Go (p\<lparr>rp_pos := nl + 1\<rparr>) body)
            else if lineEnd = rp_pos p then head_done p nl limits body
            else case parseHeaderLine p buf lineEnd limits of
                (prError, p) \<Rightarrow> Stop prError p body
              | (_, p) \<Rightarrow> Go (p\<lparr>rp_pos := nl + 1\<rparr>) body)"

definition body_turn :: "RequestParser \<Rightarrow> nat \<Rightarrow> bytes \<Rightarrow> turn" where
  "body_turn p dataEnd body =
     (if int dataEnd - int (bodyStart p) < int (bodyLen p) then Stop prNeedMore p body
      else Stop prComplete (p\<lparr>rp_pos := bodyStart p + bodyLen p, phase := ppComplete\<rparr>) body)"

definition hex_value :: "byte \<Rightarrow> int option" where
  "hex_value c =
     (if 48 \<le> c \<and> c \<le> 57 then Some (uint (c - 48))
      else if 97 \<le> c \<and> c \<le> 102 then Some (uint (c - 97 + 10))
      else if 65 \<le> c \<and> c \<le> 70 then Some (uint (c - 65 + 10))
      else None)"

text \<open>
  \<open>while i < nl - 1\<close>: the size and the number of digits, or the status to fail with.
  The list is \<open>buf[i ..< nl - 1]\<close>.
\<close>

fun chunk_size_loop :: "bytes \<Rightarrow> int \<Rightarrow> nat \<Rightarrow> nat + int \<times> nat" where
  "chunk_size_loop [] sz digits = Inr (sz, digits)"
| "chunk_size_loop (c # cs) sz digits =
     (case hex_value c of
        None \<Rightarrow>
          if c = byte_of CHR '';'' then (if list_ex bad_value_byte cs then Inl 400 else Inr (sz, digits))
          else Inl 400
      | Some d \<Rightarrow>
          if drop_bit 4 (int64_high - 15) < sz then Inl 413
          else chunk_size_loop cs (int64 (push_bit 4 sz OR d)) (Suc digits))"

definition chunk_size_turn :: "RequestParser \<Rightarrow> bytes \<Rightarrow> nat \<Rightarrow> ParserLimits \<Rightarrow> bytes \<Rightarrow> turn" where
  "chunk_size_turn p buf dataEnd limits body =
     (case findByte buf (rp_pos p) dataEnd 10 of
        None \<Rightarrow> if 128 < dataEnd - rp_pos p then failed p 400 body else Stop prNeedMore p body
      | Some nl \<Rightarrow>
          if 128 < nl - rp_pos p then failed p 400 body
          else if nl = rp_pos p \<or> buf ! (nl - 1) \<noteq> 13 then failed p 400 body
          else
            case chunk_size_loop (py_slice buf (rp_pos p) (nl - 1)) 0 0 of
              Inl status \<Rightarrow> failed p status body
            | Inr (sz, digits) \<Rightarrow>
                if digits = 0 then failed p 400 body
                else if int (maxBodySize limits) < int64 (int (length body) + sz) then failed p 413 body
                else Go (p\<lparr>rp_pos := nl + 1, chunkRemaining := sz,
                  phase := (if sz = 0 then ppTrailers else ppChunkData)\<rparr>) body)"

definition chunk_data_turn :: "RequestParser \<Rightarrow> bytes \<Rightarrow> nat \<Rightarrow> bytes \<Rightarrow> turn" where
  "chunk_data_turn p buf dataEnd body =
     (if dataEnd \<le> rp_pos p then Stop prNeedMore p body
      else
        let n = nat (min (int (dataEnd - rp_pos p)) (chunkRemaining p));
            body = body @ take n (drop (rp_pos p) buf);
            p = p\<lparr>rp_pos := rp_pos p + n, chunkRemaining := chunkRemaining p - int n\<rparr> in
        if chunkRemaining p = 0 then Go (p\<lparr>phase := ppChunkCRLF\<rparr>) body
        else Stop prNeedMore p body)"

definition chunk_crlf_turn :: "RequestParser \<Rightarrow> bytes \<Rightarrow> nat \<Rightarrow> bytes \<Rightarrow> turn" where
  "chunk_crlf_turn p buf dataEnd body =
     (if int dataEnd - int (rp_pos p) < 2 then Stop prNeedMore p body
      else if buf ! rp_pos p \<noteq> 13 \<or> buf ! (rp_pos p + 1) \<noteq> 10 then failed p 400 body
      else Go (p\<lparr>rp_pos := rp_pos p + 2, phase := ppChunkSize\<rparr>) body)"

definition trailer_turn :: "RequestParser \<Rightarrow> bytes \<Rightarrow> nat \<Rightarrow> ParserLimits \<Rightarrow> bytes \<Rightarrow> turn" where
  "trailer_turn p buf dataEnd limits body =
     (case findByte buf (rp_pos p) dataEnd 10 of
        None \<Rightarrow>
          if maxHeaderSize limits < dataEnd - rp_pos p then failed p 431 body else Stop prNeedMore p body
      | Some nl \<Rightarrow>
          if nl = rp_pos p \<or> buf ! (nl - 1) \<noteq> 13 then failed p 400 body
          else
            let lineEnd = nl - 1 in
            if lineEnd = rp_pos p then Stop prComplete (p\<lparr>rp_pos := nl + 1, phase := ppComplete\<rparr>) body
            else
              let p = p\<lparr>trailerCount := Suc (trailerCount p)\<rparr> in
              if maxHeaderCount limits < trailerCount p then failed p 431 body
              else case field_line buf (rp_pos p) lineEnd of
                None \<Rightarrow> failed p 400 body
              | Some h \<Rightarrow>
                  let lname = map toLowerA (take (nameLen h) (drop (nameStart h) buf));
                      disallowed = (lname \<in> set disallowedTrailers);
                      p = (if \<not> disallowed then p\<lparr>rp_trailers := rp_trailers p @ [h]\<rparr> else p) in
                  Go (p\<lparr>rp_pos := nl + 1\<rparr>) body)"

definition parse_turn :: "bytes \<Rightarrow> ParserLimits \<Rightarrow> nat \<Rightarrow> RequestParser \<Rightarrow> bytes \<Rightarrow> turn" where
  "parse_turn buf limits dataEnd p body =
     (case phase p of
        ppReqLine \<Rightarrow> head_turn p buf dataEnd limits body
      | ppHeaders \<Rightarrow> head_turn p buf dataEnd limits body
      | ppBody \<Rightarrow> body_turn p dataEnd body
      | ppChunkSize \<Rightarrow> chunk_size_turn p buf dataEnd limits body
      | ppChunkData \<Rightarrow> chunk_data_turn p buf dataEnd body
      | ppChunkCRLF \<Rightarrow> chunk_crlf_turn p buf dataEnd body
      | ppTrailers \<Rightarrow> trailer_turn p buf dataEnd limits body
      | ppComplete \<Rightarrow> Stop prComplete p body
      | ppError \<Rightarrow> Stop prError p body)"

section \<open>Every turn makes progress\<close>

definition advances :: "nat \<Rightarrow> RequestParser \<Rightarrow> RequestParser \<Rightarrow> bool" where
  "advances dataEnd p p' \<longleftrightarrow>
     (rp_pos p < rp_pos p' \<and> rp_pos p' \<le> dataEnd) \<or>
     (rp_pos p' = rp_pos p \<and> rp_pos p < dataEnd \<and> phase p = ppChunkData \<and> phase p' = ppChunkCRLF)"

lemma findByte_range: "findByte buf s e ch = Some i \<Longrightarrow> s \<le> i \<and> i < e"
  by (simp add: findByte_Some_iff)

lemma head_turn_advances:
  "head_turn p buf dataEnd limits body = Go p' body' \<Longrightarrow> advances dataEnd p p'"
  by (auto simp: head_turn_def head_done_def failed_def fail_def Let_def advances_def
      split: option.splits if_splits prod.splits ParseResult.splits dest!: findByte_range)

lemma chunk_turns_advance:
  "chunk_size_turn p buf dataEnd limits body = Go p' body' \<Longrightarrow> advances dataEnd p p'"
  "phase p = ppChunkData \<Longrightarrow> chunk_data_turn p buf dataEnd body = Go p' body' \<Longrightarrow> advances dataEnd p p'"
  "chunk_crlf_turn p buf dataEnd body = Go p' body' \<Longrightarrow> advances dataEnd p p'"
  "trailer_turn p buf dataEnd limits body = Go p' body' \<Longrightarrow> advances dataEnd p p'"
  subgoal
    by (auto simp: chunk_size_turn_def failed_def fail_def advances_def
        split: option.splits if_splits prod.splits sum.splits dest!: findByte_range)
  subgoal by (auto simp: chunk_data_turn_def Let_def advances_def split: if_splits)
  subgoal by (auto simp: chunk_crlf_turn_def failed_def fail_def advances_def split: if_splits)
  subgoal
    by (auto simp: trailer_turn_def failed_def fail_def Let_def advances_def
        split: option.splits if_splits dest!: findByte_range)
  done

lemma turn_advances: "parse_turn buf limits dataEnd p body = Go p' body' \<Longrightarrow> advances dataEnd p p'"
  by (auto simp: parse_turn_def body_turn_def split: ParsePhase.splits if_splits
      intro: head_turn_advances chunk_turns_advance)

text \<open>The loop: the result, the state and the body after it.\<close>

function parse_loop ::
  "bytes \<Rightarrow> ParserLimits \<Rightarrow> nat \<Rightarrow> RequestParser \<Rightarrow> bytes \<Rightarrow> ParseResult \<times> RequestParser \<times> bytes" where
  "parse_loop buf limits dataEnd p body =
     (case parse_turn buf limits dataEnd p body of
        Go p body \<Rightarrow> parse_loop buf limits dataEnd p body
      | Stop r p body \<Rightarrow> (r, p, body))"
  by pat_completeness auto
termination
  by (relation "measures [\<lambda>(_, _, dataEnd, p, _). dataEnd - rp_pos p,
      \<lambda>(_, _, _, p, _). if phase p = ppChunkData then 1 else 0]")
    (auto dest!: turn_advances simp: advances_def)

declare parse_loop.simps [simp del]

definition parse ::
  "RequestParser \<Rightarrow> bytes \<Rightarrow> nat \<Rightarrow> ParserLimits \<Rightarrow> bytes \<Rightarrow> ParseResult \<times> RequestParser \<times> bytes" where
  "parse p buf dataEnd limits chunkBody = parse_loop buf limits dataEnd p chunkBody"

end
