(* ===== verification/Http1_Framing.thy ===== *)
theory Http1_Framing
  imports Http1_Props
begin

text \<open>
  The framing of a request that the parser completes: which fields it accepted, where its body
  ends and how large it is; and the one chunk size that escapes the body limit.
\<close>

section \<open>Fields\<close>

lemma any_in_iff: "any_in P buf i j \<longleftrightarrow> (\<exists>k. i \<le> k \<and> k < j \<and> P (buf ! k))"
  by (auto simp: any_in_def list_ex_iff)

definition clean_field :: "bytes \<Rightarrow> HeaderSlice \<Rightarrow> bool" where
  "clean_field buf h \<longleftrightarrow>
     0 < nameLen h \<and> (\<forall>i < nameLen h. \<not> bad_name_byte (buf ! (nameStart h + i))) \<and>
     (\<forall>i < valLen h. \<not> bad_value_byte (buf ! (valStart h + i)))"

lemma field_line_clean: "field_line buf s e = Some h \<Longrightarrow> clean_field buf h"
  by (auto simp: field_line_def clean_field_def any_in_iff Let_def split: option.splits if_splits
      dest!: findByte_range)

lemma field_named_unique: "field_named buf h a \<Longrightarrow> field_named buf h b \<Longrightarrow> a = b"
proof -
  assume "field_named buf h a" "field_named buf h b"
  then have "bstr a = bstr b" by (auto simp: field_named_def ieqLit_def list_eq_iff_nth_eq)
  then show "a = b" by simp
qed

definition named :: "bytes \<Rightarrow> HeaderSlice list \<Rightarrow> string \<Rightarrow> nat" where
  "named buf hs n = length (filter (\<lambda>h. field_named buf h n) hs)"

lemma named_simps [simp]:
  "named buf [] n = 0"
  "named buf (hs @ [h]) n = named buf hs n + of_bool (field_named buf h n)"
  by (simp_all add: named_def)

text \<open>What the flags of the parser say about the header lines read so far.\<close>

definition head_ok :: "bytes \<Rightarrow> ParserLimits \<Rightarrow> RequestParser \<Rightarrow> bool" where
  "head_ok buf limits p \<longleftrightarrow>
     (\<forall>h \<in> set (rp_headers p). clean_field buf h) \<and> length (rp_headers p) \<le> maxHeaderCount limits \<and>
     named buf (rp_headers p) ''host'' = of_bool (seenHost p) \<and>
     named buf (rp_headers p) ''content-length'' = of_bool (seenContentLength p) \<and>
     named buf (rp_headers p) ''transfer-encoding'' = of_bool (chunked p) \<and>
     seenTE p = chunked p \<and> \<not> (chunked p \<and> seenContentLength p) \<and>
     (if seenContentLength p then
        (\<exists>h \<in> set (rp_headers p). field_named buf h ''content-length'' \<and> value_of buf h \<noteq> [] \<and>
           list_all digitA (value_of buf h) \<and> contentLength p = decimal_from 0 (value_of buf h))
      else contentLength p = - 1)"

lemma parseContentLength_ok:
  assumes "parseContentLength val prev v0 = (clOk, v)"
  shows "val \<noteq> [] \<and> list_all digitA val \<and> v = decimal_from 0 val"
proof -
  have ne: "val \<noteq> []" using assms by (auto simp: parseContentLength_def)
  have d: "list_all digitA val"
  proof (rule ccontr)
    assume "\<not> list_all digitA val"
    then show False using assms content_length_loop_junk [of val 0] by (auto simp: parseContentLength_def split: if_splits)
  qed
  then show ?thesis using assms ne content_length_loop_digits [OF d, of 0]
    by (auto simp: parseContentLength_def content_length_max_def split: if_splits)
qed

text \<open>The fields that \<open>processHeader\<close> leaves alone.\<close>

definition same_frame :: "RequestParser \<Rightarrow> RequestParser \<Rightarrow> bool" where
  "same_frame p q \<longleftrightarrow> phase q = phase p \<and> rp_pos q = rp_pos p \<and> minor q = minor p \<and> rp_trailers q = rp_trailers p \<and>
     trailerCount q = trailerCount p \<and> bodyLen q = bodyLen p \<and> rp_headers q = rp_headers p"

lemma processHeader_frame: "processHeader p buf h = (r, q) \<Longrightarrow> r \<noteq> prError \<Longrightarrow> same_frame p q"
  by (auto simp: processHeader_def fail_def Let_def same_frame_def
      split: if_splits prod.splits ContentLengthResult.splits)

lemma processHeader_cases:
  assumes "processHeader p buf h = (r, q)" "r \<noteq> prError"
  obtains (cl) v where "field_named buf h ''content-length''" "\<not> seenContentLength p" "\<not> chunked p"
      "parseContentLength (value_of buf h) (- 1) 0 = (clOk, v)"
      "q = p\<lparr>contentLength := v, seenContentLength := True\<rparr>"
    | (te) "field_named buf h ''transfer-encoding''" "\<not> seenContentLength p" "\<not> seenTE p"
      "q = p\<lparr>seenTE := True, chunked := True\<rparr>"
    | (host) "field_named buf h ''host''" "\<not> seenHost p" "q = p\<lparr>seenHost := True\<rparr>"
    | (rest) k e where "\<not> field_named buf h ''content-length''" "\<not> field_named buf h ''transfer-encoding''"
      "\<not> field_named buf h ''host''" "q = p\<lparr>keepAlive := k, expectContinue := e\<rparr>"
proof (cases "field_named buf h ''content-length''")
  case True
  then show ?thesis using assms cl
    by (auto simp: processHeader_def fail_def split: if_splits prod.splits ContentLengthResult.splits)
next
  case ncl: False
  show ?thesis
  proof (cases "field_named buf h ''transfer-encoding''")
    case True
    then show ?thesis using assms te ncl
      by (auto simp: processHeader_def fail_def Let_def split: if_splits)
  next
    case nte: False
    show ?thesis
    proof (cases "field_named buf h ''host''")
      case True
      then have "\<not> field_named buf h ''connection''" "\<not> field_named buf h ''expect''"
        using field_named_unique [OF True] by auto
      then show ?thesis using assms host True ncl nte
        by (auto simp: processHeader_def fail_def Let_def split: if_splits)
    next
      case False
      have "q \<in> {p, p\<lparr>keepAlive := False\<rparr>, p\<lparr>keepAlive := True\<rparr>, p\<lparr>expectContinue := True\<rparr>}"
        using assms False ncl nte by (auto simp: processHeader_def split: if_splits)
      then have "\<exists>k e. q = p\<lparr>keepAlive := k, expectContinue := e\<rparr>"
        by (cases p) auto
      then show ?thesis using rest ncl nte False by blast
    qed
  qed
qed

lemma processHeader_ok:
  assumes "processHeader p buf h = (r, q)" "r \<noteq> prError" "head_ok buf limits p0"
    "p = p0\<lparr>rp_headers := rp_headers p0 @ [h]\<rparr>" "clean_field buf h"
    "length (rp_headers p0) < maxHeaderCount limits"
  shows "head_ok buf limits q"
proof -
  have other: "\<not> field_named buf h b" if "field_named buf h a" "a \<noteq> b" for a b
    using that field_named_unique by blast
  from assms(1,2) show ?thesis
  proof (cases rule: processHeader_cases)
    case cl
    then show ?thesis using assms(3-6) other [OF cl(1)] parseContentLength_ok [OF cl(4)]
      by (auto simp: head_ok_def)
  next
    case te
    then show ?thesis using assms(3-6) other [OF te(1)] by (auto simp: head_ok_def)
  next
    case host
    then show ?thesis using assms(3-6) other [OF host(1)] by (auto simp: head_ok_def)
  next
    case rest
    then show ?thesis using assms(3-6) by (auto simp: head_ok_def)
  qed
qed

end
