(* ===== verification/Http1_Invariant.thy ===== *)
theory Http1_Invariant
  imports Http1_Framing
begin

text \<open>
  The invariant of the loop of \<open>parse\<close>: what every phase knows about the fields accepted so far and
  about the size of the body, and that every turn keeps it.
\<close>

section \<open>The invariant\<close>

definition trailer_ok :: "bytes \<Rightarrow> HeaderSlice \<Rightarrow> bool" where
  "trailer_ok buf h \<longleftrightarrow>
     clean_field buf h \<and> map toLowerA (take (nameLen h) (drop (nameStart h) buf)) \<notin> set disallowedTrailers"

definition trailers_ok :: "bytes \<Rightarrow> ParserLimits \<Rightarrow> RequestParser \<Rightarrow> bool" where
  "trailers_ok buf limits p \<longleftrightarrow>
     (\<forall>h \<in> set (rp_trailers p). trailer_ok buf h) \<and> length (rp_trailers p) \<le> trailerCount p \<and>
     trailerCount p \<le> maxHeaderCount limits"

text \<open>What the end of the head has established.\<close>

definition head_done_ok :: "ParserLimits \<Rightarrow> RequestParser \<Rightarrow> bool" where
  "head_done_ok limits p \<longleftrightarrow>
     (minor p = 1 \<longrightarrow> seenHost p) \<and> bodyStart p \<le> reqStart p + maxHeaderSize limits + 1"

definition plain_body :: "ParserLimits \<Rightarrow> RequestParser \<Rightarrow> bytes \<Rightarrow> bool" where
  "plain_body limits p body \<longleftrightarrow>
     body = [] \<and> rp_trailers p = [] \<and> bodyLen p = nat (contentLength p) \<and> bodyLen p \<le> maxBodySize limits"

definition at_phase :: "ParserLimits \<Rightarrow> nat \<Rightarrow> RequestParser \<Rightarrow> bytes \<Rightarrow> bool" where
  "at_phase limits e p body \<longleftrightarrow>
     (case phase p of
        ppReqLine \<Rightarrow> body = [] \<and> rp_trailers p = []
      | ppHeaders \<Rightarrow> body = [] \<and> rp_trailers p = []
      | ppBody \<Rightarrow> head_done_ok limits p \<and> \<not> chunked p \<and> plain_body limits p body
      | ppChunkData \<Rightarrow> head_done_ok limits p \<and> chunked p \<and> 0 < chunkRemaining p \<and>
          (int (length body) + chunkRemaining p \<le> int (maxBodySize limits) \<or>
           int e < int (rp_pos p) + chunkRemaining p)
      | ppComplete \<Rightarrow> head_done_ok limits p \<and>
          (if chunked p then length body \<le> maxBodySize limits
           else plain_body limits p body \<and> rp_pos p = bodyStart p + bodyLen p)
      | ppError \<Rightarrow> True
      | _ \<Rightarrow> head_done_ok limits p \<and> chunked p \<and> length body \<le> maxBodySize limits)"

definition request_inv :: "bytes \<Rightarrow> ParserLimits \<Rightarrow> nat \<Rightarrow> RequestParser \<Rightarrow> bytes \<Rightarrow> bool" where
  "request_inv buf limits e p body \<longleftrightarrow>
     rp_pos p \<le> e \<and> length body \<le> rp_pos p \<and> head_ok buf limits p \<and> trailers_ok buf limits p \<and>
     at_phase limits e p body"

lemma request_inv_reset: "start \<le> e \<Longrightarrow> request_inv buf limits e (reset p start) []"
  by (simp add: request_inv_def reset_def head_ok_def trailers_ok_def at_phase_def)

text \<open>Fields the invariant of the head does not read.\<close>

lemma head_ok_frame [simp]:
  "head_ok buf limits (p\<lparr>rp_pos := i\<rparr>) = head_ok buf limits p"
  "head_ok buf limits (p\<lparr>reqStart := i\<rparr>) = head_ok buf limits p"
  "head_ok buf limits (p\<lparr>phase := ph\<rparr>) = head_ok buf limits p"
  "head_ok buf limits (p\<lparr>bodyStart := i\<rparr>) = head_ok buf limits p"
  "head_ok buf limits (p\<lparr>bodyLen := i\<rparr>) = head_ok buf limits p"
  "head_ok buf limits (p\<lparr>chunkRemaining := r\<rparr>) = head_ok buf limits p"
  "head_ok buf limits (p\<lparr>trailerCount := i\<rparr>) = head_ok buf limits p"
  "head_ok buf limits (p\<lparr>rp_trailers := hs\<rparr>) = head_ok buf limits p"
  by (simp_all add: head_ok_def)

lemma trailers_ok_frame [simp]:
  "trailers_ok buf limits (p\<lparr>rp_pos := i\<rparr>) = trailers_ok buf limits p"
  "trailers_ok buf limits (p\<lparr>reqStart := i\<rparr>) = trailers_ok buf limits p"
  "trailers_ok buf limits (p\<lparr>phase := ph\<rparr>) = trailers_ok buf limits p"
  "trailers_ok buf limits (p\<lparr>bodyStart := i\<rparr>) = trailers_ok buf limits p"
  "trailers_ok buf limits (p\<lparr>bodyLen := i\<rparr>) = trailers_ok buf limits p"
  "trailers_ok buf limits (p\<lparr>chunkRemaining := r\<rparr>) = trailers_ok buf limits p"
  by (simp_all add: trailers_ok_def)

lemma head_done_ok_frame [simp]:
  "head_done_ok limits (p\<lparr>rp_pos := i\<rparr>) = head_done_ok limits p"
  "head_done_ok limits (p\<lparr>phase := ph\<rparr>) = head_done_ok limits p"
  "head_done_ok limits (p\<lparr>chunkRemaining := r\<rparr>) = head_done_ok limits p"
  "head_done_ok limits (p\<lparr>trailerCount := t\<rparr>) = head_done_ok limits p"
  "head_done_ok limits (p\<lparr>rp_trailers := hs\<rparr>) = head_done_ok limits p"
  by (simp_all add: head_done_ok_def)

section \<open>The size of a chunk\<close>

lemma hex_value_range: "hex_value c = Some d \<Longrightarrow> 0 \<le> d \<and> d < 16"
proof -
  have "list_all (\<lambda>n. case hex_value (of_nat n) of None \<Rightarrow> True | Some d \<Rightarrow> 0 \<le> d \<and> d < 16) [0..<256]" by code_simp
  moreover have "unat c \<in> set [0..<256]" unfolding set_upt using unsigned_less [of c] by simp
  ultimately have "case hex_value (of_nat (unat c)) of None \<Rightarrow> True | Some d \<Rightarrow> 0 \<le> d \<and> d < 16"
    unfolding list_all_iff by blast
  then show "hex_value c = Some d \<Longrightarrow> 0 \<le> d \<and> d < 16" by simp
qed

lemma shift_or: "0 \<le> d \<Longrightarrow> d < 16 \<Longrightarrow> push_bit 4 (n :: int) OR d = 16 * n + d"
  using concat_bit_eq [of 4 d n] by (simp add: concat_bit_def take_bit_int_eq_self push_bit_eq_mult or.commute)

lemma chunk_size_loop_range:
  "chunk_size_loop cs sz k = Inr (n, j) \<Longrightarrow> 0 \<le> sz \<Longrightarrow> sz \<le> int64_high \<Longrightarrow> 0 \<le> n \<and> n \<le> int64_high"
proof (induction cs sz k rule: chunk_size_loop.induct)
  case (2 c cs sz digits)
  show ?case
  proof (cases "hex_value c")
    case (Some d)
    have d: "0 \<le> d" "d < 16" using hex_value_range [OF Some] by auto
    have small: "sz \<le> 2 ^ 59 - 1" using "2.prems"(1) Some
      by (auto simp: int64_high_def drop_bit_eq_div split: if_splits)
    then have "int64 (push_bit 4 sz OR d) = 16 * sz + d" "0 \<le> 16 * sz + d" "16 * sz + d \<le> int64_high"
      using d "2.prems"(2) unfolding shift_or [OF d] by (auto simp: int64_high_def intro!: int64_id)
    then show ?thesis using "2.IH" Some "2.prems"(1) by (auto split: if_splits)
  qed (use 2 in \<open>auto split: if_splits\<close>)
qed auto

section \<open>Every turn keeps the invariant\<close>

text \<open>What holds of the outcome of a turn.\<close>

definition turn_inv :: "bytes \<Rightarrow> ParserLimits \<Rightarrow> nat \<Rightarrow> turn \<Rightarrow> bool" where
  "turn_inv buf limits e t \<longleftrightarrow>
     (case t of Go p body \<Rightarrow> request_inv buf limits e p body
      | Stop r p body \<Rightarrow> r = prComplete \<longrightarrow> phase p = ppComplete \<and> request_inv buf limits e p body)"

lemma turn_inv_simps [simp]:
  "turn_inv buf limits e (Go p body) = request_inv buf limits e p body"
  "turn_inv buf limits e (failed p st body)"
  "turn_inv buf limits e (Stop prNeedMore p body)"
  "turn_inv buf limits e (Stop prError p body)"
  "turn_inv buf limits e (Stop prComplete p body) \<longleftrightarrow> phase p = ppComplete \<and> request_inv buf limits e p body"
  by (simp_all add: turn_inv_def failed_eq)

lemma body_turn_inv:
  "request_inv buf limits e p body \<Longrightarrow> phase p = ppBody \<Longrightarrow> turn_inv buf limits e (body_turn p e body)"
  by (auto simp: body_turn_def request_inv_def at_phase_def plain_body_def)

lemma chunk_crlf_turn_inv:
  "request_inv buf limits e p body \<Longrightarrow> phase p = ppChunkCRLF \<Longrightarrow> turn_inv buf limits e (chunk_crlf_turn p buf e body)"
  by (auto simp: chunk_crlf_turn_def request_inv_def at_phase_def)

lemma chunk_data_turn_inv:
  assumes "request_inv buf limits e p body" "phase p = ppChunkData"
  shows "turn_inv buf limits e (chunk_data_turn p buf e body)"
proof -
  define n where "n = nat (min (int (e - rp_pos p)) (chunkRemaining p))"
  have len: "length (take n (drop (rp_pos p) buf)) \<le> n" by simp
  show ?thesis
    using assms len unfolding chunk_data_turn_def Let_def n_def [symmetric]
    by (auto simp: request_inv_def at_phase_def n_def)
qed

lemma chunk_size_go:
  assumes "request_inv buf limits e p body" "phase p = ppChunkSize" "e < 2 ^ 63"
    "findByte buf (rp_pos p) e 10 = Some nl" "chunk_size_loop cs 0 0 = Inr (sz, k)"
    "\<not> int (maxBodySize limits) < int64 n" "n = int (length body) + sz"
    "ph = (if sz = 0 then ppTrailers else ppChunkData)"
  shows "request_inv buf limits e (p\<lparr>rp_pos := Suc nl, chunkRemaining := sz, phase := ph\<rparr>) body"
proof -
  have nl: "rp_pos p \<le> nl" "nl < e" using findByte_range [OF assms(4)] by auto
  have sz: "0 \<le> sz" "sz \<le> int64_high" using chunk_size_loop_range [OF assms(5)] by (auto simp: int64_high_def)
  have "n \<le> int (maxBodySize limits) \<or> int e < int (Suc nl) + sz"
  proof (cases "n \<le> int64_high")
    case True
    then show ?thesis using assms(6,7) sz by (simp add: int64_id)
  next
    case False
    then show ?thesis using assms(1-3,7) nl by (simp add: int64_high_def request_inv_def)
  qed
  then show ?thesis using assms(1,2,7,8) nl sz by (auto simp: request_inv_def at_phase_def)
qed

lemma chunk_size_turn_inv:
  assumes "request_inv buf limits e p body" "phase p = ppChunkSize" "e < 2 ^ 63"
  shows "turn_inv buf limits e (chunk_size_turn p buf e limits body)"
  by (auto simp: chunk_size_turn_def split: option.splits sum.splits prod.splits intro!: chunk_size_go [OF assms])

lemma trailer_turn_inv:
  assumes "request_inv buf limits e p body" "phase p = ppTrailers"
  shows "turn_inv buf limits e (trailer_turn p buf e limits body)"
proof -
  have "trailers_ok buf limits (p\<lparr>trailerCount := Suc (trailerCount p), rp_trailers := rp_trailers p @ [h]\<rparr>)"
    if "trailers_ok buf limits p" "trailer_ok buf h" "Suc (trailerCount p) \<le> maxHeaderCount limits" for h
    using that by (auto simp: trailers_ok_def)
  moreover have "trailers_ok buf limits (p\<lparr>trailerCount := Suc (trailerCount p)\<rparr>)"
    if "trailers_ok buf limits p" "Suc (trailerCount p) \<le> maxHeaderCount limits"
    using that by (auto simp: trailers_ok_def)
  ultimately show ?thesis using assms
    by (auto simp: trailer_turn_def Let_def request_inv_def at_phase_def trailer_ok_def not_less
        split: option.splits if_splits dest!: findByte_range field_line_clean)
qed

section \<open>The head\<close>

lemma parseReqLine_ok:
  assumes "parseReqLine p buf l = (r, q)" "r \<noteq> prError"
  shows "phase q = ppHeaders \<and> head_ok buf limits q = head_ok buf limits p \<and>
    trailers_ok buf limits q = trailers_ok buf limits p \<and> rp_trailers q = rp_trailers p"
proof -
  obtain m i j n k where "q = p\<lparr>httpMethod := m, pathStart := i, pathLen := j, minor := n, keepAlive := k, phase := ppHeaders\<rparr>"
    using assms unfolding parseReqLine_def
    by (auto simp: fail_def parseMethod_def Let_def split: option.splits if_splits prod.splits)
  then show ?thesis by (simp add: head_ok_def trailers_ok_def)
qed

lemma head_done_inv:
  assumes "request_inv buf limits e p body" "phase p = ppHeaders" "nl < e" "rp_pos p \<le> nl"
    "nl - reqStart p \<le> maxHeaderSize limits"
  shows "turn_inv buf limits e (head_done p nl limits body)"
  using assms by (auto simp: head_done_def Let_def request_inv_def at_phase_def head_done_ok_def plain_body_def)

lemma parseHeaderLine_ok:
  assumes "parseHeaderLine p buf l limits = (r, q)" "r \<noteq> prError" "head_ok buf limits p"
  shows "head_ok buf limits q \<and> same_frame p (q\<lparr>rp_headers := rp_headers p\<rparr>)"
proof -
  obtain h where h: "field_line buf (rp_pos p) l = Some h" "length (rp_headers p) < maxHeaderCount limits"
      "processHeader (p\<lparr>rp_headers := rp_headers p @ [h]\<rparr>) buf h = (r, q)"
    using assms(1,2) by (auto simp: parseHeaderLine_def fail_def split: if_splits option.splits)
  then show ?thesis
    using processHeader_ok [OF h(3) assms(2,3) refl field_line_clean [OF h(1)] h(2)]
      processHeader_frame [OF h(3) assms(2)]
    by (simp add: same_frame_def)
qed

lemma head_turn_inv:
  assumes "request_inv buf limits e p body" "phase p = ppReqLine \<or> phase p = ppHeaders"
  shows "turn_inv buf limits e (head_turn p buf e limits body)"
proof (cases "findByte buf (rp_pos p) e 10")
  case None
  then show ?thesis by (simp add: head_turn_def Let_def)
next
  case (Some nl)
  then have nl: "rp_pos p \<le> nl" "nl < e" using findByte_range by blast+
  consider (req) "phase p = ppReqLine" | (hdr) "phase p = ppHeaders" using assms(2) by blast
  then show ?thesis
  proof cases
    case req
    have "request_inv buf limits e (q\<lparr>rp_pos := nl + 1\<rparr>) body"
      if "parseReqLine p buf (nl - 1) = (r, q)" "r \<noteq> prError" for r q
      using parseReqLine_ok [OF that, of limits] assms(1) req nl by (simp add: request_inv_def at_phase_def)
    moreover have "request_inv buf limits e (p\<lparr>rp_pos := nl + 1, reqStart := nl + 1\<rparr>) body"
      using assms(1) req nl by (simp add: request_inv_def at_phase_def)
    ultimately show ?thesis using Some req
      by (auto simp: head_turn_def Let_def split: prod.splits ParseResult.splits)
  next
    case hdr
    have "request_inv buf limits e (q\<lparr>rp_pos := nl + 1\<rparr>) body"
      if "parseHeaderLine p buf (nl - 1) limits = (r, q)" "r \<noteq> prError" for r q
      using parseHeaderLine_ok [OF that] assms(1) hdr nl
      by (simp add: request_inv_def at_phase_def same_frame_def trailers_ok_def)
    moreover have "turn_inv buf limits e (head_done p nl limits body)" if "nl - reqStart p \<le> maxHeaderSize limits"
      using head_done_inv [OF assms(1) hdr nl(2,1) that] .
    ultimately show ?thesis using Some hdr
      by (auto simp: head_turn_def Let_def not_less split: prod.splits ParseResult.splits)
  qed
qed

lemma parse_turn_inv:
  assumes "request_inv buf limits e p body" "e < 2 ^ 63"
  shows "turn_inv buf limits e (parse_turn buf limits e p body)"
  using assms head_turn_inv [OF assms(1)] body_turn_inv [OF assms(1)] chunk_size_turn_inv [OF assms(1) _ assms(2)]
    chunk_data_turn_inv [OF assms(1)] chunk_crlf_turn_inv [OF assms(1)] trailer_turn_inv [OF assms(1)]
  unfolding parse_turn_def by (cases "phase p") simp_all

lemma parse_loop_inv:
  "parse_loop buf limits e p body = (prComplete, q, body') \<Longrightarrow> request_inv buf limits e p body \<Longrightarrow> e < 2 ^ 63 \<Longrightarrow>
   phase q = ppComplete \<and> request_inv buf limits e q body'"
proof (induction buf limits e p body rule: parse_loop.induct)
  case (1 buf limits e p body)
  show ?case
  proof (cases "parse_turn buf limits e p body")
    case (Go p' b)
    then show ?thesis
      using "1.IH" [OF Go] "1.prems" parse_turn_inv [OF "1.prems"(2,3)] by (simp add: parse_loop_Go [OF Go])
  next
    case (Stop r p' b)
    then show ?thesis
      using "1.prems" parse_turn_inv [OF "1.prems"(2,3)] by (simp add: parse_loop_Stop [OF Stop])
  qed
qed

end
