(* ===== verification/Http1_Request.thy ===== *)
theory Http1_Request
  imports Http1_Invariant
begin

text \<open>
  The request that the parser completes, and the chunk size that escapes the body limit.
\<close>

section \<open>A completed request\<close>

lemma feed_complete_last:
  "sorted es \<Longrightarrow> feed buf limits es p body = (prComplete, q, body') \<Longrightarrow>
   es \<noteq> [] \<and> parse p buf (last es) limits body = (prComplete, q, body')"
proof (induction es rule: rev_induct)
  case (snoc e es)
  show ?case
  proof (cases "fst (feed buf limits es p body) = prError")
    case True
    have "feed buf limits (es @ ds) p body = feed buf limits es p body"
      if "fst (feed buf limits es p body) = prError" for ds p body
      using that by (induction es arbitrary: p body) (auto split: prod.splits ParseResult.splits)
    from this [OF True] show ?thesis using snoc.prems True by simp
  next
    case False
    then show ?thesis using feed_last [OF snoc.prems(1) False] snoc.prems(2) by simp
  qed
qed simp

lemma reset_request_inv:
  assumes "sorted es" "start \<le> last es" "last es < 2 ^ 63"
    "feed buf limits es (reset p start) [] = (prComplete, q, body)"
  shows "phase q = ppComplete \<and> request_inv buf limits (last es) q body"
  using feed_complete_last [OF assms(1,4)] parse_loop_inv [OF _ request_inv_reset [OF assms(2)] assms(3)]
  unfolding parse_def by blast

text \<open>C10: A request that the HTTP/1 parser completes has exactly one framing, so that no two readers
  of the same bytes can disagree about where it ends. However the bytes arrived: there is at most
  one Host line, and one in every HTTP/1.1 request; of Content-Length and Transfer-Encoding there
  is at most one line in all; the body is chunked exactly when the Transfer-Encoding line is
  there, and its decoded length is then within the limit; otherwise the body is the slice right
  after the head whose length is the decimal value of the Content-Length line, all of its bytes
  digits, or nothing without that line, within the limit, and the request ends with it. The head,
  the number of header lines and the number of trailers are within their limits, names and values
  hold no forbidden byte, and no trailer carries a name that frames, routes or authenticates.
\<close>

theorem http1_one_framing:
  assumes "sorted es" and "start \<le> last es" and "last es < 2 ^ 63"
    and "feed buf limits es (reset p start) [] = (prComplete, q, body)"
  shows "named buf (rp_headers q) ''host'' \<le> 1 \<and> (minor q = 1 \<longrightarrow> named buf (rp_headers q) ''host'' = 1) \<and>
    named buf (rp_headers q) ''content-length'' + named buf (rp_headers q) ''transfer-encoding'' \<le> 1 \<and>
    (chunked q \<longleftrightarrow> named buf (rp_headers q) ''transfer-encoding'' = 1) \<and>
    (chunked q \<longrightarrow> length body \<le> maxBodySize limits) \<and>
    (\<not> chunked q \<longrightarrow> body = [] \<and> rp_trailers q = [] \<and> bodyLen q \<le> maxBodySize limits \<and>
       rp_pos q = bodyStart q + bodyLen q \<and>
       (if named buf (rp_headers q) ''content-length'' = 1 then
          \<exists>h \<in> set (rp_headers q). field_named buf h ''content-length'' \<and> list_all digitA (value_of buf h) \<and>
            value_of buf h \<noteq> [] \<and> int (bodyLen q) = decimal_from 0 (value_of buf h)
        else bodyLen q = 0)) \<and>
    rp_pos q \<le> last es \<and> bodyStart q \<le> reqStart q + maxHeaderSize limits + 1 \<and>
    length (rp_headers q) \<le> maxHeaderCount limits \<and> length (rp_trailers q) \<le> maxHeaderCount limits \<and>
    (\<forall>h \<in> set (rp_headers q). clean_field buf h) \<and> (\<forall>h \<in> set (rp_trailers q). trailer_ok buf h)"
proof -
  have inv: "phase q = ppComplete" "head_ok buf limits q" "trailers_ok buf limits q" "rp_pos q \<le> last es"
      "at_phase limits (last es) q body"
    using reset_request_inv [OF assms] by (auto simp: request_inv_def)
  have dec: "0 \<le> decimal_from 0 bs" for bs
    using decimal_from_ge [of 0 bs] by simp
  show ?thesis
  proof (cases "chunked q")
    case True
    then show ?thesis using inv by (auto simp: at_phase_def head_done_ok_def head_ok_def trailers_ok_def)
  next
    case False
    then have "plain_body limits q body" "rp_pos q = bodyStart q + bodyLen q" "head_done_ok limits q"
      using inv by (simp_all add: at_phase_def)
    then show ?thesis using False inv(2-4)
      by (auto simp: plain_body_def head_done_ok_def head_ok_def trailers_ok_def dec split: if_splits)
  qed
qed

text \<open>One request with a content length, in two arrivals.\<close>

definition request3 :: bytes where
  "request3 = lines [''POST /a HTTP/1.1'', ''Host: a'', ''Content-Length: 5'', []] @ bstr ''hello''"

theorem http1_one_framing_witness:
  "\<exists>q. feed request3 limits1 [20, length request3] (reset parser0 0) [] = (prComplete, q, []) \<and>
     bodyLen q = 5 \<and> named request3 (rp_headers q) ''content-length'' = 1 \<and>
     named request3 (rp_headers q) ''transfer-encoding'' = 0 \<and> rp_pos q = bodyStart q + 5"
proof -
  define r where "r = feed request3 limits1 [20, length request3] (reset parser0 0) []"
  define q where "q = fst (snd r)"
  have "fst r = prComplete \<and> snd (snd r) = []" unfolding r_def by code_simp
  then have q: "feed request3 limits1 [20, length request3] (reset parser0 0) [] = (prComplete, q, [])"
    unfolding q_def r_def by (metis prod.collapse)
  have e: "bodyLen q = 5 \<and> named request3 (rp_headers q) ''content-length'' = 1 \<and> \<not> chunked q"
    unfolding q_def r_def by code_simp
  have len: "length request3 = 53" by code_simp
  then have "sorted [20, length request3]" "0 \<le> last [20, length request3]" "last [20, length request3] < 2 ^ 63"
    by simp_all
  note one = http1_one_framing [OF this q]
  then have "named request3 (rp_headers q) ''transfer-encoding'' = 0 \<and> rp_pos q = bodyStart q + 5"
    using e by linarith
  then show ?thesis using q e by blast
qed

section \<open>The chunk size that wraps\<close>

definition wrap_line :: bytes where
  "wrap_line = lines [''7fffffffffffffff'']"

lemma wrap_line_value: "length wrap_line = 18 \<and> chunk_size_loop (take 16 wrap_line) 0 0 = Inr (int64_high, 16) \<and>
    wrap_line ! 16 = 13 \<and> findByte wrap_line 0 18 10 = Some 17"
  by code_simp

text \<open>C30: The body limit of a chunked request has one hole. After at least one byte of body, a chunk
  of the declared size \<open>7fffffffffffffff\<close>, the largest the digit loop lets through, makes the sum of
  the limit check wrap to a negative number when overflow checks are off, as in the build the
  README gives: the parser accepts the chunk whatever \<open>maxBodySize\<close> is and appends every byte that
  follows to the body.
\<close>

theorem http1_chunk_limit_wraps:
  assumes "phase p = ppChunkSize" and "rp_pos p = length pre" and "body \<noteq> []"
    and "length body < 2 ^ 63" and "length rest < 2 ^ 62"
  shows "\<exists>q. parse p (pre @ wrap_line @ rest) (length (pre @ wrap_line @ rest)) limits body =
    (prNeedMore, q, body @ rest)"
proof -
  let ?buf = "pre @ wrap_line @ rest"
  have w: "length wrap_line = 18" using wrap_line_value by simp
  have nl: "findByte ?buf (rp_pos p) (length ?buf) 10 = Some (length pre + 17)"
    using wrap_line_value assms(2) unfolding findByte_Some_iff
    by (auto simp: nth_append)
  have cs: "py_slice ?buf (rp_pos p) (length pre + 17 - 1) = take 16 wrap_line"
    using w assms(2) by (simp add: py_slice_def)
  have cr: "?buf ! (length pre + 17 - 1) = 13" using wrap_line_value w by (simp add: nth_append)
  have "(int (length body) + int64_high + 2 ^ 63) mod 2 ^ 64 = int (length body) - 1"
    using mod_add_self2 [of "int (length body) - 1" "2 ^ 64"] assms(3,4)
    by (cases body) (simp_all add: int64_high_def)
  then have neg: "int64 (int (length body) + int64_high) < 0" using assms(4) by (simp add: int64_def)
  define p1 where "p1 = p\<lparr>rp_pos := length pre + 17 + 1, chunkRemaining := int64_high, phase := ppChunkData\<rparr>"
  have "parse_turn ?buf limits (length ?buf) p body = Go p1 body"
    using neg assms(1,2) wrap_line_value unfolding parse_turn_def chunk_size_turn_def nl option.case cs
    using cr by (simp add: p1_def int64_high_def add.commute)
  moreover have "\<exists>q. parse_turn ?buf limits (length ?buf) p1 body = Stop prNeedMore q (body @ rest)"
    using w assms(5) by (auto simp: parse_turn_def p1_def chunk_data_turn_def int64_high_def Let_def)
  ultimately show ?thesis by (auto simp: parse_def parse_loop_Go parse_loop_Stop)
qed

definition request4 :: bytes where
  "request4 = lines [''POST / HTTP/1.1'', ''Host: a'', ''Transfer-Encoding: chunked'', [], ''1'', ''a'']"

definition limits4 :: ParserLimits where
  "limits4 = \<lparr>maxHeaderSize = 64, maxHeaderCount = 8, maxBodySize = 4\<rparr>"

theorem http1_chunk_limit_wraps_witness:
  "let r = parse (reset parser0 0) request4 (length request4) limits4 [] in
   fst r = prNeedMore \<and> snd (snd r) = bstr ''a'' \<and>
   (\<exists>q. parse (fst (snd r)) (request4 @ wrap_line @ replicate 100 65)
      (length (request4 @ wrap_line @ replicate 100 65)) limits4 (bstr ''a'') =
      (prNeedMore, q, bstr ''a'' @ replicate 100 65))"
proof -
  define r where "r = parse (reset parser0 0) request4 (length request4) limits4 []"
  have r: "fst r = prNeedMore \<and> snd (snd r) = bstr ''a''" unfolding r_def by code_simp
  have p: "phase (fst (snd r)) = ppChunkSize" "rp_pos (fst (snd r)) = length request4"
    unfolding r_def by code_simp+
  have "bstr ''a'' \<noteq> []" "length (bstr ''a'') < 2 ^ 63" "length (replicate 100 (65 :: byte)) < 2 ^ 62" by simp_all
  from http1_chunk_limit_wraps [OF p this, of limits4] show ?thesis
    using r unfolding r_def [symmetric] Let_def by blast
qed

end
