(* ===== verification/Http1_Date.thy ===== *)
theory Http1_Date
  imports Nim_Prelude "HOL-Library.Signed_Division"
begin

text \<open>
  The Date header: \<open>httpDate\<close> of \<open>http1/codec.nim\<close>, and that its arithmetic is the Gregorian
  calendar. \<open>div\<close> and \<open>mod\<close> of Nim truncate, as \<open>sdiv\<close> and \<open>smod\<close> do; no step can leave the range
  of \<open>int64\<close>, so the model computes with integers.
\<close>

definition weekdayNames :: "string list" where
  "weekdayNames = [''Sun'', ''Mon'', ''Tue'', ''Wed'', ''Thu'', ''Fri'', ''Sat'']"

definition monthNames :: "string list" where
  "monthNames = [''Jan'', ''Feb'', ''Mar'', ''Apr'', ''May'', ''Jun'',
     ''Jul'', ''Aug'', ''Sep'', ''Oct'', ''Nov'', ''Dec'']"

definition add2 :: "bytes \<Rightarrow> int \<Rightarrow> bytes" where
  "add2 s v = s @ [of_int (48 + v sdiv 10)] @ [of_int (48 + v smod 10)]"

definition split_days :: "int \<Rightarrow> int \<times> int" where
  "split_days unixSec =
     (let days = unixSec sdiv 86400; rem = unixSec smod 86400 in
      if rem < 0 then (days - 1, rem + 86400) else (days, rem))"

type_synonym date = "int \<times> int \<times> int"

definition civil :: "int \<Rightarrow> date" where
  "civil days =
     (let z = days + 719468;
          era = (if 0 \<le> z then z else z - 146096) sdiv 146097;
          doe = z - era * 146097;
          yoe = (doe - doe sdiv 1460 + doe sdiv 36524 - doe sdiv 146096) sdiv 365;
          y = yoe + era * 400;
          doy = doe - (365 * yoe + yoe sdiv 4 - yoe sdiv 100);
          mp = (5 * doy + 2) sdiv 153;
          d = doy - (153 * mp + 2) sdiv 5 + 1;
          m = (if mp < 10 then mp + 3 else mp - 9);
          year = (if m \<le> 2 then y + 1 else y) in
      (year, m, d))"

definition httpDate :: "int \<Rightarrow> bytes" where
  "httpDate unixSec =
     (case split_days unixSec of (days, rem) \<Rightarrow>
      case civil days of (year, m, d) \<Rightarrow>
        let weekday = ((days + 4) smod 7 + 7) smod 7;
            r = bstr (weekdayNames ! nat weekday);
            r = r @ bstr '', '';
            r = add2 r d;
            r = r @ bstr '' '';
            r = r @ bstr (monthNames ! nat (m - 1));
            r = r @ bstr '' '';
            r = add2 r (year sdiv 100);
            r = add2 r (year smod 100);
            r = r @ bstr '' '';
            r = add2 r (rem sdiv 3600);
            r = r @ bstr '':'';
            r = add2 r ((rem smod 3600) sdiv 60);
            r = r @ bstr '':'';
            r = add2 r (rem smod 60) in
        r @ bstr '' GMT'')"

section \<open>The calendar\<close>

definition leap :: "int \<Rightarrow> bool" where
  "leap y \<longleftrightarrow> 4 dvd y \<and> (100 dvd y \<longrightarrow> 400 dvd y)"

definition month_length :: "bool \<Rightarrow> int \<Rightarrow> int" where
  "month_length lp m = (if m = 2 then (if lp then 29 else 28) else if m \<in> {4, 6, 9, 11} then 30 else 31)"

fun next_day :: "date \<Rightarrow> date" where
  "next_day (y, m, d) =
     (if d < month_length (leap y) m then (y, m, d + 1)
      else if m < 12 then (y, m + 1, 1)
      else (y + 1, 1, 1))"

primrec calendar :: "nat \<Rightarrow> date" where
  "calendar 0 = (1970, 1, 1)"
| "calendar (Suc n) = next_day (calendar n)"

section \<open>Years\<close>

lemma sdiv_nonneg [simp]: "0 \<le> a \<Longrightarrow> 0 < b \<Longrightarrow> (a :: int) sdiv b = a div b"
  "0 \<le> a \<Longrightarrow> 0 < b \<Longrightarrow> (a :: int) smod b = a mod b"
  by (cases "a = 0"; simp add: signed_divide_int_def signed_modulo_int_def minus_div_mult_eq_mod sgn_if)+

definition doe_year :: "int \<Rightarrow> int" where
  "doe_year doe = (doe - doe div 1460 + doe div 36524 - doe div 146096) div 365"

definition year_start :: "int \<Rightarrow> int" where
  "year_start y = 365 * y + y div 4 - y div 100"

definition year_last :: "int \<Rightarrow> int" where
  "year_last y = (if y = 399 then 146096 else year_start (y + 1) - 1)"

lemma doe_year_step:
  assumes "0 \<le> d" "d < 146096"
  shows "doe_year d \<le> doe_year (d + 1)"
proof (cases "d = 146095")
  case False
  then have "d div 146096 = 0" "(d + 1) div 146096 = 0" using assms by simp_all
  moreover have "(d + 1) div 1460 \<le> d div 1460 + 1" by linarith
  moreover have "d div 36524 \<le> (d + 1) div 36524" by (rule zdiv_mono1) simp_all
  ultimately show ?thesis unfolding doe_year_def by (intro zdiv_mono1) linarith+
qed (simp add: doe_year_def)

lemma doe_year_mono:
  assumes "0 \<le> a" "a \<le> b" "b \<le> 146096"
  shows "doe_year a \<le> doe_year b"
  using assms(2,3)
proof (induction b rule: int_ge_induct)
  case (step i)
  then show ?case using doe_year_step [of i] assms(1) by linarith
qed simp

lemma year_table:
  assumes "0 \<le> y" "y \<le> 399"
  shows "doe_year (year_start y) = y" "doe_year (year_last y) = y"
    "year_last y = year_start y + (if leap (y + 1) then 365 else 364)"
proof -
  have "list_all (\<lambda>y. doe_year (year_start y) = y \<and> doe_year (year_last y) = y \<and>
      year_last y = year_start y + (if leap (y + 1) then 365 else 364)) [0..399]"
    by code_simp
  moreover have "y \<in> set [0..399]" using assms by simp
  ultimately show "doe_year (year_start y) = y" "doe_year (year_last y) = y"
      "year_last y = year_start y + (if leap (y + 1) then 365 else 364)"
    unfolding list_all_iff by blast+
qed

lemma year_bounds: "0 \<le> y \<Longrightarrow> y \<le> 399 \<Longrightarrow> 0 \<le> year_start y \<and> year_last y \<le> 146096"
  by (auto simp: year_start_def year_last_def)

text \<open>The year of an era is the one whose days the day of the era lies among.\<close>

lemma doe_year_spec:
  assumes "0 \<le> doe" "doe \<le> 146096"
  shows "0 \<le> doe_year doe" "doe_year doe \<le> 399" "year_start (doe_year doe) \<le> doe" "doe \<le> year_last (doe_year doe)"
proof -
  let ?y = "doe_year doe"
  have "doe_year 0 \<le> ?y" "?y \<le> doe_year 146096" using assms by (auto intro!: doe_year_mono)
  then show y: "0 \<le> ?y" "?y \<le> 399" by (simp_all add: doe_year_def)
  show "year_start ?y \<le> doe"
  proof (rule ccontr)
    assume "\<not> year_start ?y \<le> doe"
    moreover from this have "?y \<noteq> 0" using assms by (auto simp: year_start_def)
    ultimately have "doe \<le> year_last (?y - 1)" "0 \<le> ?y - 1" "?y - 1 \<le> 399" using y by (auto simp: year_last_def)
    then have "?y \<le> ?y - 1"
      using doe_year_mono [OF assms(1), of "year_last (?y - 1)"] year_table(2) [of "?y - 1"] year_bounds [of "?y - 1"] by simp
    then show False by simp
  qed
  show "doe \<le> year_last ?y"
  proof (rule ccontr)
    assume "\<not> doe \<le> year_last ?y"
    then have "year_start (?y + 1) \<le> doe" "?y + 1 \<le> 399" using y assms by (auto simp: year_last_def split: if_splits)
    then have "?y + 1 \<le> ?y"
      using doe_year_mono [of "year_start (?y + 1)" doe] year_table(1) [of "?y + 1"] year_bounds [of "?y + 1"] y assms by simp
    then show False by simp
  qed
qed

section \<open>Months\<close>

text \<open>The day of a year that starts in March: the year it belongs to, the month and the day.\<close>

definition month_day :: "int \<Rightarrow> date" where
  "month_day doy =
     (let mp = (5 * doy + 2) div 153; m = (if mp < 10 then mp + 3 else mp - 9) in
      (if m \<le> 2 then 1 else 0, m, doy - (153 * mp + 2) div 5 + 1))"

fun next_month_day :: "bool \<Rightarrow> date \<Rightarrow> date" where
  "next_month_day lp (i, m, d) =
     (if d < month_length lp m then (i, m, d + 1)
      else if m < 12 then (i, m + 1, 1)
      else (i + 1, 1, 1))"

fun plus_year :: "int \<Rightarrow> date \<Rightarrow> date" where
  "plus_year y (i, m, d) = (y + i, m, d)"

lemma month_table:
  assumes "0 \<le> doy" "doy < (if lp then 365 else 364)"
  shows "next_month_day lp (month_day doy) = month_day (doy + 1)"
    "fst (month_day doy) \<noteq> 1 \<Longrightarrow> fst (snd (month_day doy)) \<noteq> 2"
proof -
  have "list_all (\<lambda>doy. next_month_day True (month_day doy) = month_day (doy + 1) \<and>
      (fst (month_day doy) = 1 \<or> fst (snd (month_day doy)) \<noteq> 2) \<and>
      (doy < 364 \<longrightarrow> next_month_day False (month_day doy) = month_day (doy + 1))) [0..364]"
    by code_simp
  moreover have "doy \<in> set [0..364]" using assms by (simp split: if_splits)
  ultimately show "next_month_day lp (month_day doy) = month_day (doy + 1)"
    "fst (month_day doy) \<noteq> 1 \<Longrightarrow> fst (snd (month_day doy)) \<noteq> 2"
    using assms unfolding list_all_iff by (cases lp; auto)+
qed

lemma next_day_plus_year:
  "(fst md \<noteq> 1 \<Longrightarrow> fst (snd md) \<noteq> 2) \<Longrightarrow>
   next_day (plus_year y md) = plus_year y (next_month_day (leap (y + 1)) md)"
  by (cases md) (auto simp: month_length_def)

lemma month_table_last: "next_month_day lp (month_day (if lp then 365 else 364)) = (1, 3, 1)" "month_day 0 = (0, 3, 1)"
    "fst (month_day (if lp then 365 else 364)) = 1"
  by (cases lp; simp add: month_day_def month_length_def)+

section \<open>The source computes the calendar\<close>

lemma next_divmod:
  assumes "0 < (n :: int)"
  shows "z mod n + 1 < n \<Longrightarrow> (z + 1) mod n = z mod n + 1 \<and> (z + 1) div n = z div n"
    "z mod n + 1 = n \<Longrightarrow> (z + 1) mod n = 0 \<and> (z + 1) div n = z div n + 1"
proof -
  have z: "z = n * (z div n) + z mod n" by simp
  show "(z + 1) mod n = z mod n + 1 \<and> (z + 1) div n = z div n" if "z mod n + 1 < n"
  proof -
    have e: "z + 1 = n * (z div n) + (z mod n + 1)" "0 \<le> z mod n + 1" using z assms by simp_all
    show ?thesis using int_div_pos_eq [OF e that] int_mod_pos_eq [OF e that] by simp
  qed
  show "(z + 1) mod n = 0 \<and> (z + 1) div n = z div n + 1" if "z mod n + 1 = n"
  proof -
    have e: "z + 1 = n * (z div n + 1) + 0" using z that unfolding distrib_left by linarith
    show ?thesis using int_div_pos_eq [OF e _ assms] int_mod_pos_eq [OF e _ assms] by simp
  qed
qed

lemma era_floor: "(if 0 \<le> z then z else z - 146096) sdiv 146097 = z div (146097 :: int)"
proof (cases "0 \<le> z")
  case False
  have "(z - 146096) sdiv 146097 = - ((146096 - z) div 146097)"
    using False by (simp add: signed_divide_int_def sgn_if)
  also have "(146096 - z) div 146097 = - (z div 146097)"
    by (rule int_div_pos_eq [where r = "146096 - z mod 146097"]) (simp_all add: minus_mod_eq_mult_div [symmetric])
  finally show ?thesis using False by simp
qed simp

lemma civil_era:
  assumes "z = days + 719468" "doe = z mod 146097" "yoe = doe_year doe"
  shows "civil days = plus_year (yoe + z div 146097 * 400) (month_day (doe - year_start yoe))"
proof -
  have doe: "0 \<le> doe" "doe \<le> 146096" "z - z div 146097 * 146097 = doe"
    using assms(2) by (simp_all add: minus_div_mult_eq_mod pos_mod_bound [of 146097 z, simplified zless_imp_add1_zle])
  note y = doe_year_spec [OF doe(1,2)]
  have "0 \<le> doe - doe div 1460 + doe div 36524 - doe div 146096"
    using zdiv_mono2 [of doe 36524 146096] zdiv_mono2 [of doe 1 1460] doe by simp
  then have yoe: "(doe - doe sdiv 1460 + doe sdiv 36524 - doe sdiv 146096) sdiv 365 = yoe"
    using doe assms(3) by (simp add: doe_year_def)
  have start: "365 * yoe + yoe sdiv 4 - yoe sdiv 100 = year_start yoe" using y(1) assms(3) by (simp add: year_start_def)
  define doy where "doy = doe - year_start yoe"
  have "0 \<le> doy" using y(3) assms(3) by (simp add: doy_def)
  then have mp: "(5 * doy + 2) sdiv 153 = (5 * doy + 2) div 153" "0 \<le> (5 * doy + 2) div 153" by simp_all
  show ?thesis
    unfolding civil_def Let_def assms(1) [symmetric] era_floor doe(3) yoe start doy_def [symmetric] mp(1)
    using mp(2) by (auto simp: month_day_def Let_def)
qed

lemma leap_era: "leap (y + e * 400) = leap y"
proof -
  have "4 dvd e * 400" "100 dvd e * 400" "400 dvd e * 400" by simp_all
  then show ?thesis unfolding leap_def by (simp add: dvd_add_left_iff)
qed

lemma doe_year_unique:
  assumes "0 \<le> y" "y \<le> 399" "year_start y \<le> doe" "doe \<le> year_last y"
  shows "doe_year doe = y"
  using doe_year_mono [of "year_start y" doe] doe_year_mono [of doe "year_last y"] year_table(1,2) [OF assms(1,2)]
    year_bounds [OF assms(1,2)] assms(3,4) by linarith

lemma civil_next: "civil (days + 1) = next_day (civil days)"
proof -
  define z where "z = days + 719468"
  define doe where "doe = z mod 146097"
  define yoe where "yoe = doe_year doe"
  define doy where "doy = doe - year_start yoe"
  define y400 where "y400 = yoe + z div 146097 * 400"
  have doe: "0 \<le> doe" "doe \<le> 146096" using pos_mod_bound [of 146097 z] by (simp_all add: doe_def)
  note y = doe_year_spec [OF doe, folded yoe_def]
  have lp: "leap (y400 + 1) = leap (yoe + 1)"
    using leap_era [of "yoe + 1" "z div 146097"] by (simp add: y400_def algebra_simps)
  have now: "civil days = plus_year y400 (month_day doy)"
    using civil_era [OF z_def doe_def yoe_def] by (simp add: doy_def y400_def)
  have lst: "year_last yoe = year_start yoe + (if leap (yoe + 1) then 365 else 364)" by (rule year_table(3) [OF y(1,2)])
  have z1: "z + 1 = (days + 1) + 719468" by (simp add: z_def)
  show ?thesis
  proof (cases "doe = year_last yoe")
    case False
    then have d: "doe < year_last yoe" "doe + 1 \<le> 146096" using y doe year_bounds [OF y(1,2)] by linarith+
    then have m: "doe + 1 = (z + 1) mod 146097" "(z + 1) div 146097 = z div 146097"
      using next_divmod(1) [of 146097 z] by (simp_all add: doe_def)
    have "yoe = doe_year (doe + 1)" using d y by (intro doe_year_unique [symmetric]) auto
    from civil_era [OF z1 m(1) this] have "civil (days + 1) = plus_year y400 (month_day (doy + 1))"
      by (simp add: m(2) y400_def doy_def diff_add_eq)
    moreover have "0 \<le> doy" "doy < (if leap (yoe + 1) then 365 else 364)" using d y(3) lst by (auto simp: doy_def)
    ultimately show ?thesis
      using month_table [of doy "leap (yoe + 1)"] unfolding now by (subst next_day_plus_year) (auto simp: lp)
  next
    case True
    then have doy: "doy = (if leap (yoe + 1) then 365 else 364)" using lst by (simp add: doy_def)
    have "next_day (civil days) = plus_year y400 (1, 3, 1)"
      unfolding now doy using month_table_last(1,3) [of "leap (yoe + 1)"] by (subst next_day_plus_year) (simp_all add: lp)
    moreover have "civil (days + 1) = plus_year (y400 + 1) (0, 3, 1)"
    proof (cases "yoe = 399")
      case y399: True
      then have "0 = (z + 1) mod 146097" "(z + 1) div 146097 = z div 146097 + 1"
        using True next_divmod(2) [of 146097 z] by (simp_all add: doe_def year_last_def)
      then show ?thesis using civil_era [OF z1 _ refl, of 0] y399
        by (simp add: y400_def doe_year_def year_start_def month_table_last(2))
    next
      case False
      then have e: "doe + 1 = year_start (yoe + 1)" "yoe + 1 \<le> 399" using True y by (auto simp: year_last_def)
      then have "doe + 1 \<le> 146096" using year_bounds [of "yoe + 1"] year_table(3) [of "yoe + 1"] y(1) by (auto split: if_splits)
      then have m: "doe + 1 = (z + 1) mod 146097" "(z + 1) div 146097 = z div 146097"
        using next_divmod(1) [of 146097 z] by (simp_all add: doe_def)
      have "yoe + 1 = doe_year (doe + 1)" using e y(1) year_table(1) [of "yoe + 1"] by simp
      from civil_era [OF z1 m(1) this] show ?thesis using e by (simp add: m(2) y400_def month_table_last(2))
    qed
    ultimately show ?thesis by simp
  qed
qed

lemma civil_calendar: "civil (int n) = calendar n"
proof (induction n)
  case 0
  show ?case by code_simp
next
  case (Suc n)
  then show ?case using civil_next [of "int n"] by (simp add: add.commute)
qed

section \<open>The text\<close>

lemma split_days_eq: "split_days (int s) = (int (s div 86400), int (s mod 86400))"
  by (simp add: split_days_def Let_def zdiv_int zmod_int)

lemma sdiv_nat: "int a sdiv numeral k = int (a div numeral k)" "int a smod numeral k = int (a mod numeral k)"
  by (simp_all add: zdiv_int zmod_int)

text \<open>Two decimal digits.\<close>

definition pad2 :: "nat \<Rightarrow> bytes" where
  "pad2 n = (if n < 10 then [48] else []) @ map of_nat (dec n)"

lemma add2_pad: "v < 100 \<Longrightarrow> add2 s (int v) = s @ pad2 v"
proof -
  assume "v < 100"
  moreover have "list_all (\<lambda>v. add2 [] (int v) = pad2 v) [0..<100]" by code_simp
  ultimately have "add2 [] (int v) = pad2 v" unfolding list_all_iff set_upt by auto
  then show ?thesis by (simp add: add2_def)
qed

lemma pad2_digits: "n < 100 \<Longrightarrow> pad2 n = [of_nat (48 + n div 10), of_nat (48 + n mod 10)]"
proof -
  assume n: "n < 100"
  then have "n div 10 < 10" by (simp add: less_mult_imp_div_less)
  then show ?thesis by (auto simp: pad2_def dec.simps [of n] dec.simps [of "n div 10"])
qed

lemma year_digits:
  assumes "1000 \<le> y" "y \<le> 9999"
  shows "pad2 (y div 100) @ pad2 (y mod 100) = map of_nat (dec y)"
proof -
  have "\<not> y div 100 < 10" "y div 100 < 100" "\<not> y < 10" "\<not> y div 10 < 10" "y mod 100 < 100"
    using assms by simp_all
  moreover from this have "dec y = dec (y div 100) @ [48 + y div 10 mod 10, 48 + y mod 10]"
    by (subst dec.simps, subst dec.simps [of "y div 10"]) (simp add: div_mult2_eq [symmetric])
  moreover have "y mod 100 div 10 = y div 10 mod 10" "y mod 100 mod 10 = y mod 10"
    using mod_mult2_eq [of y 10 10] by (simp_all add: mod_mod_cancel)
  ultimately show ?thesis by (simp add: pad2_digits [of "y mod 100"]) (simp add: pad2_def)
qed

lemma calendar_valid:
  "calendar n = (y, m, d) \<Longrightarrow> 1970 \<le> y \<and> 1 \<le> m \<and> m \<le> 12 \<and> 1 \<le> d \<and> d \<le> month_length (leap y) m"
proof (induction n arbitrary: y m d)
  case (Suc n)
  obtain y' m' d' where c: "calendar n = (y', m', d')" by (metis prod_cases3)
  have "1 \<le> month_length b k" for b k by (simp add: month_length_def)
  then show ?case using Suc.IH [OF c] Suc.prems c by (auto split: if_splits)
qed (auto simp: month_length_def)

lemma calendar_year_mono: "a \<le> b \<Longrightarrow> fst (calendar a) \<le> fst (calendar b)"
proof (rule lift_Suc_mono_le [of "\<lambda>n. fst (calendar n)"])
  show "fst (calendar n) \<le> fst (calendar (Suc n))" for n by (cases "calendar n") auto
qed

lemma calendar_last: "calendar 2932896 = (9999, 12, 31)"
proof -
  have "civil 2932896 = (9999, 12, 31)" by code_simp
  moreover have "civil 2932896 = calendar 2932896" using civil_calendar [of 2932896] by (simp only: of_nat_numeral)
  ultimately show ?thesis by (simp only:)
qed

text \<open>C14: The Date header tells the time. For every time from 1970 to the end of 9999, \<open>httpDate\<close>
  prints the day that counting the days of the Gregorian calendar from 1 January 1970 gives,
  with its leap years, together with the weekday and the time of day, every number with its
  fixed number of digits.
\<close>

theorem http_date_is_gregorian:
  assumes "s < 253402300800"
  shows "\<exists>y m d. calendar (s div 86400) = (int y, int m, int d) \<and>
    httpDate (int s) =
      bstr (weekdayNames ! ((s div 86400 + 4) mod 7)) @ bstr '', '' @ pad2 d @ bstr '' '' @
      bstr (monthNames ! (m - 1)) @ bstr '' '' @ map of_nat (dec y) @ bstr '' '' @
      pad2 (s mod 86400 div 3600) @ bstr '':'' @ pad2 (s mod 3600 div 60) @ bstr '':'' @ pad2 (s mod 60) @ bstr '' GMT''"
proof -
  let ?n = "s div 86400"
  obtain y m d where c: "calendar ?n = (y, m, d)" by (metis prod_cases3)
  have "?n \<le> 2932896" using assms by simp
  then have top: "y \<le> 9999" using calendar_year_mono [of ?n 2932896] c calendar_last by simp
  note v = calendar_valid [OF c]
  have "month_length (leap y) m \<le> 31" by (simp add: month_length_def)
  with v have small: "d < 100" by linarith
  define y' m' d' where "y' = nat y" and "m' = nat m" and "d' = nat d"
  have i: "y = int y'" "m = int m'" "d = int d'" "nat (m - 1) = m' - 1" using v by (simp_all add: y'_def m'_def d'_def)
  have wd: "nat (((int ?n + 4) smod 7 + 7) smod 7) = (?n + 4) mod 7"
    by (simp add: nat_mod_distrib nat_add_distrib)
  have "httpDate (int s) =
      bstr (weekdayNames ! ((?n + 4) mod 7)) @ bstr '', '' @ pad2 d' @ bstr '' '' @
      bstr (monthNames ! (m' - 1)) @ bstr '' '' @ map of_nat (dec y') @ bstr '' '' @
      pad2 (s mod 86400 div 3600) @ bstr '':'' @ pad2 (s mod 3600 div 60) @ bstr '':'' @ pad2 (s mod 60) @ bstr '' GMT''"
    unfolding httpDate_def split_days_eq prod.case civil_calendar c Let_def wd i(4)
    unfolding i(1,3) sdiv_nat
    using v top small i by (simp add: add2_pad year_digits mod_mod_cancel less_mult_imp_div_less)
  then show ?thesis using c i by blast
qed

theorem http_date_is_gregorian_witness:
  "(5097601 :: nat) < 253402300800 \<and> calendar (5097601 div 86400) = (1970, 3, 1) \<and>
   httpDate 5097601 = bstr ''Sun, 01 Mar 1970 00:00:01 GMT''"
proof -
  have c: "calendar 59 = (1970, 3, 1)" by code_simp
  obtain y m d where a: "calendar (5097601 div 86400) = (int y, int m, int d)"
    "httpDate (int 5097601) =
      bstr (weekdayNames ! ((5097601 div 86400 + 4) mod 7)) @ bstr '', '' @ pad2 d @ bstr '' '' @
      bstr (monthNames ! (m - 1)) @ bstr '' '' @ map of_nat (dec y) @ bstr '' '' @
      pad2 (5097601 mod 86400 div 3600) @ bstr '':'' @ pad2 (5097601 mod 3600 div 60) @ bstr '':'' @
      pad2 (5097601 mod 60) @ bstr '' GMT''"
    using http_date_is_gregorian [of 5097601] by auto
  then have "y = 1970" "m = 3" "d = 1" using c by simp_all
  then show ?thesis using a c by (simp add: weekdayNames_def monthNames_def pad2_def dec.simps bstr_def)
qed

end
