(* ===== verification/Http1_Codec.thy ===== *)
theory Http1_Codec
  imports Http1_Request H2_Headers Http1_Date
begin

text \<open>
  The serializer of HTTP/1.1 responses, \<open>src/vortex/http1/codec.nim\<close> (its \<open>httpDate\<close> is in
  \<open>Http1_Date\<close>): buffered responses, the head of a streamed response and its chunks. The
  text that \<open>std/httpcore\<close> has for a status code is the argument \<open>status_text\<close>.
\<close>

section \<open>The writers\<close>

definition crlf :: bytes where
  "crlf = [13, 10]"

definition breaks_line :: "byte \<Rightarrow> bool" where
  "breaks_line ch \<longleftrightarrow> ch = 13 \<or> ch = 10"

definition addField :: "bytes \<Rightarrow> bytes \<Rightarrow> bytes" where
  "addField wbuf s =
     (if list_all (\<lambda>ch. \<not> breaks_line ch) s then wbuf @ s
      else wbuf @ filter (\<lambda>ch. \<not> breaks_line ch) s)"

definition connSpecificField :: "bytes \<Rightarrow> bool" where
  "connSpecificField name \<longleftrightarrow>
     isForbiddenResponseField name False \<or> eqIgnoreAsciiCase name (bstr ''content-length'')"

definition addInt :: "bytes \<Rightarrow> nat \<Rightarrow> bytes" where
  "addInt wbuf n = wbuf @ map of_nat (dec n)"

definition add_status :: "(nat \<Rightarrow> bytes) \<Rightarrow> bytes \<Rightarrow> nat \<Rightarrow> bytes" where
  "add_status status_text wbuf code =
     (if 100 \<le> code \<and> code \<le> 599 then wbuf @ (bstr ''HTTP/1.1 '' @ status_text code @ crlf)
      else addInt (wbuf @ bstr ''HTTP/1.1 '') code @ crlf)"

text \<open>One raw field line, and one line of a handler.\<close>

definition add_line :: "bytes \<Rightarrow> string \<Rightarrow> bytes \<Rightarrow> bytes" where
  "add_line wbuf name val = wbuf @ bstr name @ bstr '': '' @ val @ crlf"

definition add_field_line :: "bytes \<Rightarrow> field \<Rightarrow> bytes" where
  "add_field_line wbuf f = addField (addField wbuf (fst f) @ bstr '': '') (snd f) @ crlf"

fun add_extra :: "bytes \<Rightarrow> field list \<Rightarrow> bytes" where
  "add_extra wbuf [] = wbuf"
| "add_extra wbuf (f # fs) =
     (if connSpecificField (fst f) then add_extra wbuf fs else add_extra (add_field_line wbuf f) fs)"

fun add_sec :: "field list \<Rightarrow> bytes \<Rightarrow> field list \<Rightarrow> bytes" where
  "add_sec extra wbuf [] = wbuf"
| "add_sec extra wbuf (f # fs) =
     (if connSpecificField (fst f) then add_sec extra wbuf fs
      else if list_ex (\<lambda>h. same_name (fst h) (fst f)) extra then add_sec extra wbuf fs
      else add_sec extra (add_field_line wbuf f) fs)"

record h1_response =
  h1_code :: nat
  h1_dateStr :: bytes
  h1_serverHeader :: bytes
  h1_contentType :: bytes
  h1_body :: bytes
  h1_extraHeaders :: "field list"
  h1_keepAlive :: bool
  h1_skipBody :: bool
  h1_announceKeepAlive :: bool
  h1_altSvc :: bytes
  h1_secHeaders :: "field list"

definition appendResponse :: "(nat \<Rightarrow> bytes) \<Rightarrow> bytes \<Rightarrow> h1_response \<Rightarrow> bytes" where
  "appendResponse status_text wbuf r =
     (let bodiless = bodilessStatus (h1_code r);
          w = add_status status_text wbuf (h1_code r);
          w = (if 0 < length (h1_serverHeader r) then add_line w ''Server'' (h1_serverHeader r) else w);
          w = add_line w ''Date'' (h1_dateStr r);
          w = (if 0 < length (h1_contentType r) \<and> \<not> bodiless
               then addField (w @ bstr ''Content-Type: '') (h1_contentType r) @ crlf else w);
          w = (if \<not> bodiless then addInt (w @ bstr ''Content-Length: '') (length (h1_body r)) @ crlf else w);
          w = (if \<not> h1_keepAlive r then w @ bstr ''Connection: close'' @ crlf
               else if h1_announceKeepAlive r then w @ bstr ''Connection: keep-alive'' @ crlf else w);
          w = (if 0 < length (h1_altSvc r) then add_line w ''Alt-Svc'' (h1_altSvc r) else w);
          w = add_extra w (h1_extraHeaders r);
          w = add_sec (h1_extraHeaders r) w (h1_secHeaders r);
          w = w @ crlf in
      if 0 < length (h1_body r) \<and> \<not> h1_skipBody r \<and> \<not> bodiless then w @ h1_body r else w)"

definition continue100 :: bytes where
  "continue100 = bstr ''HTTP/1.1 100 Continue'' @ crlf @ crlf"

text \<open>The digits of \<open>addHex\<close>, the last one first, as the array of the source has them.\<close>

definition hex_digits :: bytes where
  "hex_digits = bstr ''0123456789abcdef''"

function hex_loop :: "nat \<Rightarrow> bytes" where
  "hex_loop n = (if 0 < n then hex_digits ! (n AND 0xf) # hex_loop (drop_bit 4 n) else [])"
  by pat_completeness auto
termination
  by (relation "measure id") (auto simp: drop_bit_eq_div)

declare hex_loop.simps [simp del]

definition addHex :: "bytes \<Rightarrow> nat \<Rightarrow> bytes" where
  "addHex s v = (if v = 0 then s @ bstr ''0'' else s @ rev (hex_loop v))"

record h1_stream_head =
  sh_code :: nat
  sh_dateStr :: bytes
  sh_serverHeader :: bytes
  sh_contentType :: bytes
  sh_extraHeaders :: "field list"
  sh_chunked :: bool
  sh_keepAlive :: bool
  sh_announceKeepAlive :: bool
  sh_altSvc :: bytes
  sh_contentLength :: int

definition appendStreamHead :: "(nat \<Rightarrow> bytes) \<Rightarrow> bytes \<Rightarrow> h1_stream_head \<Rightarrow> bytes" where
  "appendStreamHead status_text wbuf r =
     (let w = add_status status_text wbuf (sh_code r);
          w = (if 0 < length (sh_serverHeader r) then add_line w ''Server'' (sh_serverHeader r) else w);
          w = add_line w ''Date'' (sh_dateStr r);
          w = (if 0 < length (sh_contentType r)
               then addField (w @ bstr ''Content-Type: '') (sh_contentType r) @ crlf else w);
          w = (if sh_chunked r then w @ bstr ''Transfer-Encoding: chunked'' @ crlf
               else if 0 \<le> sh_contentLength r
               then addInt (w @ bstr ''Content-Length: '') (nat (sh_contentLength r)) @ crlf else w);
          lengthDelimited = (sh_chunked r \<or> 0 \<le> sh_contentLength r);
          w = (if \<not> sh_keepAlive r \<or> \<not> lengthDelimited then w @ bstr ''Connection: close'' @ crlf
               else if sh_announceKeepAlive r then w @ bstr ''Connection: keep-alive'' @ crlf else w);
          w = (if 0 < length (sh_altSvc r) then add_line w ''Alt-Svc'' (sh_altSvc r) else w);
          w = add_extra w (sh_extraHeaders r) in
      w @ crlf)"

definition appendChunk :: "bytes \<Rightarrow> bytes \<Rightarrow> bytes" where
  "appendChunk wbuf data =
     (if length data = 0 then wbuf else addHex wbuf (length data) @ crlf @ data @ crlf)"

fun add_trailers :: "bytes \<Rightarrow> field list \<Rightarrow> bytes" where
  "add_trailers wbuf [] = wbuf"
| "add_trailers wbuf (f # fs) =
     (if forbiddenResponseTrailerField (fst f) then add_trailers wbuf fs
      else add_trailers (add_field_line wbuf f) fs)"

definition appendLastChunk :: "bytes \<Rightarrow> field list \<Rightarrow> bytes" where
  "appendLastChunk wbuf trailers = add_trailers (wbuf @ bstr ''0'' @ crlf) trailers @ crlf"

section \<open>A response as lines\<close>

definition strip :: "bytes \<Rightarrow> bytes" where
  "strip s = filter (\<lambda>ch. \<not> breaks_line ch) s"

definition one_line :: "bytes \<Rightarrow> bool" where
  "one_line s \<longleftrightarrow> list_all (\<lambda>ch. \<not> breaks_line ch) s"

lemma one_line_simps [simp]:
  "one_line []" "one_line (a @ b) \<longleftrightarrow> one_line a \<and> one_line b" "one_line (c # b) \<longleftrightarrow> \<not> breaks_line c \<and> one_line b"
  "one_line (strip s)"
  by (auto simp: one_line_def strip_def list_all_iff)

lemma strip_id [simp]: "one_line s \<Longrightarrow> strip s = s"
  by (simp add: one_line_def strip_def list_all_iff)

lemma addField_eq: "addField wbuf s = wbuf @ strip s"
  by (simp add: addField_def strip_def list_all_iff)

lemma one_line_dec [simp]: "one_line (map of_nat (dec n))"
proof -
  have "\<not> breaks_line (of_nat c)" if "c \<in> set (dec n)" for c
    using dec_adigit [OF that] unat_of_nat_byte [of c] by (auto simp: breaks_line_def is_adigit_def)
  then show ?thesis by (simp add: one_line_def list_all_iff)
qed

text \<open>The name and the value of a field line, and the line.\<close>

definition line_of :: "field \<Rightarrow> bytes" where
  "line_of f = fst f @ bstr '': '' @ snd f"

definition stripped :: "field \<Rightarrow> field" where
  "stripped f = (strip (fst f), strip (snd f))"

abbreviation on_wire :: "bytes list \<Rightarrow> bytes" where
  "on_wire ls \<equiv> concat (map (\<lambda>l. l @ crlf) ls)"

lemma add_line_eq: "add_line w n v = w @ on_wire [line_of (bstr n, v)]"
  by (simp add: add_line_def line_of_def)

lemma add_field_line_eq: "add_field_line w f = w @ on_wire [line_of (stripped f)]"
  by (simp add: add_field_line_def addField_eq line_of_def stripped_def)

definition kept_extra :: "field list \<Rightarrow> field list" where
  "kept_extra fs = map stripped (filter (\<lambda>f. \<not> connSpecificField (fst f)) fs)"

lemma add_extra_eq: "add_extra w fs = w @ on_wire (map line_of (kept_extra fs))"
  by (induction fs arbitrary: w) (auto simp: kept_extra_def add_field_line_eq)

definition kept_sec :: "field list \<Rightarrow> field list \<Rightarrow> field list" where
  "kept_sec extra fs = kept_extra (filter (\<lambda>f. \<not> list_ex (\<lambda>h. same_name (fst h) (fst f)) extra) fs)"

lemma add_sec_eq: "add_sec extra w fs = w @ on_wire (map line_of (kept_sec extra fs))"
  by (induction fs arbitrary: w) (auto simp: kept_sec_def kept_extra_def add_field_line_eq)

definition status_line :: "(nat \<Rightarrow> bytes) \<Rightarrow> nat \<Rightarrow> bytes" where
  "status_line status_text code =
     bstr ''HTTP/1.1 '' @ (if 100 \<le> code \<and> code \<le> 599 then status_text code else map of_nat (dec code))"

lemma add_status_eq: "add_status st w code = w @ on_wire [status_line st code]"
  by (simp add: add_status_def status_line_def addInt_def)

text \<open>The fields of a response, and its content.\<close>

definition response_fields :: "h1_response \<Rightarrow> field list" where
  "response_fields r =
     (let bodiless = bodilessStatus (h1_code r) in
      (if h1_serverHeader r \<noteq> [] then [(bstr ''Server'', h1_serverHeader r)] else []) @
      [(bstr ''Date'', h1_dateStr r)] @
      (if h1_contentType r \<noteq> [] \<and> \<not> bodiless then [(bstr ''Content-Type'', strip (h1_contentType r))] else []) @
      (if \<not> bodiless then [(bstr ''Content-Length'', map of_nat (dec (length (h1_body r))))] else []) @
      (if \<not> h1_keepAlive r then [(bstr ''Connection'', bstr ''close'')]
       else if h1_announceKeepAlive r then [(bstr ''Connection'', bstr ''keep-alive'')] else []) @
      (if h1_altSvc r \<noteq> [] then [(bstr ''Alt-Svc'', h1_altSvc r)] else []) @
      kept_extra (h1_extraHeaders r) @ kept_sec (h1_extraHeaders r) (h1_secHeaders r))"

definition response_content :: "h1_response \<Rightarrow> bytes" where
  "response_content r = (if h1_skipBody r \<or> bodilessStatus (h1_code r) then [] else h1_body r)"

lemma bstr_append: "bstr (a @ b) = bstr a @ bstr b"
  by (simp add: bstr_def)

lemma appendResponse_eq:
  "appendResponse st w r =
     w @ on_wire (status_line st (h1_code r) # map line_of (response_fields r)) @ crlf @ response_content r"
  by (auto simp: appendResponse_def Let_def response_fields_def response_content_def add_status_eq add_line_eq
      add_extra_eq add_sec_eq addField_eq addInt_def line_of_def bstr_append [symmetric])

end
