(* ===== verification/Http1_Response.thy ===== *)
theory Http1_Response
  imports Http1_Codec
begin

text \<open>
  What an HTTP/1.1 response of the server means to its reader: which lines its head has, how its
  body is framed, that a chunked body is read back, and how a field name escapes the framing
  rules.
\<close>

section \<open>A reader of heads\<close>

fun cut_line :: "bytes \<Rightarrow> (bytes \<times> bytes) option" where
  "cut_line (c # d # r) =
     (if c = 13 \<and> d = 10 then Some ([], r) else map_option (map_prod (Cons c) id) (cut_line (d # r)))"
| "cut_line _ = None"

lemma cut_line_length: "cut_line bs = Some (l, r) \<Longrightarrow> length r < length bs"
  by (induction bs arbitrary: l r rule: cut_line.induct) (fastforce split: if_splits)+

text \<open>The lines up to the empty one, and what follows it.\<close>

function head_lines :: "bytes \<Rightarrow> (bytes list \<times> bytes) option" where
  "head_lines bs =
     (case cut_line bs of
        None \<Rightarrow> None
      | Some (l, r) \<Rightarrow> if l = [] then Some ([], r) else map_option (map_prod (Cons l) id) (head_lines r))"
  by pat_completeness auto
termination
  by (relation "measure length") (auto dest: cut_line_length)

declare head_lines.simps [simp del]

lemma cut_line_one: "one_line l \<Longrightarrow> cut_line (l @ crlf @ r) = Some (l, r)"
proof (induction l)
  case (Cons c l)
  then have "cut_line (l @ 13 # 10 # r) = Some (l, r)" "c \<noteq> 13" by (simp_all add: crlf_def breaks_line_def)
  then show ?case by (cases l) (auto simp: crlf_def)
qed (simp add: crlf_def)

lemma head_lines_on_wire:
  "\<forall>l \<in> set ls. one_line l \<and> l \<noteq> [] \<Longrightarrow> head_lines (on_wire ls @ crlf @ r) = Some (ls, r)"
proof (induction ls)
  case Nil
  then show ?case using cut_line_one [of "[]" r] by (subst head_lines.simps) simp
next
  case (Cons l ls)
  then show ?case using cut_line_one [of l "on_wire ls @ crlf @ r"] by (subst head_lines.simps) simp
qed

section \<open>Names\<close>

definition has_name :: "string \<Rightarrow> bytes \<Rightarrow> bool" where
  "has_name n l \<longleftrightarrow> map toLowerA (takeWhile (\<lambda>c. c \<noteq> byte_of CHR '':'') l) = bstr n"

definition token_name :: "field \<Rightarrow> bool" where
  "token_name f \<longleftrightarrow> list_all (\<lambda>b. \<not> bad_name_byte b) (fst f)"

lemma token_name_bytes:
  assumes "token_name f"
  shows "one_line (fst f)" "byte_of CHR '':'' \<notin> set (fst f)"
proof -
  have "bad_name_byte 13" "bad_name_byte 10" "bad_name_byte (byte_of CHR '':'')" by code_simp+
  then show "one_line (fst f)" "byte_of CHR '':'' \<notin> set (fst f)"
    using assms unfolding token_name_def one_line_def list_all_iff breaks_line_def by metis+
qed

lemma has_name_line: "byte_of CHR '':'' \<notin> set (fst f) \<Longrightarrow> has_name n (line_of f) \<longleftrightarrow> map toLowerA (fst f) = bstr n"
proof -
  assume "byte_of CHR '':'' \<notin> set (fst f)"
  then have "takeWhile (\<lambda>c. c \<noteq> byte_of CHR '':'') (fst f @ bstr '': '' @ snd f) = fst f"
    by (subst takeWhile_append2) (auto simp: bstr_def)
  then show ?thesis by (simp add: has_name_def line_of_def)
qed

text \<open>What a handler sends does not reach the framing fields.\<close>

lemma kept_extra_names:
  assumes "\<forall>f \<in> set fs. token_name f" "f \<in> set (kept_extra fs)"
  shows "\<not> has_name ''content-length'' (line_of f)" "\<not> has_name ''transfer-encoding'' (line_of f)"
    "\<not> has_name ''connection'' (line_of f)"
proof -
  obtain g where g: "g \<in> set fs" "f = stripped g" "\<not> connSpecificField (fst g)"
    using assms(2) by (auto simp: kept_extra_def)
  have "token_name g" using assms(1) g(1) by blast
  note t = token_name_bytes [OF this]
  have f: "fst f = fst g" using t(1) g(2) by (simp add: stripped_def)
  then show "\<not> has_name ''content-length'' (line_of f)" "\<not> has_name ''transfer-encoding'' (line_of f)"
      "\<not> has_name ''connection'' (line_of f)"
    using g(3) t(2) unfolding connSpecificField_def isForbiddenResponseField_def eqIgnoreAsciiCase_eq
    by (simp_all add: has_name_line)
qed

lemma kept_sec_names:
  assumes "\<forall>f \<in> set fs. token_name f" "f \<in> set (kept_sec extra fs)"
  shows "\<not> has_name ''content-length'' (line_of f)" "\<not> has_name ''transfer-encoding'' (line_of f)"
    "\<not> has_name ''connection'' (line_of f)"
  using kept_extra_names [of "filter (\<lambda>f. \<not> list_ex (\<lambda>h. same_name (fst h) (fst f)) extra) fs" f] assms
  by (simp_all add: kept_sec_def)

lemma own_lower:
  "map toLowerA (bstr ''Server'') = bstr ''server''" "map toLowerA (bstr ''Date'') = bstr ''date''"
  "map toLowerA (bstr ''Content-Type'') = bstr ''content-type''"
  "map toLowerA (bstr ''Content-Length'') = bstr ''content-length''"
  "map toLowerA (bstr ''Transfer-Encoding'') = bstr ''transfer-encoding''"
  "map toLowerA (bstr ''Connection'') = bstr ''connection''" "map toLowerA (bstr ''Alt-Svc'') = bstr ''alt-svc''"
  by code_simp+

lemma own_name:
  assumes "map toLowerA (bstr m) = bstr l" "CHR '':'' \<notin> set m"
  shows "has_name n (line_of (bstr m, v)) \<longleftrightarrow> n = l"
proof -
  have "byte_of CHR '':'' \<notin> byte_of ` set m" using assms(2) by (simp only: image_iff byte_of_eq_iff) blast
  then have "byte_of CHR '':'' \<notin> set (fst (bstr m, v))" by (simp only: bstr_def fst_conv set_map not_False_eq_True)
  from has_name_line [OF this, of n] show ?thesis unfolding fst_conv assms(1) bstr_eq_iff by blast
qed

lemmas own_names [simp] =
  own_lower [THEN own_name, simplified list.set char.inject insert_iff empty_iff HOL.simp_thms]

section \<open>A buffered response\<close>

lemma one_line_literals [simp]: "one_line (bstr s) \<longleftrightarrow> CHR 0x0D \<notin> set s \<and> CHR 0x0A \<notin> set s"
proof -
  have e: "(13 :: byte) = byte_of (CHR 0x0D)" "(10 :: byte) = byte_of (CHR 0x0A)" by simp_all
  show ?thesis
    unfolding one_line_def bstr_def list_all_iff breaks_line_def e set_map ball_simps byte_of_eq_iff by metis
qed

lemma kept_lines: "f \<in> set (kept_extra fs) \<Longrightarrow> one_line (line_of f)" "f \<in> set (kept_sec ex fs) \<Longrightarrow> one_line (line_of f)"
  by (auto simp: kept_sec_def kept_extra_def line_of_def stripped_def one_line_literals)

lemma line_of_nonempty: "line_of f \<noteq> []"
  by (simp add: line_of_def)

lemma one_line_field: "one_line (line_of (bstr m, v)) \<longleftrightarrow> one_line (bstr m) \<and> one_line v"
  by (simp add: line_of_def)

lemma response_lines:
  assumes "one_line (status_text (h1_code r))" "one_line (h1_dateStr r)" "one_line (h1_serverHeader r)" "one_line (h1_altSvc r)"
  shows "\<forall>l \<in> set (status_line status_text (h1_code r) # map line_of (response_fields r)). one_line l \<and> l \<noteq> []"
proof -
  let ?P = "\<lambda>f. one_line (line_of f)"
  have k: "list_all ?P (kept_extra fs)" "list_all ?P (kept_sec ex fs)" for fs ex
    using kept_lines unfolding list_all_iff by blast+
  have "list_all ?P (response_fields r)"
    unfolding response_fields_def Let_def using assms(2-4) k
    by (simp add: one_line_field split del: if_split) (simp add: one_line_field)
  then show ?thesis using assms(1) by (auto simp: line_of_nonempty status_line_def list_all_iff)
qed

lemma no_kept_names:
  assumes "n \<in> {''content-length'', ''transfer-encoding'', ''connection''}"
  shows "\<forall>f \<in> set fs. token_name f \<Longrightarrow> filter (has_name n) (map line_of (kept_extra fs)) = []"
    "\<forall>f \<in> set fs. token_name f \<Longrightarrow> filter (has_name n) (map line_of (kept_sec ex fs)) = []"
  using assms kept_extra_names [of fs] kept_sec_names [of fs _ ex] by (auto simp: filter_empty_conv)

lemma response_frame_lines:
  assumes "\<forall>f \<in> set (h1_extraHeaders r) \<union> set (h1_secHeaders r). token_name f"
  shows "filter (has_name ''content-length'') (map line_of (response_fields r)) =
      (if bodilessStatus (h1_code r) then [] else [bstr ''Content-Length: '' @ map of_nat (dec (length (h1_body r)))])"
    "filter (has_name ''transfer-encoding'') (map line_of (response_fields r)) = []"
    "filter (has_name ''connection'') (map line_of (response_fields r)) =
      (if \<not> h1_keepAlive r then [bstr ''Connection: close'']
       else if h1_announceKeepAlive r then [bstr ''Connection: keep-alive''] else [])"
proof -
  have k: "filter (has_name n) (map line_of (kept_extra (h1_extraHeaders r))) = []"
    "filter (has_name n) (map line_of (kept_sec (h1_extraHeaders r) (h1_secHeaders r))) = []"
    if "n \<in> {''content-length'', ''transfer-encoding'', ''connection''}" for n
    using no_kept_names [OF that] assms by auto
  have l: "line_of (bstr ''Connection'', bstr ''close'') = bstr ''Connection: close''"
    "line_of (bstr ''Connection'', bstr ''keep-alive'') = bstr ''Connection: keep-alive''"
    "line_of (bstr ''Content-Length'', v) = bstr ''Content-Length: '' @ v" for v
    by (simp_all add: line_of_def bstr_append [symmetric])
  show "filter (has_name ''content-length'') (map line_of (response_fields r)) =
      (if bodilessStatus (h1_code r) then [] else [bstr ''Content-Length: '' @ map of_nat (dec (length (h1_body r)))])"
    using k [of "''content-length''"] by (simp add: response_fields_def Let_def l [symmetric])
  show "filter (has_name ''transfer-encoding'') (map line_of (response_fields r)) = []"
    using k [of "''transfer-encoding''"] by (simp add: response_fields_def Let_def)
  show "filter (has_name ''connection'') (map line_of (response_fields r)) =
      (if \<not> h1_keepAlive r then [bstr ''Connection: close'']
       else if h1_announceKeepAlive r then [bstr ''Connection: keep-alive''] else [])"
    using k [of "''connection''"] by (simp add: response_fields_def Let_def l [symmetric])
qed

text \<open>C12: A buffered HTTP/1.1 response means one thing to its reader, whatever a handler puts into
  values and whatever fields it names by tokens. The head is exactly the status line and the
  lines of the response's fields, with no line a handler's text could add; it has exactly one
  Content-Length line, the length of the body in decimal, and none for a status without a body;
  it has no Transfer-Encoding line and the one Connection line the server decided on; and what
  follows the head is the body, or nothing for HEAD and for such a status.
\<close>

theorem http1_response_one_framing:
  assumes "one_line (status_text (h1_code r))" and "one_line (h1_dateStr r)" and "one_line (h1_serverHeader r)"
    and "one_line (h1_altSvc r)"
    and "\<forall>f \<in> set (h1_extraHeaders r) \<union> set (h1_secHeaders r). token_name f"
  shows "\<exists>ls. head_lines (appendResponse status_text [] r) =
      Some (status_line status_text (h1_code r) # ls, response_content r) \<and> ls = map line_of (response_fields r) \<and>
    filter (has_name ''content-length'') ls =
      (if bodilessStatus (h1_code r) then [] else [bstr ''Content-Length: '' @ map of_nat (dec (length (h1_body r)))]) \<and>
    filter (has_name ''transfer-encoding'') ls = [] \<and>
    filter (has_name ''connection'') ls =
      (if \<not> h1_keepAlive r then [bstr ''Connection: close'']
       else if h1_announceKeepAlive r then [bstr ''Connection: keep-alive''] else [])"
  using head_lines_on_wire [OF response_lines [where status_text = status_text, OF assms(1-4)], of "response_content r"]
    response_frame_lines [OF assms(5)] unfolding appendResponse_eq by simp

definition response1 :: h1_response where
  "response1 = \<lparr>h1_code = 200, h1_dateStr = bstr ''now'', h1_serverHeader = bstr ''vortex'', h1_contentType = bstr ''text/plain'',
     h1_body = bstr ''hello'',
     h1_extraHeaders = [(bstr ''Transfer-Encoding'', bstr ''chunked''), (bstr ''X-Name'', bstr ''a'' @ crlf @ bstr ''Content-Length: 9'')],
     h1_keepAlive = True, h1_skipBody = False, h1_announceKeepAlive = False, h1_altSvc = [],
     h1_secHeaders = [(bstr ''x-name'', bstr ''b'')]\<rparr>"

theorem http1_response_one_framing_witness:
  "head_lines (appendResponse (\<lambda>c. bstr ''200 OK'') [] response1) =
     Some (map bstr [''HTTP/1.1 200 OK'', ''Server: vortex'', ''Date: now'', ''Content-Type: text/plain'',
       ''Content-Length: 5'', ''X-Name: aContent-Length: 9''], bstr ''hello'')"
proof -
  have "one_line (bstr ''200 OK'')" "one_line (h1_dateStr response1)" "one_line (h1_serverHeader response1)"
    "one_line (h1_altSvc response1)" "list_all token_name (h1_extraHeaders response1 @ h1_secHeaders response1)"
    by code_simp+
  then have "\<exists>ls. head_lines (appendResponse (\<lambda>c. bstr ''200 OK'') [] response1) =
      Some (status_line (\<lambda>c. bstr ''200 OK'') (h1_code response1) # ls, response_content response1) \<and>
      ls = map line_of (response_fields response1)"
    using http1_response_one_framing [of "\<lambda>c. bstr ''200 OK''" response1] unfolding list_all_iff set_append by blast
  moreover have "status_line (\<lambda>c. bstr ''200 OK'') (h1_code response1) # map line_of (response_fields response1) =
      map bstr [''HTTP/1.1 200 OK'', ''Server: vortex'', ''Date: now'', ''Content-Type: text/plain'',
       ''Content-Length: 5'', ''X-Name: aContent-Length: 9'']" "response_content response1 = bstr ''hello''"
    by code_simp+
  ultimately show ?thesis by auto
qed

section \<open>A name that escapes\<close>

lemma one_line_lower: "one_line (map toLowerA name) \<Longrightarrow> one_line name"
proof -
  have "toLowerA c = c" if "breaks_line c" for c
    using that by (auto simp: breaks_line_def toLowerA_def upperA_def)
  then show "one_line (map toLowerA name) \<Longrightarrow> one_line name" by (force simp: one_line_def list_all_iff)
qed

lemma connSpecificField_one_line: "connSpecificField name \<Longrightarrow> one_line name"
  unfolding connSpecificField_def isForbiddenResponseField_def eqIgnoreAsciiCase_eq
  by (rule one_line_lower) auto

text \<open>C31: The framing rule for handler fields has one hole. A field name is compared with the framing
  names before its line breaks are removed and sent after it: every field whose name holds a
  carriage return or line feed passes, and its line carries the name without them. So a name
  such as \<open>Content-Length\<close> with a line feed inside reaches the wire as a second Content-Length.
\<close>

theorem http1_broken_names_escape:
  assumes "one_line (status_text (h1_code r))" and "one_line (h1_dateStr r)" and "one_line (h1_serverHeader r)"
    and "one_line (h1_altSvc r)" and "f \<in> set (h1_extraHeaders r)" and "\<not> one_line (fst f)"
  shows "\<exists>ls. head_lines (appendResponse status_text [] r) = Some (ls, response_content r) \<and>
    strip (fst f) @ bstr '': '' @ strip (snd f) \<in> set ls"
proof -
  have "stripped f \<in> set (kept_extra (h1_extraHeaders r))"
    using assms(5,6) connSpecificField_one_line [of "fst f"] by (auto simp: kept_extra_def)
  then have "line_of (stripped f) \<in> set (map line_of (response_fields r))" by (auto simp: response_fields_def Let_def)
  then show ?thesis
    using head_lines_on_wire [OF response_lines [where status_text = status_text, OF assms(1-4)], of "response_content r"]
    unfolding appendResponse_eq by (auto simp: line_of_def stripped_def)
qed

definition response2 :: h1_response where
  "response2 = response1\<lparr>h1_extraHeaders := [(bstr ''Content-'' @ [10] @ bstr ''Length'', bstr ''0'')]\<rparr>"

theorem http1_broken_names_escape_witness:
  "\<exists>ls. head_lines (appendResponse (\<lambda>c. bstr ''200 OK'') [] response2) = Some (ls, bstr ''hello'') \<and>
     bstr ''Content-Length: 0'' \<in> set ls \<and> bstr ''Content-Length: 5'' \<in> set ls"
proof -
  define f where "f = (bstr ''Content-'' @ [10] @ bstr ''Length'', bstr ''0'')"
  have "one_line (bstr ''200 OK'')" "one_line (h1_dateStr response2)" "one_line (h1_serverHeader response2)"
    "one_line (h1_altSvc response2)" "f \<in> set (h1_extraHeaders response2)" "\<not> one_line (fst f)"
    unfolding f_def by code_simp+
  then obtain ls where ls: "head_lines (appendResponse (\<lambda>c. bstr ''200 OK'') [] response2) = Some (ls, response_content response2)"
      "strip (fst f) @ bstr '': '' @ strip (snd f) \<in> set ls"
    using http1_broken_names_escape [of "\<lambda>c. bstr ''200 OK''" response2 f] by blast
  have "strip (fst f) @ bstr '': '' @ strip (snd f) = bstr ''Content-Length: 0''" "response_content response2 = bstr ''hello''"
    "map_option (\<lambda>(ls, _). bstr ''Content-Length: 5'' \<in> set ls) (head_lines (appendResponse (\<lambda>c. bstr ''200 OK'') [] response2)) = Some True"
    unfolding f_def by code_simp+
  then show ?thesis using ls by auto
qed

end
