(* ===== verification/Http1_Stream.thy ===== *)
theory Http1_Stream
  imports Http1_Response
begin

text \<open>
  A streamed HTTP/1.1 response: the lines of its head, and its chunks read back by the chunk
  reader of \<open>http1/parser.nim\<close>.
\<close>

section \<open>Chunk sizes\<close>

lemma chunk_size_loop_append:
  "\<forall>c \<in> set xs. hex_value c \<noteq> None \<Longrightarrow>
   chunk_size_loop (xs @ ys) v k =
     (case chunk_size_loop xs v k of Inl e \<Rightarrow> Inl e | Inr (w, j) \<Rightarrow> chunk_size_loop ys w j)"
  by (induction xs v k rule: chunk_size_loop.induct) (auto split: option.splits)

lemma hex_digit: "d < 16 \<Longrightarrow> hex_value (hex_digits ! d) = Some (int d) \<and> \<not> breaks_line (hex_digits ! d)"
proof -
  assume "d < 16"
  moreover have "list_all (\<lambda>d. hex_value (hex_digits ! d) = Some (int d) \<and> \<not> breaks_line (hex_digits ! d)) [0..<16]"
    by code_simp
  ultimately show ?thesis unfolding list_all_iff set_upt by auto
qed

lemma hex_loop_step: "0 < n \<Longrightarrow> hex_loop n = hex_digits ! (n mod 16) # hex_loop (n div 16)"
proof -
  have "n AND mask 4 = n mod 2 ^ 4" unfolding take_bit_eq_mask [symmetric] by (rule take_bit_eq_mod)
  moreover have "mask 4 = (0xf :: nat)" by (simp add: mask_eq_exp_minus_1)
  ultimately have "n AND 0xf = n mod 16" by simp
  then show "0 < n \<Longrightarrow> hex_loop n = hex_digits ! (n mod 16) # hex_loop (n div 16)"
    by (subst hex_loop.simps) (simp add: drop_bit_eq_div)
qed

lemma hex_loop_spec:
  assumes "n < 16 ^ k"
  shows "length (hex_loop n) \<le> k \<and> one_line (hex_loop n) \<and> (\<forall>c \<in> set (hex_loop n). hex_value c \<noteq> None) \<and>
    (n < 2 ^ 63 \<longrightarrow> chunk_size_loop (rev (hex_loop n)) 0 0 = Inr (int n, length (hex_loop n)))"
  using assms
proof (induction k arbitrary: n)
  case 0
  then show ?case by (simp add: hex_loop.simps)
next
  case (Suc k)
  show ?case
  proof (cases "n = 0")
    case False
    have d: "n mod 16 < 16" by simp
    have IH: "length (hex_loop (n div 16)) \<le> k" "one_line (hex_loop (n div 16))"
      "\<forall>c \<in> set (hex_loop (n div 16)). hex_value c \<noteq> None"
      "n < 2 ^ 63 \<Longrightarrow> chunk_size_loop (rev (hex_loop (n div 16))) 0 0 = Inr (int (n div 16), length (hex_loop (n div 16)))"
      using Suc.IH [of "n div 16"] Suc.prems by (auto simp: less_mult_imp_div_less mult.commute)
    have v: "int64 (push_bit 4 (int (n div 16)) OR int (n mod 16)) = int n" if "n < 2 ^ 63"
    proof -
      have "16 * int (n div 16) + int (n mod 16) = int n" by presburger
      moreover have "int64 (int n) = int n" using that by (intro int64_id) (simp_all add: int64_high_def)
      ultimately show ?thesis by (simp add: shift_or)
    qed
    have step: "hex_loop n = hex_digits ! (n mod 16) # hex_loop (n div 16)" using False by (intro hex_loop_step) simp
    have "chunk_size_loop (rev (hex_loop n)) 0 0 = Inr (int n, length (hex_loop n))" if "n < 2 ^ 63"
    proof -
      have "\<not> drop_bit 4 (int64_high - 15) < int (n div 16)"
        using that by (simp add: int64_high_def drop_bit_eq_div)
      then show ?thesis
        using IH(3) IH(4) [OF that] v [OF that] hex_digit [OF d] unfolding step rev.simps
        by (subst chunk_size_loop_append) auto
    qed
    then show ?thesis using IH(1-3) hex_digit [OF d] unfolding step by auto
  qed (simp add: hex_loop.simps)
qed

section \<open>Chunks read back\<close>

lemma findByte_line:
  assumes "one_line h"
  shows "findByte (pre @ h @ crlf @ rest) (length pre) (length (pre @ h @ crlf @ rest)) 10 = Some (length pre + length h + 1)"
proof -
  have "h ! k \<noteq> 10" if "k < length h" for k
    using assms that by (auto simp: one_line_def list_all_length breaks_line_def)
  then have "(pre @ h @ crlf @ rest) ! k \<noteq> 10" if "length pre \<le> k" "k < length pre + length h + 1" for k
    using that by (cases "k = length pre + length h") (auto simp: nth_append crlf_def)
  then show ?thesis unfolding findByte_Some_iff by (auto simp: nth_append crlf_def)
qed

text \<open>One turn per line of a chunk: its size, its data, its end.\<close>

lemma size_line_turn:
  assumes "phase p = ppChunkSize" "rp_pos p = length pre" "one_line h" "length h \<le> 126"
    "chunk_size_loop h 0 0 = Inr (int n, k)" "k \<noteq> 0" "length body + n \<le> maxBodySize limits" "maxBodySize limits < 2 ^ 63"
    "buf = pre @ h @ crlf @ rest"
  shows "parse_turn buf limits (length buf) p body =
    Go (p\<lparr>rp_pos := length pre + length h + 2, chunkRemaining := int n, phase := (if n = 0 then ppTrailers else ppChunkData)\<rparr>) body"
proof -
  have nl: "findByte buf (rp_pos p) (length buf) 10 = Some (length pre + length h + 1)"
    unfolding assms(2,9) by (rule findByte_line [OF assms(3)])
  have cs: "py_slice buf (rp_pos p) (length pre + length h + 1 - 1) = h" using assms(2,9) by (simp add: py_slice_def)
  have cr: "buf ! (length pre + length h + 1 - 1) = 13" using assms(9) by (simp add: nth_append crlf_def)
  have sum: "int64 (int (length body) + int n) = int (length body) + int n"
    using assms(7,8) by (intro int64_id) (auto simp: int64_high_def)
  show ?thesis
    using assms(1,2,4-8) cr unfolding parse_turn_def assms(1) ParsePhase.case chunk_size_turn_def nl option.case cs
    by (simp add: sum)
qed

lemma data_turns:
  assumes "phase p = ppChunkData" "rp_pos p = length pre" "chunkRemaining p = int (length data)" "data \<noteq> []"
    "buf = pre @ data @ crlf @ rest"
  shows "parse_loop buf limits (length buf) p body =
    parse_loop buf limits (length buf)
      (p\<lparr>rp_pos := length pre + length data + 2, chunkRemaining := 0, phase := ppChunkSize\<rparr>) (body @ data)"
proof -
  let ?p = "p\<lparr>rp_pos := length pre + length data, chunkRemaining := 0, phase := ppChunkCRLF\<rparr>"
  have "parse_turn buf limits (length buf) p body = Go ?p (body @ data)"
    using assms by (simp add: parse_turn_def chunk_data_turn_def Let_def)
  moreover have "parse_turn buf limits (length buf) ?p (body @ data) =
      Go (p\<lparr>rp_pos := length pre + length data + 2, chunkRemaining := 0, phase := ppChunkSize\<rparr>) (body @ data)"
    using assms(5) by (simp add: parse_turn_def chunk_crlf_turn_def nth_append crlf_def)
  ultimately show ?thesis by (simp add: parse_loop_Go)
qed

lemma last_chunk_turns:
  assumes "phase p = ppChunkSize" "rp_pos p = length pre" "length body \<le> maxBodySize limits" "maxBodySize limits < 2 ^ 63"
    "buf = pre @ bstr ''0'' @ crlf @ crlf @ rest"
  shows "parse_loop buf limits (length buf) p body =
    (prComplete, p\<lparr>rp_pos := length pre + 5, chunkRemaining := 0, phase := ppComplete\<rparr>, body)"
proof -
  let ?p = "p\<lparr>rp_pos := length pre + 3, chunkRemaining := 0, phase := ppTrailers\<rparr>"
  have z: "chunk_size_loop (bstr ''0'') 0 0 = Inr (int 0, 1)" "length (bstr ''0'') = 1" by code_simp+
  have "parse_turn buf limits (length buf) p body = Go ?p body"
    using size_line_turn [OF assms(1,2) _ _ z(1) _ _ assms(4) assms(5), of body] assms(3) z(2) by simp
  moreover have "parse_turn buf limits (length buf) ?p body =
      Stop prComplete (p\<lparr>rp_pos := length pre + 5, chunkRemaining := 0, phase := ppComplete\<rparr>) body"
  proof -
    have pos: "length (pre @ bstr ''0'' @ crlf) = rp_pos ?p" using z(2) by (simp add: crlf_def)
    have buf: "buf = (pre @ bstr ''0'' @ crlf) @ [] @ crlf @ rest" using assms(5) by simp
    have nl: "findByte buf (rp_pos ?p) (length buf) 10 = Some (length pre + 4)"
      using findByte_line [of "[]" "pre @ bstr ''0'' @ crlf" rest, folded buf] unfolding pos by simp
    have cr: "buf ! (length pre + 4 - 1) = 13" using z(2) assms(5) by (simp add: nth_append crlf_def)
    have ph: "phase ?p = ppTrailers" by simp
    show ?thesis
      unfolding parse_turn_def ph ParsePhase.case trailer_turn_def nl option.case Let_def using cr by simp
  qed
  ultimately show ?thesis by (simp add: parse_loop_Go parse_loop_Stop)
qed

text \<open>The wire of a sequence of writes.\<close>

definition chunk_of :: "bytes \<Rightarrow> bytes" where
  "chunk_of data = (if data = [] then [] else rev (hex_loop (length data)) @ crlf @ data @ crlf)"

lemma appendChunk_eq: "appendChunk w data = w @ chunk_of data"
  by (simp add: appendChunk_def chunk_of_def addHex_def)

lemma appendChunks_eq: "foldl appendChunk w datas = w @ concat (map chunk_of datas)"
  by (induction datas arbitrary: w) (simp_all add: appendChunk_eq)

lemma chunks_read_back:
  assumes "phase p = ppChunkSize" "rp_pos p = length pre" "length body + length (concat datas) \<le> maxBodySize limits"
    "maxBodySize limits < 2 ^ 63" "buf = pre @ concat (map chunk_of datas) @ bstr ''0'' @ crlf @ crlf @ rest"
  shows "parse_loop buf limits (length buf) p body =
    (prComplete, p\<lparr>rp_pos := length buf - length rest, chunkRemaining := 0, phase := ppComplete\<rparr>, body @ concat datas)"
  using assms
proof (induction datas arbitrary: p pre body)
  case Nil
  then show ?case using last_chunk_turns [OF Nil(1,2) _ Nil(4), of body buf rest] by (simp add: crlf_def bstr_def)
next
  case (Cons d ds)
  show ?case
  proof (cases "d = []")
    case True
    then show ?thesis using Cons by (simp add: chunk_of_def)
  next
    case False
    let ?h = "rev (hex_loop (length d))"
    have n: "length d < 2 ^ 63" using Cons.prems(3,4) by simp
    then have "length d < 16 ^ 16" by simp
    note h = hex_loop_spec [OF this]
    have hl: "one_line ?h" "length ?h \<le> 126" "chunk_size_loop ?h 0 0 = Inr (int (length d), length ?h)"
      using h n by (auto simp: one_line_def)
    have nz: "length ?h \<noteq> 0" using False by (simp add: hex_loop_step)
    have buf: "buf = pre @ ?h @ crlf @ (d @ crlf @ concat (map chunk_of ds) @ bstr ''0'' @ crlf @ crlf @ rest)"
      using Cons.prems(5) False by (simp add: chunk_of_def [of d])
    define p1 where "p1 = p\<lparr>rp_pos := length pre + length ?h + 2, chunkRemaining := int (length d), phase := ppChunkData\<rparr>"
    define p2 where "p2 = p1\<lparr>rp_pos := length (pre @ ?h @ crlf) + length d + 2, chunkRemaining := 0, phase := ppChunkSize\<rparr>"
    have "parse_turn buf limits (length buf) p body = Go p1 body"
      using size_line_turn [OF Cons.prems(1,2) hl nz _ Cons.prems(4) buf, of body] Cons.prems(3) False by (simp add: p1_def)
    then have "parse_loop buf limits (length buf) p body = parse_loop buf limits (length buf) p1 body" by (rule parse_loop_Go)
    also have "\<dots> = parse_loop buf limits (length buf) p2 (body @ d)"
      unfolding p2_def using buf False by (intro data_turns) (simp_all add: p1_def crlf_def)
    also have "\<dots> = (prComplete, p2\<lparr>rp_pos := length buf - length rest, chunkRemaining := 0, phase := ppComplete\<rparr>, (body @ d) @ concat ds)"
      using Cons.prems(3,4) buf by (intro Cons.IH [where pre = "pre @ ?h @ crlf @ d @ crlf"]) (simp_all add: p2_def crlf_def)
    finally show ?thesis by (simp add: p2_def p1_def)
  qed
qed

section \<open>The head\<close>

definition stream_fields :: "h1_stream_head \<Rightarrow> field list" where
  "stream_fields r =
     (if sh_serverHeader r \<noteq> [] then [(bstr ''Server'', sh_serverHeader r)] else []) @
     [(bstr ''Date'', sh_dateStr r)] @
     (if sh_contentType r \<noteq> [] then [(bstr ''Content-Type'', strip (sh_contentType r))] else []) @
     (if sh_chunked r then [(bstr ''Transfer-Encoding'', bstr ''chunked'')]
      else if 0 \<le> sh_contentLength r then [(bstr ''Content-Length'', map of_nat (dec (nat (sh_contentLength r))))] else []) @
     (if \<not> sh_keepAlive r \<or> \<not> sh_chunked r \<and> sh_contentLength r < 0 then [(bstr ''Connection'', bstr ''close'')]
      else if sh_announceKeepAlive r then [(bstr ''Connection'', bstr ''keep-alive'')] else []) @
     (if sh_altSvc r \<noteq> [] then [(bstr ''Alt-Svc'', sh_altSvc r)] else []) @
     kept_extra (sh_extraHeaders r)"

lemma appendStreamHead_eq:
  "appendStreamHead st w r = w @ on_wire (status_line st (sh_code r) # map line_of (stream_fields r)) @ crlf"
  by (auto simp: appendStreamHead_def Let_def stream_fields_def add_status_eq add_line_eq add_extra_eq addField_eq
      addInt_def line_of_def bstr_append [symmetric])

lemma stream_lines:
  assumes "one_line (status_text (sh_code r))" "one_line (sh_dateStr r)" "one_line (sh_serverHeader r)" "one_line (sh_altSvc r)"
  shows "\<forall>l \<in> set (status_line status_text (sh_code r) # map line_of (stream_fields r)). one_line l \<and> l \<noteq> []"
proof -
  let ?P = "\<lambda>f. one_line (line_of f)"
  have k: "list_all ?P (kept_extra fs)" for fs using kept_lines unfolding list_all_iff by blast
  have "list_all ?P (stream_fields r)"
    unfolding stream_fields_def using assms(2-4) k
    by (simp add: one_line_field split del: if_split) (simp add: one_line_field)
  then show ?thesis using assms(1) by (auto simp: line_of_nonempty status_line_def list_all_iff)
qed

lemma stream_frame_lines:
  assumes "\<forall>f \<in> set (sh_extraHeaders r). token_name f" "sh_chunked r"
  shows "filter (has_name ''content-length'') (map line_of (stream_fields r)) = []"
    "filter (has_name ''transfer-encoding'') (map line_of (stream_fields r)) = [bstr ''Transfer-Encoding: chunked'']"
proof -
  have l: "line_of (bstr ''Transfer-Encoding'', bstr ''chunked'') = bstr ''Transfer-Encoding: chunked''"
    by (simp add: line_of_def bstr_append [symmetric])
  show "filter (has_name ''content-length'') (map line_of (stream_fields r)) = []"
    "filter (has_name ''transfer-encoding'') (map line_of (stream_fields r)) = [bstr ''Transfer-Encoding: chunked'']"
    using no_kept_names(1) [of _ "sh_extraHeaders r"] assms by (simp_all add: stream_fields_def l [symmetric])
qed

text \<open>C13: A streamed response arrives as it was written. For every sequence of writes, the head the
  server sends first reads as its status line and its fields, among them exactly one
  Transfer-Encoding line and no Content-Length; and the bytes after the head are read by the
  repository's own chunk reader as exactly the concatenation of the writes, ending at the last
  byte of the stream whatever follows it on the connection.
\<close>

theorem http1_stream_arrives:
  assumes "one_line (status_text (sh_code r))" and "one_line (sh_dateStr r)" and "one_line (sh_serverHeader r)"
    and "one_line (sh_altSvc r)" and "\<forall>f \<in> set (sh_extraHeaders r). token_name f" and "sh_chunked r"
    and "length (concat writes) \<le> maxBodySize limits" and "maxBodySize limits < 2 ^ 63" and "phase p = ppChunkSize"
  shows "\<exists>ls body. head_lines (appendLastChunk (foldl appendChunk (appendStreamHead status_text [] r) writes) []) =
      Some (status_line status_text (sh_code r) # ls, body) \<and>
    filter (has_name ''content-length'') ls = [] \<and>
    filter (has_name ''transfer-encoding'') ls = [bstr ''Transfer-Encoding: chunked''] \<and>
    (\<forall>rest. \<exists>q. parse (p\<lparr>rp_pos := 0\<rparr>) (body @ rest) (length (body @ rest)) limits [] = (prComplete, q, concat writes) \<and>
      rp_pos q = length body \<and> rp_trailers q = rp_trailers p)"
proof -
  define body where "body = concat (map chunk_of writes) @ bstr ''0'' @ crlf @ crlf"
  have "appendLastChunk (foldl appendChunk (appendStreamHead status_text [] r) writes) [] =
      on_wire (status_line status_text (sh_code r) # map line_of (stream_fields r)) @ crlf @ body"
    by (simp add: appendLastChunk_def appendChunks_eq appendStreamHead_eq body_def)
  then have head: "head_lines (appendLastChunk (foldl appendChunk (appendStreamHead status_text [] r) writes) []) =
      Some (status_line status_text (sh_code r) # map line_of (stream_fields r), body)"
    using head_lines_on_wire [OF stream_lines [where status_text = status_text, OF assms(1-4)], of body] by simp
  have "parse (p\<lparr>rp_pos := 0\<rparr>) (body @ rest) (length (body @ rest)) limits [] =
      (prComplete, p\<lparr>rp_pos := length body, chunkRemaining := 0, phase := ppComplete\<rparr>, concat writes)" for rest
    using chunks_read_back [of "p\<lparr>rp_pos := 0\<rparr>" "[]" "[]" writes limits "body @ rest" rest] assms(7-9)
    by (simp add: parse_def body_def)
  then have "\<forall>rest. \<exists>q. parse (p\<lparr>rp_pos := 0\<rparr>) (body @ rest) (length (body @ rest)) limits [] = (prComplete, q, concat writes) \<and>
      rp_pos q = length body \<and> rp_trailers q = rp_trailers p" by simp
  then show ?thesis using head stream_frame_lines [OF assms(5,6)] by blast
qed

definition stream1 :: h1_stream_head where
  "stream1 = \<lparr>sh_code = 200, sh_dateStr = bstr ''now'', sh_serverHeader = [], sh_contentType = bstr ''text/plain'',
     sh_extraHeaders = [(bstr ''Content-Length'', bstr ''3'')], sh_chunked = True, sh_keepAlive = True,
     sh_announceKeepAlive = False, sh_altSvc = [], sh_contentLength = - 1\<rparr>"

theorem http1_stream_arrives_witness:
  "\<exists>body q. head_lines (appendLastChunk (foldl appendChunk (appendStreamHead (\<lambda>c. bstr ''200 OK'') [] stream1)
        [bstr ''hel'', [], bstr ''lo'']) []) =
      Some (map bstr [''HTTP/1.1 200 OK'', ''Date: now'', ''Content-Type: text/plain'', ''Transfer-Encoding: chunked''], body) \<and>
     parse (parser0\<lparr>phase := ppChunkSize, rp_pos := 0\<rparr>) (body @ bstr ''GET'') (length (body @ bstr ''GET'')) limits1 [] =
       (prComplete, q, bstr ''hello'')"
proof -
  let ?st = "\<lambda>c. bstr ''200 OK''"
  let ?w = "[bstr ''hel'', [], bstr ''lo'']"
  have h: "one_line (bstr ''200 OK'')" "one_line (sh_dateStr stream1)" "one_line (sh_serverHeader stream1)"
    "one_line (sh_altSvc stream1)" "list_all token_name (sh_extraHeaders stream1)" "sh_chunked stream1"
    "length (concat ?w) \<le> maxBodySize limits1"
    by code_simp+
  have small: "maxBodySize limits1 < 2 ^ 63" "phase (parser0\<lparr>phase := ppChunkSize\<rparr>) = ppChunkSize" by (simp_all add: limits1_def)
  note arrives = http1_stream_arrives [where status_text = ?st, OF h(1-4) h(5) [unfolded list_all_iff] h(6,7) small]
  then obtain ls body where b: "head_lines (appendLastChunk (foldl appendChunk (appendStreamHead ?st [] stream1) ?w) []) =
      Some (status_line ?st (sh_code stream1) # ls, body)"
      "\<forall>rest. \<exists>q. parse (parser0\<lparr>phase := ppChunkSize, rp_pos := 0\<rparr>) (body @ rest) (length (body @ rest)) limits1 [] =
         (prComplete, q, concat ?w)"
    by blast
  have w: "concat ?w = bstr ''hello''" by code_simp
  have "map_option fst (head_lines (appendLastChunk (foldl appendChunk (appendStreamHead ?st [] stream1) ?w) [])) =
      Some (map bstr [''HTTP/1.1 200 OK'', ''Date: now'', ''Content-Type: text/plain'', ''Transfer-Encoding: chunked''])"
    by code_simp
  then have "status_line ?st (sh_code stream1) # ls =
      map bstr [''HTTP/1.1 200 OK'', ''Date: now'', ''Content-Type: text/plain'', ''Transfer-Encoding: chunked'']"
    unfolding b(1) by (simp only: option.map fst_conv option.inject)
  from b(1) [unfolded this] b(2) [unfolded w] show ?thesis by blast
qed

end
