(* ===== verification/Spec2Isabelle.thy ===== *)
theory Spec2Isabelle
  imports H3_Props Stress_Mix_Props Stress_Cell_Props Stress_Exchange_Props Chaos_Props Conf_Props
    H2_Headers Hpack_Huffman_Props Http1_Stream
begin

text \<open>
  A verification library for the Python test clients of the vortex web server and for the
  wire formats of the server they meet.

  \<^bold>\<open>The program.\<close> The clients under \<open>conformance/\<close> drive a running server and decide by an
  exit code whether it behaved: the stress client (\<open>stress/client/stress_client.py\<close>) runs
  one workload, or a mix, with many concurrent workers and counts only what it verified; the
  chaos sidecar (\<open>stress/client/chaos.py\<close>) opens badly behaved connections beside it and then
  checks the server's descriptor count; both speak HTTP through \<open>stress/client/transport.py\<close>
  and \<open>stress/client/h3.py\<close>, the second of which is an HTTP/3 client over aioquic. The
  client of \<open>h3websocket/client.py\<close> checks WebSockets over HTTP/3, the client of
  \<open>interop/clients/python/client.py\<close> one echo exchange per protocol version, and
  \<open>fairness/summarize.py\<close> prints a summary line. The peer is the Nim server: its stress
  target \<open>stress/stress_server.nim\<close> and, of the library \<open>src/vortex\<close>, the WebSocket frames, the
  header field rules, the HTTP/1 request parser and response serializer, HPACK, the HTTP/2 frame layer and the header
  blocks of HTTP/2 responses.

  \<^bold>\<open>Language and shared theories.\<close>
  \<^item> \<open>Py_Prelude\<close>, \<open>Py_Text\<close>, \<open>Py_Float\<close>, \<open>Py_Sha1\<close>, \<open>Py_Exn\<close>: bytes as 8-bit words, text as
    code points, counters as association lists, integers to and from text, UTF-8, doubles as
    rationals with rounding to nearest even, SHA-1, and the exceptions with their groups.
  \<^item> \<open>Py_Async\<close>: coroutines. A coroutine maps a world (the readings of the clock still to come,
    the outside, the trace of what was done) to an outcome (a value, an exception, still
    waiting) and a world. The theory has the statements the sources use (\<open>try\<close>, \<open>async with\<close>,
    loops to a deadline) and two program logics for them: traces and Hoare triples.
  \<^item> \<open>Nim_Prelude\<close>: characters, \<open>int64\<close> with its wrap-around, and calls that may raise, for Nim.

  \<^bold>\<open>Clients.\<close>
  \<^item> \<open>Ws_Framing\<close>, \<open>Ws_Server\<close>, \<open>Ws_Interop\<close>: \<open>ws_frame\<close> and \<open>parse_ws\<close> of the two clients and
    \<open>parseFrame\<close>, \<open>appendFrame\<close> and \<open>appendClose\<close> of \<open>websocket/frames.nim\<close>. The locale
    \<open>frame_parser\<close> holds what both parsers share; its two interpretations carry the results:
    any cutting of the bytes gives the same frames, and what one side writes the other reads,
    except that the conformance client has no 64-bit lengths.
  \<^item> \<open>H3_Client\<close>, \<open>H3_Props\<close>: \<open>h3.py\<close> as an event machine with one queue per stream. A request
    gets its own response under any interleaving, no reader is left waiting after a reset or
    a close, an upload ends and keeps its buffer bounded, and the tunnel loses messages that
    arrive together.
  \<^item> \<open>Transport\<close>, \<open>Payload\<close>, \<open>Stress_Server\<close>, \<open>Transport_Props\<close>: the configuration, bodies,
    compression, protocol pin and typed payloads of \<open>transport.py\<close>, and the handlers of
    \<open>stress_server.nim\<close> that answer them. Both ends agree on every body, digest, GET entry and
    statistics line, and a pinned call never accepts another version.
  \<^item> \<open>Stress_Mix\<close>, \<open>Stress_Mix_Props\<close>: \<open>parse_mix\<close> and \<open>split_mix\<close>. Every text is a valid mix, an
    exit with 2 or one documented error; the workers are handed out exactly and in proportion.
  \<^item> \<open>Stress_Work\<close>, \<open>Stress_Audit\<close>, \<open>Stress_Work_Props\<close>: the six workloads, an audit predicate on
    traces that says which exchange justifies a count, and that every count of every workload
    is justified (the locale \<open>verified_worker\<close> with its seven interpretations).
  \<^item> \<open>Stress_Feed_Props\<close>, \<open>Stress_Transfer_Props\<close>, \<open>Stress_Exchange_Props\<close>: the workloads against
    the server's own handlers: the event feed is read whole through reconnects, transfers and
    requests complete and are counted exactly.
  \<^item> \<open>Stress_Report\<close>, \<open>Stress_Cell\<close>, \<open>Stress_Cell_Props\<close>: tallies, report lines, the interleaving
    of the workers as a step relation, and \<open>main\<close>. The shared counters refine order-free sums
    (locale \<open>tally\<close>, one interpretation per counter), every state is well-formed, exit code 0
    means that every slice did verified work, and groups of exceptions keep their interrupts.
  \<^item> \<open>Chaos_Acts\<close>, \<open>Chaos\<close>, \<open>Chaos_Props\<close>: the behaviours, the pool, the worker, the leak check and
    \<open>main\<close> of the sidecar. Behaviours leave what they open, workers survive exceptions, and the
    exit codes mean what the module says, up to one internal error that is proved too.
  \<^item> \<open>Conf_Client\<close>, \<open>Interop\<close>, \<open>Conf_Props\<close>: the conformance client, the interop client and the
    summary line. Messages are received in any pieces, and an exit with 0 counts only verified
    exchanges.

  \<^bold>\<open>Server library.\<close>
  \<^item> \<open>Fieldrules\<close>: \<open>fieldrules.nim\<close>, with a declarative specification of a well-formed request
    head that \<open>classifyRequestHead\<close> decides, and exact content lengths.
  \<^item> \<open>Http1_Parser\<close>, \<open>Http1_Props\<close>, \<open>Http1_Framing\<close>, \<open>Http1_Invariant\<close>, \<open>Http1_Request\<close>:
    \<open>http1/parser.nim\<close>, with \<open>parse\<close> as one turn per phase and a loop that ends because every turn
    advances. The result does not depend on how the bytes arrive; a completed request has one
    framing, by an invariant that every turn keeps; and two holes in its limits are proved.
  \<^item> \<open>Http1_Date\<close>, \<open>Http1_Codec\<close>, \<open>Http1_Response\<close>, \<open>Http1_Stream\<close>: \<open>http1/codec.nim\<close>. The Date header is
    the Gregorian calendar; a response reads as its fields and body with one framing, up to a
    field name with a line break inside; and chunks are read back by the parser above.
  \<^item> \<open>Hpack_Tables\<close>, \<open>Hpack\<close>, \<open>Hpack_Props\<close>, \<open>Hpack_Roundtrip\<close>, \<open>Hpack_Huffman\<close>,
    \<open>Hpack_Huffman_Props\<close>: \<open>hpack_tables.nim\<close> and \<open>hpack.nim\<close>. Integers survive the wire, no input
    pushes the decoder over its limits or outside its buffer, what the encoder writes the
    decoder reads, the Huffman tree is the trie of a complete prefix-free code, and the
    Huffman decoder accepts exactly the encodings.
  \<^item> \<open>H2_Frames\<close>, \<open>H2_Headers\<close>: \<open>http2/frames.nim\<close> and the header blocks of responses in
    \<open>http2/codec.nim\<close>: a response's fields arrive as they were meant, in frames the peer accepts.

  \<^bold>\<open>Parameters.\<close> aioquic, httpx, websockets, the codecs, the random generator, sockets and the
  operating system are arguments: the records \<open>codecs\<close>, \<open>env\<close>, \<open>cenv\<close>, \<open>peer\<close> and \<open>ienv\<close>; the status texts of
  \<open>std/httpcore\<close> are the argument \<open>status_text\<close>. Theorems about
  a client alone hold for every outside; theorems about both ends name what the outside does
  as a hypothesis on these arguments, and their witnesses give a concrete outside.

  \<^bold>\<open>Fuel and bounds.\<close> Loops to a deadline (\<open>until_deadline\<close>) have one turn of fuel per reading
  of the clock that is left, which is enough because every turn reads the clock; running out
  of readings is the outcome \<open>Waiting\<close>. The event loop \<open>sse_loop\<close> has as many turns as there are
  events: \<open>sse_sequence_fuel\<close> shows that each connection that does not raise advances. Parsers and
  splitters are total by a measure on the bytes left. Buffer offsets of the HTTP/1 parser are
  natural numbers, equal to the \<open>int32\<close> slices of the source on buffers below 2 GiB; its chunk
  sizes are \<open>int64\<close> values that wrap. \<open>emit_block_loop\<close> is partial, and is
  shown to return for every positive frame size.

  \<^bold>\<open>Not modelled.\<close> The rendering of tracebacks and command-line parsing; process startup,
  routing and the WebSocket echo of the stress server; of the server library the event loop,
  connection tables, TLS, HTTP/3 connections, streams and flow control of HTTP/2,
  static files, compression and adapters, which are system calls, threads and foreign
  libraries around the formats above. Lines that the map does not cover are docstrings,
  comments and imports.
\<close>

end
